(* ===== verification/H3Prelude.thy ===== *)
theory H3Prelude
  imports Main "HOL-Library.Word" "HOL-Library.Sublist"
begin

text \<open>
  The vocabulary shared by all components: the result of polling a future, Rust results and
  panics, the error values of the crates, the opaque error codes of HTTP/3, the shared store of
  \<open>Arc<AtomicBool>\<close> cells, URIs, the generic notion of a reachable state with its invariant
  rule, and the named collections of simplification and inversion rules.
\<close>

named_theorems h3_defs \<open>definitions of operations, unfolded by component proofs\<close>
named_theorems h3_inv \<open>preservation facts of component invariants\<close>

section \<open>Polls, results, panics\<close>

type_synonym bytes = "8 word list"

text \<open>\<open>std::task::Poll\<close>.\<close>

datatype 'a poll = Pending | Ready (poll_value: 'a)

text \<open>\<open>Result<T, E>\<close> is the sum type; the constructors keep the names of the source.\<close>

abbreviation Err :: "'e \<Rightarrow> 'e + 'a" where "Err \<equiv> Inl"
abbreviation Ok :: "'a \<Rightarrow> 'e + 'a" where "Ok \<equiv> Inr"

text \<open>Code that may fail an \<open>assert!\<close> or an \<open>expect\<close> returns a value of this type.\<close>

datatype 'a outcome = Panic string | Return 'a

fun panics :: "'a outcome \<Rightarrow> bool" where
  "panics (Panic _) = True"
| "panics (Return _) = False"

text \<open>What a single step of an \<open>async\<close> body tells the loop that polls it: run on, give the
  thread back because an awaited future is pending, or complete.\<close>

datatype flow = Again | Yield | Complete

section \<open>Errors\<close>

text \<open>
  \<open>crate::Error\<close> is \<open>Box<dyn std::error::Error + Send + Sync>\<close>. The values the crates box are
  string messages, I/O errors made from an \<open>ErrorKind\<close>, the stream errors of h3 (type \<open>'se\<close>)
  and the errors of the other libraries (type \<open>'x\<close>).
\<close>

datatype io_error_kind = InvalidInput | AddrNotAvailable

datatype ('se, 'x) error = Msg string | Io io_error_kind | StreamErr 'se | Foreign 'x

text \<open>The constants of \<open>h3::error::Code\<close> that the crates name; \<open>H3_other\<close> is any other code.\<close>

datatype h3_code = H3_NO_ERROR | H3_INTERNAL_ERROR | H3_REQUEST_CANCELLED | H3_other nat

section \<open>Shared atomic booleans\<close>

text \<open>
  An \<open>Arc<AtomicBool>\<close> is the address of a cell in a store. Cloning the \<open>Arc\<close> copies the
  address, \<open>Arc::new\<close> takes a fresh one, and every holder of the address sees a \<open>store\<close>. Beside
  the cells stands \<open>net\<close>, the state that the futures of the libraries share with each other and with
  the outside: connections, channels, peers. The crates reach it only through the operations of the
  libraries, which take it and return it.
\<close>

record 'w cell_store =
  cells :: "nat \<Rightarrow> bool"
  next_cell :: nat
  net :: 'w

definition new_cell :: "bool \<Rightarrow> 'w cell_store \<Rightarrow> nat \<times> 'w cell_store" where
  "new_cell v s = (next_cell s, s\<lparr>cells := (cells s)(next_cell s := v), next_cell := Suc (next_cell s)\<rparr>)"

definition load_cell :: "nat \<Rightarrow> 'w cell_store \<Rightarrow> bool" where
  "load_cell a s = cells s a"

definition store_cell :: "nat \<Rightarrow> bool \<Rightarrow> 'w cell_store \<Rightarrow> 'w cell_store" where
  "store_cell a v s = s\<lparr>cells := (cells s)(a := v)\<rparr>"

definition empty_cells :: "'w \<Rightarrow> 'w cell_store" where
  "empty_cells w = \<lparr>cells = (\<lambda>_. False), next_cell = 0, net = w\<rparr>"

lemma load_net_cell [simp]: "load_cell a (s\<lparr>net := w\<rparr>) = load_cell a s"
  by (simp add: load_cell_def)

lemma net_store_cell [simp]: "net (store_cell a v s) = net s"
  by (simp add: store_cell_def)

lemma net_new_cell [simp]: "net (snd (new_cell v s)) = net s"
  by (simp add: new_cell_def)

text \<open>The same flags, whatever has become of the rest.\<close>

definition same_flags :: "'w cell_store \<Rightarrow> 'w cell_store \<Rightarrow> bool" where
  "same_flags s t \<longleftrightarrow> (\<exists>w. t = s\<lparr>net := w\<rparr>)"

lemma same_flags_refl [simp, intro]: "same_flags s s"
  unfolding same_flags_def by (rule exI [of _ "net s"]) simp

lemma same_flags_net [simp]: "same_flags s (s\<lparr>net := w\<rparr>)"
  by (auto simp: same_flags_def)

lemma same_flags_net_left [simp]: "same_flags (s\<lparr>net := w\<rparr>) t = same_flags s t"
  by (simp add: same_flags_def)

lemma same_flags_store_net: "same_flags (store_cell a v s) (store_cell a v (s\<lparr>net := w\<rparr>))"
  unfolding same_flags_def store_cell_def by (rule exI [of _ w]) simp

lemma same_flagsD: "same_flags s t \<Longrightarrow> load_cell a t = load_cell a s \<and> next_cell t = next_cell s"
  by (auto simp: same_flags_def)

lemma load_store_cell [simp]:
  "load_cell a (store_cell b v s) = (if a = b then v else load_cell a s)"
  by (simp add: load_cell_def store_cell_def)

lemma next_store_cell [simp]: "next_cell (store_cell a v s) = next_cell s"
  by (simp add: store_cell_def)

lemma new_cell_address [simp]: "fst (new_cell v s) = next_cell s"
  by (simp add: new_cell_def)

lemma next_new_cell [simp]: "next_cell (snd (new_cell v s)) = Suc (next_cell s)"
  by (simp add: new_cell_def)

lemma load_new_cell [simp]:
  "load_cell a (snd (new_cell v s)) = (if a = next_cell s then v else load_cell a s)"
  by (simp add: load_cell_def new_cell_def)

section \<open>URIs\<close>

text \<open>The parts of an \<open>http::Uri\<close> that the crates read.\<close>

record uri =
  uri_scheme :: "string option"
  uri_authority :: "string option"
  uri_path_and_query :: "string option"

section \<open>Reachable states and invariants\<close>

inductive reach :: "('s \<Rightarrow> bool) \<Rightarrow> ('s \<Rightarrow> 's \<Rightarrow> bool) \<Rightarrow> 's \<Rightarrow> bool"
  for init :: "'s \<Rightarrow> bool" and step :: "'s \<Rightarrow> 's \<Rightarrow> bool"
where
  reach_init: "init s \<Longrightarrow> reach init step s"
| reach_step: "reach init step s \<Longrightarrow> step s t \<Longrightarrow> reach init step t"

lemma reach_rtranclp:
  assumes "init s" "step\<^sup>*\<^sup>* s t"
  shows "reach init step t"
  using assms(2) by (induction rule: rtranclp_induct) (auto intro: reach_init [of init, OF assms(1)] reach_step)

text \<open>
  A component that moves between states: its start states, its steps and a predicate that the
  starts have and the steps keep. Every component with a lifetime (the body senders, the request
  sender, the accept loop, the flush loop of a stream) is an interpretation.
\<close>

locale invariant_system =
  fixes init :: "'s \<Rightarrow> bool"
    and step :: "'s \<Rightarrow> 's \<Rightarrow> bool"
    and inv :: "'s \<Rightarrow> bool"
  assumes inv_init: "init s \<Longrightarrow> inv s"
    and inv_step: "inv s \<Longrightarrow> step s t \<Longrightarrow> inv t"
begin

lemma reach_inv: "reach init step s \<Longrightarrow> inv s"
  by (induction rule: reach.induct) (auto intro: inv_init inv_step)

lemma reach_conseq: "reach init step s \<Longrightarrow> (\<And>t. inv t \<Longrightarrow> P t) \<Longrightarrow> P s"
  using reach_inv by blast

end

end
