(* ===== verification/SendGuard.thy ===== *)
theory SendGuard
  imports H3Prelude
begin

text \<open>
  The reset-on-drop guard of \<open>h3-util/src/send_guard.rs\<close> and the vocabulary of the send half of
  a request stream: body frames, the operations a body sender awaits on the stream, and what a
  peer can observe of it.
\<close>

section \<open>Frames and operations of the send half\<close>

text \<open>
  A \<open>hyper::body::Frame\<close>. The senders ask \<open>is_data\<close>, then \<open>is_trailers\<close>, and have no branch for
  anything else: \<open>FOther\<close> is a frame for which both answers are no.
\<close>

datatype 'h frame = FData bytes | FTrailers 'h | FOther

text \<open>The three futures a sender awaits on the stream.\<close>

datatype 'h send_op = Op_data bytes | Op_trailers 'h | Op_finish

fun op_frames :: "'h send_op \<Rightarrow> 'h frame list" where
  "op_frames (Op_data d) = [FData d]"
| "op_frames (Op_trailers t) = [FTrailers t]"
| "op_frames Op_finish = []"

text \<open>What the peer can see of a send half: still open, ended by a FIN, or reset.\<close>

datatype send_status = Send_open | Send_fin | Send_reset h3_code

text \<open>A send half moves only from open to one of its two ends; the order says so.\<close>

instantiation send_status :: order
begin

definition less_eq_send_status :: "send_status \<Rightarrow> send_status \<Rightarrow> bool" where
  "s \<le> t \<longleftrightarrow> s = Send_open \<or> s = t"

definition less_send_status :: "send_status \<Rightarrow> send_status \<Rightarrow> bool" where
  "s < t \<longleftrightarrow> s \<le> t \<and> \<not> t \<le> (s :: send_status)"

instance
  by standard (auto simp: less_eq_send_status_def less_send_status_def)

end

lemma send_open_least [simp]: "Send_open \<le> s"
  by (simp add: less_eq_send_status_def)

lemma send_end_greatest: "s \<noteq> Send_open \<Longrightarrow> s \<le> t \<Longrightarrow> t = s"
  by (simp add: less_eq_send_status_def)

section \<open>The guard\<close>

text \<open>
  The trait \<open>StopSendStream\<close> has one method. Its implementations for the client and the server
  \<open>RequestStream\<close> call the \<open>stop_stream\<close> of h3, and the one for \<open>&mut T\<close> calls \<open>T\<close>'s.
\<close>

definition client_stop_send_stream :: "(h3_code \<Rightarrow> 's \<Rightarrow> 's) \<Rightarrow> h3_code \<Rightarrow> 's \<Rightarrow> 's" where
  "client_stop_send_stream stop_stream c w = stop_stream c w"

definition server_stop_send_stream :: "(h3_code \<Rightarrow> 's \<Rightarrow> 's) \<Rightarrow> h3_code \<Rightarrow> 's \<Rightarrow> 's" where
  "server_stop_send_stream stop_stream c w = stop_stream c w"

definition ref_stop_send_stream :: "(h3_code \<Rightarrow> 's \<Rightarrow> 's) \<Rightarrow> h3_code \<Rightarrow> 's \<Rightarrow> 's" where
  "ref_stop_send_stream stop_send_stream c w = stop_send_stream c w"

record 's SendResetGuard =
  guard_w :: 's
  guard_armed :: bool
  guard_code :: h3_code

definition SendResetGuard_new :: "'s \<Rightarrow> 's SendResetGuard" where
  "SendResetGuard_new w = \<lparr>guard_w = w, guard_armed = True, guard_code = H3_REQUEST_CANCELLED\<rparr>"

definition disarm :: "'s SendResetGuard \<Rightarrow> 's SendResetGuard" where
  "disarm g = g\<lparr>guard_armed := False\<rparr>"

definition set_error_code :: "h3_code \<Rightarrow> 's SendResetGuard \<Rightarrow> 's SendResetGuard" where
  "set_error_code c g = g\<lparr>guard_code := c\<rparr>"

definition deref :: "'s SendResetGuard \<Rightarrow> 's" where
  "deref g = guard_w g"

text \<open>\<open>deref_mut\<close> hands the wrapped stream to a mutating method.\<close>

definition deref_mut :: "('s \<Rightarrow> 'r \<times> 's) \<Rightarrow> 's SendResetGuard \<Rightarrow> 'r \<times> 's SendResetGuard" where
  "deref_mut f g = (case f (guard_w g) of (r, w) \<Rightarrow> (r, g\<lparr>guard_w := w\<rparr>))"

text \<open>\<open>Drop::drop\<close>; the wrapped stream is what is left.\<close>

definition guard_drop :: "(h3_code \<Rightarrow> 's \<Rightarrow> 's) \<Rightarrow> 's SendResetGuard \<Rightarrow> 's" where
  "guard_drop stop_send_stream g =
     (if guard_armed g then stop_send_stream (guard_code g) (guard_w g) else guard_w g)"

lemmas guard_defs =
  SendResetGuard_new_def disarm_def set_error_code_def deref_def deref_mut_def guard_drop_def
  client_stop_send_stream_def server_stop_send_stream_def ref_stop_send_stream_def

lemmas [h3_defs] = guard_defs

section \<open>What h3 promises of the send half\<close>

text \<open>
  The documented behaviour of the send half of a \<open>RequestStream\<close> that the guard relies on, as
  \<open>send_guard.rs\<close> states it: writing never ends the stream; a \<open>finish\<close> that succeeds ends it
  with a FIN and one that has not succeeded has not; \<open>stop_stream\<close> resets an open stream and is a
  no-op on an ended one; dropping an open stream makes the backend finish it. \<open>sent\<close> is the list
  of frames that were accepted whole.
\<close>

definition send_half_ok ::
  "('h send_op \<Rightarrow> 's \<Rightarrow> ('se + unit) poll \<times> 's) \<Rightarrow> (h3_code \<Rightarrow> 's \<Rightarrow> 's) \<Rightarrow> ('s \<Rightarrow> 's) \<Rightarrow>
   ('s \<Rightarrow> send_status) \<Rightarrow> ('s \<Rightarrow> 'h frame list) \<Rightarrow> bool" where
  "send_half_ok poll_send stop_stream drop_stream status sent \<longleftrightarrow>
     (\<forall>op w r w'. poll_send op w = (r, w') \<longrightarrow> status w \<le> status w' \<and>
        (status w \<noteq> Send_fin \<and> \<not> (op = Op_finish \<and> r = Ready (Ok ())) \<longrightarrow> status w' \<noteq> Send_fin) \<and>
        (op = Op_finish \<and> r = Ready (Ok ()) \<longrightarrow> status w' = Send_fin) \<and>
        (r = Pending \<longrightarrow> sent w' = sent w) \<and>
        (r = Ready (Ok ()) \<longrightarrow> sent w' = sent w @ op_frames op)) \<and>
     (\<forall>c w. (status w = Send_open \<longrightarrow> status (stop_stream c w) = Send_reset c) \<and>
        (status w \<noteq> Send_open \<longrightarrow> stop_stream c w = w)) \<and>
     (\<forall>w. (status w = Send_open \<longrightarrow> status (drop_stream w) = Send_fin) \<and>
        (status w \<noteq> Send_open \<longrightarrow> status (drop_stream w) = status w) \<and>
        sent (drop_stream w) = sent w)"

lemma send_half_mono:
  assumes "send_half_ok ps st dr status sent" "ps op w = (r, w')"
  shows "status w \<le> status w'"
  using assms unfolding send_half_ok_def by blast

lemma send_half_write:
  assumes "send_half_ok ps st dr status sent" "ps op w = (r, w')" "status w \<noteq> Send_fin"
    "\<not> (op = Op_finish \<and> r = Ready (Ok ()))"
  shows "status w' \<noteq> Send_fin"
  using assms unfolding send_half_ok_def by blast

lemma send_half_finish:
  assumes "send_half_ok ps st dr status sent" "ps Op_finish w = (Ready (Ok ()), w')"
  shows "status w' = Send_fin"
  using assms unfolding send_half_ok_def by blast

lemma send_half_sent:
  assumes "send_half_ok ps st dr status sent" "ps op w = (r, w')"
  shows "(r = Pending \<longrightarrow> sent w' = sent w) \<and> (r = Ready (Ok ()) \<longrightarrow> sent w' = sent w @ op_frames op)"
  using assms unfolding send_half_ok_def by blast

lemma send_half_stop:
  assumes "send_half_ok ps st dr status sent"
  shows "status (st c w) = (if status w = Send_open then Send_reset c else status w)"
  using assms unfolding send_half_ok_def by presburger

lemma send_half_drop:
  assumes "send_half_ok ps st dr status sent"
  shows "status (dr w) = (if status w = Send_open then Send_fin else status w)"
    and "sent (dr w) = sent w"
  using assms unfolding send_half_ok_def by presburger+

text \<open>
  Dropping a guard and then the stream under it: an armed guard turns an open stream into a reset
  with its code, a disarmed one leaves the stream to the backend.
\<close>

lemma guard_then_stream_drop:
  assumes "send_half_ok ps st dr status sent"
  shows "status (dr (guard_drop st g)) =
    (if status (guard_w g) = Send_open
     then (if guard_armed g then Send_reset (guard_code g) else Send_fin)
     else status (guard_w g))"
  using send_half_stop [OF assms] send_half_drop(1) [OF assms] by (simp add: guard_drop_def)

lemma armed_drop_never_fin:
  assumes "send_half_ok ps st dr status sent" "guard_armed g" "status (guard_w g) \<noteq> Send_fin"
  shows "status (dr (guard_drop st g)) \<noteq> Send_fin"
  using assms by (simp add: guard_then_stream_drop)

end
