(* ===== verification/BodySend.thy ===== *)
theory BodySend
  imports SendGuard
begin

text \<open>
  What the two body senders, \<open>send_h3_client_body\<close> and \<open>send_h3_server_body\<close>, have in common: the
  external operations they call, what a body source promises, and the contract of a sender whose
  stream is reset when it is interrupted. The contract is a locale; its lemmas are proved here
  once and each sender interprets it.
\<close>

section \<open>External operations\<close>

text \<open>
  \<open>poll_frame\<close> of the body source, the poll of a stream operation, \<open>stop_stream\<close>, and the \<open>Drop\<close>
  of the stream itself. Every operation returns the updated object, so a poll may find it in any
  state its peers have left it in.
\<close>

record ('b, 'h, 's, 'se, 'x) body_ops =
  bo_poll_frame :: "'b \<Rightarrow> ('x + 'h frame) option poll \<times> 'b"
  bo_poll_send :: "'h send_op \<Rightarrow> 's \<Rightarrow> ('se + unit) poll \<times> 's"
  bo_stop_stream :: "h3_code \<Rightarrow> 's \<Rightarrow> 's"
  bo_drop_stream :: "'s \<Rightarrow> 's"

text \<open>
  Where a sender is suspended: at the head of its loop, waiting for the next frame of the body
  (and, on the client, for a cancellation), or at an operation of the stream.
\<close>

datatype 'h body_pc = At_select | At_send "'h send_op"

text \<open>The source promises to yield the frames of its content, one by one and in order.\<close>

definition body_ok :: "('b \<Rightarrow> ('x + 'h frame) option poll \<times> 'b) \<Rightarrow> ('b \<Rightarrow> 'h frame list) \<Rightarrow> bool" where
  "body_ok poll_frame frames \<longleftrightarrow> (\<forall>b. case poll_frame b of
       (Pending, b') \<Rightarrow> frames b' = frames b
     | (Ready None, b') \<Rightarrow> frames b = []
     | (Ready (Some (Ok f)), b') \<Rightarrow> frames b = f # frames b'
     | (Ready (Some (Err e)), b') \<Rightarrow> True)"

lemma body_ok_pending: "body_ok pf frames \<Longrightarrow> pf b = (Pending, b') \<Longrightarrow> frames b' = frames b"
  and body_ok_end: "body_ok pf frames \<Longrightarrow> pf b = (Ready None, b') \<Longrightarrow> frames b = []"
  and body_ok_frame: "body_ok pf frames \<Longrightarrow> pf b = (Ready (Some (Ok f)), b') \<Longrightarrow> frames b = f # frames b'"
  unfolding body_ok_def by (drule spec [of _ b], simp)+

text \<open>The frames that reach the wire: a frame that is neither data nor trailers is dropped.\<close>

definition wire_frames :: "'h frame list \<Rightarrow> 'h frame list" where
  "wire_frames fs = filter (\<lambda>f. f \<noteq> FOther) fs"

lemma wire_frames_simps [simp]:
  "wire_frames [] = []"
  "wire_frames (FData d # fs) = FData d # wire_frames fs"
  "wire_frames (FTrailers t # fs) = FTrailers t # wire_frames fs"
  "wire_frames (FOther # fs) = wire_frames fs"
  by (simp_all add: wire_frames_def)

text \<open>What is still to be sent at a suspension point, given the rest of the body.\<close>

fun unsent :: "'h body_pc \<Rightarrow> 'h frame list \<Rightarrow> 'h frame list" where
  "unsent At_select fs = wire_frames fs"
| "unsent (At_send Op_finish) fs = []"
| "unsent (At_send op) fs = op_frames op @ wire_frames fs"

text \<open>The stream contract of \<open>send_half_ok\<close>, for the operations of a sender.\<close>

abbreviation ops_ok ::
  "('b, 'h, 's, 'se, 'x, 'm) body_ops_scheme \<Rightarrow> ('s \<Rightarrow> send_status) \<Rightarrow> ('s \<Rightarrow> 'h frame list) \<Rightarrow>
   ('b \<Rightarrow> 'h frame list) \<Rightarrow> bool" where
  "ops_ok ops status sent frames \<equiv>
     send_half_ok (bo_poll_send ops) (bo_stop_stream ops) (bo_drop_stream ops) status sent \<and>
     body_ok (bo_poll_frame ops) frames"

section \<open>The contract of a body sender\<close>

text \<open>
  The status a failure leaves, from the status before the failing step: the step may have found
  that the peer had ended the stream, and otherwise the stream is reset with the internal error.
\<close>

definition failure_status :: "send_status \<Rightarrow> send_status \<Rightarrow> bool" where
  "failure_status before after \<longleftrightarrow>
     (\<exists>s\<ge>before. after = (if s = Send_open then Send_reset H3_INTERNAL_ERROR else s))"

lemma failure_status_open:
  "failure_status before Send_open \<longleftrightarrow> False"
  "failure_status (Send_reset c) after \<longleftrightarrow> after = Send_reset c"
  by (auto simp: failure_status_def less_eq_send_status_def)

text \<open>
  A sender is a future \<open>'f\<close> that moves by steps. While it runs it holds an unfinished stream
  (\<open>held\<close>); \<open>left f\<close> is the stream once \<open>f\<close> has been dropped, whether or not it had completed,
  and \<open>outcome f\<close> is what it completed with. The laws: a running sender leaves its stream reset
  with the cancellation code, one that completed with an error leaves it reset with the internal
  error code unless the peer ended the stream first, and a stream is left with a FIN only when
  everything in \<open>goal\<close> was sent.
\<close>

locale body_sender = invariant_system init step inv
  for init :: "'f \<Rightarrow> bool" and step :: "'f \<Rightarrow> 'f \<Rightarrow> bool" and inv :: "'f \<Rightarrow> bool" +
  fixes held :: "'f \<Rightarrow> 's option"
    and left :: "'f \<Rightarrow> 's"
    and outcome :: "'f \<Rightarrow> ('e + unit) option"
    and status :: "'s \<Rightarrow> send_status"
    and sent :: "'s \<Rightarrow> 'h frame list"
    and goal :: "'h frame list"
  assumes running_left: "inv f \<Longrightarrow> held f = Some w \<Longrightarrow>
      status w \<noteq> Send_fin \<and>
      status (left f) = (if status w = Send_open then Send_reset H3_REQUEST_CANCELLED else status w)"
    and running_outcome: "held f = Some w \<Longrightarrow> outcome f = None"
    and completed: "inv f \<Longrightarrow> held f = None \<Longrightarrow> outcome f \<noteq> None"
    and fin_sent: "inv f \<Longrightarrow> outcome f = Some (Ok ()) \<Longrightarrow> status (left f) = Send_fin \<Longrightarrow>
      sent (left f) = goal"
    and error_left: "inv f \<Longrightarrow> outcome f = Some (Err e) \<Longrightarrow> status (left f) \<noteq> Send_fin"
    and error_code: "inv f \<Longrightarrow> held f = Some w \<Longrightarrow> step f f' \<Longrightarrow> outcome f' = Some (Err e) \<Longrightarrow>
      failure_status (status w) (status (left f'))"
begin

lemma never_truncated:
  assumes "reach init step f" "status (left f) = Send_fin"
  shows "outcome f = Some (Ok ()) \<and> sent (left f) = goal"
proof -
  have i: "inv f" using assms(1) by (rule reach_inv)
  show ?thesis
  proof (cases "held f")
    case (Some w)
    with running_left [OF i Some] assms(2) show ?thesis by (auto split: if_splits)
  next
    case None
    then obtain r where r: "outcome f = Some r" using completed [OF i] by auto
    with error_left [OF i] assms(2) have "r = Ok ()" by (cases r) auto
    with r fin_sent [OF i] assms(2) show ?thesis by simp
  qed
qed

lemma interrupted_resets:
  assumes "reach init step f" "held f = Some w" "status w = Send_open"
  shows "status (left f) = Send_reset H3_REQUEST_CANCELLED"
  using running_left [OF reach_inv [OF assms(1)] assms(2)] assms(3) by simp

lemma failed_resets:
  assumes "reach init step f" "held f = Some w" "step f f'" "outcome f' = Some (Err e)"
  shows "failure_status (status w) (status (left f'))"
  using error_code [OF reach_inv [OF assms(1)] assms(2-4)] .

end

section \<open>A concrete stream and body\<close>

text \<open>
  For evaluating the senders: a stream that remembers what was written to it and how it ended, and
  a body given by the list of its polls. Writing the single byte 255 fails.
\<close>

type_synonym sample_stream = "send_status \<times> nat frame list"
type_synonym sample_body = "(nat + nat frame) poll list"

fun sample_poll_send :: "nat send_op \<Rightarrow> sample_stream \<Rightarrow> (string + unit) poll \<times> sample_stream" where
  "sample_poll_send op (Send_open, fs) =
     (if op = Op_data [255] then (Ready (Err ''lost''), (Send_open, fs))
      else (Ready (Ok ()), (if op = Op_finish then Send_fin else Send_open, fs @ op_frames op)))"
| "sample_poll_send op (st, fs) = (Ready (Err ''closed''), (st, fs))"

fun sample_stop :: "h3_code \<Rightarrow> sample_stream \<Rightarrow> sample_stream" where
  "sample_stop c (st, fs) = (if st = Send_open then Send_reset c else st, fs)"

fun sample_drop :: "sample_stream \<Rightarrow> sample_stream" where
  "sample_drop (st, fs) = (if st = Send_open then Send_fin else st, fs)"

fun sample_poll_frame :: "sample_body \<Rightarrow> (nat + nat frame) option poll \<times> sample_body" where
  "sample_poll_frame [] = (Ready None, [])"
| "sample_poll_frame (Pending # ps) = (Pending, ps)"
| "sample_poll_frame (Ready x # ps) = (Ready (Some x), ps)"

fun sample_frames :: "sample_body \<Rightarrow> nat frame list" where
  "sample_frames [] = []"
| "sample_frames (Ready (Ok f) # ps) = f # sample_frames ps"
| "sample_frames (_ # ps) = sample_frames ps"

definition sample_ops :: "(sample_body, nat, sample_stream, string, nat) body_ops" where
  "sample_ops = \<lparr>bo_poll_frame = sample_poll_frame, bo_poll_send = sample_poll_send,
     bo_stop_stream = sample_stop, bo_drop_stream = sample_drop\<rparr>"

lemma sample_body_ok: "body_ok sample_poll_frame sample_frames"
  unfolding body_ok_def
proof
  fix b show "case sample_poll_frame b of (Pending, b') \<Rightarrow> sample_frames b' = sample_frames b
     | (Ready None, b') \<Rightarrow> sample_frames b = []
     | (Ready (Some (Ok f)), b') \<Rightarrow> sample_frames b = f # sample_frames b'
     | (Ready (Some (Err e)), b') \<Rightarrow> True"
    by (cases b rule: sample_poll_frame.cases) (auto split: sum.splits)
qed

lemma sample_half_ok: "send_half_ok sample_poll_send sample_stop sample_drop fst snd"
proof -
  have "fst w \<le> fst w' \<and>
      (fst w \<noteq> Send_fin \<and> \<not> (op = Op_finish \<and> r = Ready (Ok ())) \<longrightarrow> fst w' \<noteq> Send_fin) \<and>
      (op = Op_finish \<and> r = Ready (Ok ()) \<longrightarrow> fst w' = Send_fin) \<and>
      (r = Pending \<longrightarrow> snd w' = snd w) \<and> (r = Ready (Ok ()) \<longrightarrow> snd w' = snd w @ op_frames op)"
    if "sample_poll_send op w = (r, w')" for op w r w'
    using that by (cases "(op, w)" rule: sample_poll_send.cases) (auto split: if_splits)
  moreover have "sample_stop c w = w" if "fst w \<noteq> Send_open" for c w
    using that by (cases w) simp
  moreover have "fst w = Send_open \<Longrightarrow> fst (sample_stop c w) = Send_reset c" for c w by (cases w) simp
  moreover have "(fst w = Send_open \<longrightarrow> fst (sample_drop w) = Send_fin) \<and>
      (fst w \<noteq> Send_open \<longrightarrow> fst (sample_drop w) = fst w) \<and> snd (sample_drop w) = snd w" for w
    by (cases w) simp
  ultimately show ?thesis unfolding send_half_ok_def by blast
qed

lemma sample_ops_ok: "ops_ok sample_ops fst snd sample_frames"
  by (simp add: sample_ops_def sample_body_ok sample_half_ok)

end
