(* ===== verification/ClientBody.thy ===== *)
theory ClientBody
  imports BodySend
begin

text \<open>
  \<open>h3-util/src/client_body.rs\<close>, sending side: the future \<open>send_h3_client_body\<close> as a state machine
  with one step per awaited poll, its poll loop, and its interpretation as a body sender.
\<close>

section \<open>The future\<close>

text \<open>
  The sender also polls the receiver of the cancellation channel; \<open>True\<close> stands for a completed
  receiver, whether a value was sent or the sender was dropped.
\<close>

record ('b, 'h, 's, 'se, 'x, 'c) client_body_ops = "('b, 'h, 's, 'se, 'x) body_ops" +
  cb_poll_cancel :: "'c \<Rightarrow> bool \<times> 'c"

text \<open>
  The future holds the guard, the body and the receiver. Once it has returned, its locals are gone
  and only the stream and the result are left to speak of.
\<close>

datatype ('b, 'h, 's, 'se, 'x, 'c) client_body_fut =
    CB_running "'s SendResetGuard" 'b 'c "'h body_pc"
  | CB_done 's "('se, 'x) error + unit"

text \<open>Leaving the function drops the guard and then the owned stream.\<close>

definition client_body_exit ::
  "('b, 'h, 's, 'se, 'x, 'c) client_body_ops \<Rightarrow> 's SendResetGuard \<Rightarrow> ('se, 'x) error + unit \<Rightarrow>
   flow \<times> ('b, 'h, 's, 'se, 'x, 'c) client_body_fut" where
  "client_body_exit ops g res =
     (Complete, CB_done (bo_drop_stream ops (guard_drop (client_stop_send_stream (bo_stop_stream ops)) g)) res)"

text \<open>The biased \<open>select!\<close>: cancellation first, then the next frame.\<close>

definition client_body_select ::
  "('b, 'h, 's, 'se, 'x, 'c) client_body_ops \<Rightarrow> 's SendResetGuard \<Rightarrow> 'b \<Rightarrow> 'c \<Rightarrow>
   flow \<times> ('b, 'h, 's, 'se, 'x, 'c) client_body_fut" where
  "client_body_select ops g b c =
     (case cb_poll_cancel ops c of
        (True, c') \<Rightarrow> client_body_exit ops g (Ok ())
      | (False, c') \<Rightarrow>
          (case bo_poll_frame ops b of
             (Pending, b') \<Rightarrow> (Yield, CB_running g b' c' At_select)
           | (Ready None, b') \<Rightarrow> (Again, CB_running g b' c' (At_send Op_finish))
           | (Ready (Some (Err e)), b') \<Rightarrow>
               client_body_exit ops (set_error_code H3_INTERNAL_ERROR g) (Err (Foreign e))
           | (Ready (Some (Ok (FData d))), b') \<Rightarrow> (Again, CB_running g b' c' (At_send (Op_data d)))
           | (Ready (Some (Ok (FTrailers t))), b') \<Rightarrow>
               (Again, CB_running g b' c' (At_send (Op_trailers t)))
           | (Ready (Some (Ok FOther)), b') \<Rightarrow> (Again, CB_running g b' c' At_select)))"

text \<open>A poll of \<open>send_data\<close>, \<open>send_trailers\<close> or \<open>finish\<close> through the guard.\<close>

definition client_body_send ::
  "('b, 'h, 's, 'se, 'x, 'c) client_body_ops \<Rightarrow> 's SendResetGuard \<Rightarrow> 'b \<Rightarrow> 'c \<Rightarrow> 'h send_op \<Rightarrow>
   flow \<times> ('b, 'h, 's, 'se, 'x, 'c) client_body_fut" where
  "client_body_send ops g b c op =
     (case deref_mut (bo_poll_send ops op) g of
        (Pending, g') \<Rightarrow> (Yield, CB_running g' b c (At_send op))
      | (Ready (Err e), g') \<Rightarrow>
          client_body_exit ops (set_error_code H3_INTERNAL_ERROR g') (Err (StreamErr e))
      | (Ready (Ok _), g') \<Rightarrow>
          (case op of
             Op_finish \<Rightarrow> client_body_exit ops (disarm g') (Ok ())
           | _ \<Rightarrow> (Again, CB_running g' b c At_select)))"

fun client_body_step ::
  "('b, 'h, 's, 'se, 'x, 'c) client_body_ops \<Rightarrow> ('b, 'h, 's, 'se, 'x, 'c) client_body_fut \<Rightarrow>
   flow \<times> ('b, 'h, 's, 'se, 'x, 'c) client_body_fut" where
  "client_body_step ops (CB_running g b c At_select) = client_body_select ops g b c"
| "client_body_step ops (CB_running g b c (At_send op)) = client_body_send ops g b c op"
| "client_body_step ops (CB_done w res) = (Complete, CB_done w res)"

text \<open>Calling the function wraps the stream in an armed guard and enters the loop.\<close>

definition send_h3_client_body :: "'s \<Rightarrow> 'b \<Rightarrow> 'c \<Rightarrow> ('b, 'h, 's, 'se, 'x, 'c) client_body_fut" where
  "send_h3_client_body w bd cancel = CB_running (SendResetGuard_new w) bd cancel At_select"

text \<open>
  One \<open>poll\<close> of the future runs steps until one is pending or the function returns. A body source
  that is always ready keeps the loop running, which is the value \<open>None\<close>.
\<close>

partial_function (option) client_body_poll ::
  "('b, 'h, 's, 'se, 'x, 'c) client_body_ops \<Rightarrow> ('b, 'h, 's, 'se, 'x, 'c) client_body_fut \<Rightarrow>
   ((('se, 'x) error + unit) poll \<times> ('b, 'h, 's, 'se, 'x, 'c) client_body_fut) option" where
  "client_body_poll ops f =
     (case client_body_step ops f of
        (Again, f') \<Rightarrow> client_body_poll ops f'
      | (Yield, f') \<Rightarrow> Some (Pending, f')
      | (Complete, CB_running g b c pc) \<Rightarrow> None
      | (Complete, CB_done w res) \<Rightarrow> Some (Ready res, CB_done w res))"

text \<open>Dropping the future, at any moment.\<close>

fun client_body_drop ::
  "('b, 'h, 's, 'se, 'x, 'c) client_body_ops \<Rightarrow> ('b, 'h, 's, 'se, 'x, 'c) client_body_fut \<Rightarrow> 's" where
  "client_body_drop ops (CB_running g b c pc) =
     bo_drop_stream ops (guard_drop (client_stop_send_stream (bo_stop_stream ops)) g)"
| "client_body_drop ops (CB_done w res) = w"

fun client_body_held :: "('b, 'h, 's, 'se, 'x, 'c) client_body_fut \<Rightarrow> 's option" where
  "client_body_held (CB_running g b c pc) = Some (guard_w g)"
| "client_body_held (CB_done w res) = None"

fun client_body_outcome ::
  "('b, 'h, 's, 'se, 'x, 'c) client_body_fut \<Rightarrow> (('se, 'x) error + unit) option" where
  "client_body_outcome (CB_running g b c pc) = None"
| "client_body_outcome (CB_done w res) = Some res"

lemmas client_body_defs =
  client_body_exit_def client_body_select_def client_body_send_def send_h3_client_body_def

section \<open>The sender as a transition system\<close>

inductive client_body_moves ::
  "('b, 'h, 's, 'se, 'x, 'c) client_body_ops \<Rightarrow> ('b, 'h, 's, 'se, 'x, 'c) client_body_fut \<Rightarrow>
   ('b, 'h, 's, 'se, 'x, 'c) client_body_fut \<Rightarrow> bool" for ops where
  cb_move: "client_body_step ops (CB_running g b c pc) = (fl, f') \<Longrightarrow>
     client_body_moves ops (CB_running g b c pc) f'"

inductive_cases client_body_movesE [elim]: "client_body_moves ops f f'"

inductive_simps client_body_moves_running: "client_body_moves ops (CB_running g b c pc) f'"

text \<open>The start: a stream that has no FIN and on which no body frame was sent yet, and a body.\<close>

definition client_body_init where
  "client_body_init ops status sent frames goal f \<longleftrightarrow>
     ops_ok ops status sent frames \<and>
     (\<exists>w bd cancel. f = send_h3_client_body w bd cancel \<and> status w \<noteq> Send_fin \<and> sent w = [] \<and>
        goal = wire_frames (frames bd))"

text \<open>
  The invariant: while the sender runs, its guard is armed with the cancellation code, the stream
  has no FIN, and what was sent, the operation under way and what the body still holds make up
  the whole content. A completed sender has left a FIN only behind the whole content.
\<close>

fun client_body_inv where
  "client_body_inv ops status sent frames goal (CB_running g b c pc) \<longleftrightarrow>
     ops_ok ops status sent frames \<and>
     guard_armed g \<and> guard_code g = H3_REQUEST_CANCELLED \<and> status (guard_w g) \<noteq> Send_fin \<and>
     sent (guard_w g) @ unsent pc (frames b) = goal"
| "client_body_inv ops status sent frames goal (CB_done w res) \<longleftrightarrow>
     ops_ok ops status sent frames \<and>
     (case res of
        Ok _ \<Rightarrow> status w = Send_fin \<longrightarrow> sent w = goal
      | Err _ \<Rightarrow> status w \<noteq> Send_fin)"

lemma client_body_init_inv:
  "client_body_init ops status sent frames goal f \<Longrightarrow> client_body_inv ops status sent frames goal f"
  by (auto simp: client_body_init_def client_body_defs guard_defs)

text \<open>The stream an exit leaves behind.\<close>

lemma client_body_exit_status:
  assumes "ops_ok ops status sent frames"
  shows "client_body_exit ops g res = (fl, f') \<Longrightarrow> fl = Complete \<and> client_body_outcome f' = Some res \<and>
    status (client_body_drop ops f') =
      (if status (guard_w g) = Send_open
       then (if guard_armed g then Send_reset (guard_code g) else Send_fin)
       else status (guard_w g))"
  using guard_then_stream_drop [of "bo_poll_send ops" "bo_stop_stream ops" "bo_drop_stream ops" status sent g]
    assms
  by (auto simp: client_body_exit_def guard_drop_def client_stop_send_stream_def)

lemma client_body_exit_armed:
  assumes "ops_ok ops status sent frames" "guard_armed g" "status (guard_w g) \<noteq> Send_fin"
  shows "client_body_inv ops status sent frames goal (snd (client_body_exit ops g res))"
proof -
  obtain fl f' where e: "client_body_exit ops g res = (fl, f')" by fastforce
  then obtain w where f': "f' = CB_done w res" by (auto simp: client_body_exit_def)
  from client_body_exit_status [OF assms(1) e] assms(2,3) f' have "status w \<noteq> Send_fin"
    by (auto split: if_splits)
  with assms(1) e f' show ?thesis by (simp split: sum.split)
qed

lemma client_body_select_inv:
  assumes inv: "client_body_inv ops status sent frames goal (CB_running g b c At_select)"
  shows "client_body_inv ops status sent frames goal (snd (client_body_select ops g b c))"
proof -
  have ok: "body_ok (bo_poll_frame ops) frames" using inv by simp
  have ex: "client_body_inv ops status sent frames goal (snd (client_body_exit ops g' res))"
    if "g' = g \<or> g' = set_error_code H3_INTERNAL_ERROR g" for g' res
    by (rule client_body_exit_armed) (use inv that in \<open>auto simp: guard_defs\<close>)
  obtain cn c' where c: "cb_poll_cancel ops c = (cn, c')" by fastforce
  obtain r b' where r: "bo_poll_frame ops b = (r, b')" by fastforce
  show ?thesis
  proof (cases cn)
    case True
    with ex c show ?thesis by (simp add: client_body_select_def)
  next
    case cn: False
    show ?thesis
    proof (cases r)
      case Pending
      with r body_ok_pending [OF ok, of b b'] inv cn c show ?thesis
        by (simp add: client_body_select_def)
    next
      case (Ready x)
      show ?thesis
      proof (cases x)
        case None
        with r Ready body_ok_end [OF ok, of b b'] inv cn c show ?thesis
          by (simp add: client_body_select_def)
      next
        case (Some y)
        with r Ready body_ok_frame [OF ok, of b _ b'] inv cn c ex show ?thesis
          by (cases y; cases "projr y") (auto simp: client_body_select_def)
      qed
    qed
  qed
qed

lemma client_body_send_inv:
  assumes inv: "client_body_inv ops status sent frames goal (CB_running g b c (At_send op))"
  shows "client_body_inv ops status sent frames goal (snd (client_body_send ops g b c op))"
proof -
  have ok: "send_half_ok (bo_poll_send ops) (bo_stop_stream ops) (bo_drop_stream ops) status sent"
    using inv by simp
  obtain r w' where r: "bo_poll_send ops op (guard_w g) = (r, w')" by fastforce
  note wr = send_half_write [OF ok r] and snt = send_half_sent [OF ok r]
  show ?thesis
  proof (cases r)
    case Pending
    with r wr snt inv show ?thesis
      by (cases op) (auto simp: client_body_send_def deref_mut_def)
  next
    case (Ready x)
    show ?thesis
    proof (cases x)
      case (Inl e)
      have "client_body_inv ops status sent frames goal
          (snd (client_body_exit ops (set_error_code H3_INTERNAL_ERROR (g\<lparr>guard_w := w'\<rparr>)) (Err (StreamErr e))))"
        by (rule client_body_exit_armed) (use inv wr Ready Inl in \<open>auto simp: guard_defs\<close>)
      with r Ready Inl show ?thesis by (simp add: client_body_send_def deref_mut_def)
    next
      case (Inr u)
      show ?thesis
      proof (cases "op = Op_finish")
        case True
        with r Ready Inr snt inv send_half_drop [OF ok] show ?thesis
          by (simp add: client_body_send_def deref_mut_def client_body_exit_def guard_defs)
      next
        case False
        with r Ready Inr snt wr inv show ?thesis
          by (cases op) (auto simp: client_body_send_def deref_mut_def)
      qed
    qed
  qed
qed

lemma client_body_step_inv:
  assumes "client_body_inv ops status sent frames goal f"
  shows "client_body_inv ops status sent frames goal (snd (client_body_step ops f))"
proof (cases f)
  case (CB_running g b c pc)
  with assms show ?thesis
    using client_body_select_inv client_body_send_inv by (cases pc) (simp_all del: client_body_inv.simps)
qed (use assms in simp)

text \<open>The code a failing step resets with.\<close>

lemma client_body_error_code:
  assumes inv: "client_body_inv ops status sent frames goal (CB_running g b c pc)"
    and step: "client_body_step ops (CB_running g b c pc) = (fl, f')"
    and out: "client_body_outcome f' = Some (Err e)"
  shows "failure_status (status (guard_w g)) (status (client_body_drop ops f'))"
proof -
  have ok: "ops_ok ops status sent frames" and armed: "guard_armed g" using inv by simp_all
  have half: "send_half_ok (bo_poll_send ops) (bo_stop_stream ops) (bo_drop_stream ops) status sent"
    using ok by simp
  have exit: ?thesis if "client_body_exit ops (set_error_code H3_INTERNAL_ERROR (g\<lparr>guard_w := w'\<rparr>)) r = (fl, f')"
    and "status (guard_w g) \<le> status w'" for w' r
    unfolding failure_status_def
    by (rule exI [of _ "status w'"])
      (use client_body_exit_status [OF ok that(1)] that(2) armed in \<open>simp add: set_error_code_def\<close>)
  have self: "client_body_exit ops (set_error_code H3_INTERNAL_ERROR g) r = (fl, f') \<Longrightarrow> ?thesis" for r
    using exit [of "guard_w g" r] by simp
  show ?thesis
  proof (cases pc)
    case At_select
    with step self out show ?thesis
      by (auto simp: client_body_select_def client_body_exit_def
          split: prod.splits bool.splits poll.splits option.splits sum.splits frame.splits)
  next
    case (At_send op)
    obtain r w' where r: "bo_poll_send ops op (guard_w g) = (r, w')" by fastforce
    have "status (guard_w g) \<le> status w'" using send_half_mono [OF half r] .
    with At_send step exit [of w'] out r show ?thesis
      by (auto simp: client_body_send_def deref_mut_def client_body_exit_def disarm_def
          split: poll.splits sum.splits send_op.splits)
  qed
qed

interpretation cb: body_sender
  "client_body_init ops status sent frames goal" "client_body_moves ops"
  "client_body_inv ops status sent frames goal"
  client_body_held "client_body_drop ops" client_body_outcome status sent goal
  for ops :: "('b, 'h, 's, 'se, 'x, 'c) client_body_ops" and status sent frames goal
proof (unfold_locales, goal_cases)
  case (1 s) then show ?case by (rule client_body_init_inv)
next
  case (2 s t) then show ?case using client_body_step_inv by (fastforce elim!: client_body_movesE)
next
  case (3 f w)
  then obtain g b c pc where f: "f = CB_running g b c pc" by (cases f) auto
  with 3 show ?case
    using guard_then_stream_drop [of "bo_poll_send ops" "bo_stop_stream ops" "bo_drop_stream ops" status sent g]
    by (auto simp: guard_drop_def client_stop_send_stream_def)
next
  case (4 f w) then show ?case by (cases f) auto
next
  case (5 f) then show ?case by (cases f) auto
next
  case (6 f) then show ?case by (cases f) auto
next
  case (7 f e) then show ?case by (cases f) (auto split: sum.splits)
next
  case (8 f w f' e) then show ?case
    using client_body_error_code by (fastforce elim!: client_body_movesE)
qed

section \<open>The poll loop\<close>

text \<open>
  A source with finitely many frames: a measure that every frame it yields decreases. The loop of
  one poll then always comes to an end.
\<close>

definition finite_body :: "('b \<Rightarrow> ('x + 'h frame) option poll \<times> 'b) \<Rightarrow> ('b \<Rightarrow> nat) \<Rightarrow> bool" where
  "finite_body poll_frame m \<longleftrightarrow>
     (\<forall>b f b'. poll_frame b = (Ready (Some (Ok f)), b') \<longrightarrow> m b' < m b)"

fun client_body_measure :: "('b \<Rightarrow> nat) \<Rightarrow> ('b, 'h, 's, 'se, 'x, 'c) client_body_fut \<Rightarrow> nat" where
  "client_body_measure m (CB_running g b c At_select) = 2 * m b + 1"
| "client_body_measure m (CB_running g b c (At_send Op_finish)) = 0"
| "client_body_measure m (CB_running g b c (At_send op)) = 2 * m b + 2"
| "client_body_measure m (CB_done w res) = 0"

lemma client_body_step_measure:
  assumes fin: "finite_body (bo_poll_frame ops) m" and step: "client_body_step ops f = (Again, f')"
  shows "client_body_measure m f' < client_body_measure m f"
proof (cases "(ops, f)" rule: client_body_step.cases)
  case (1 ops' g b c)
  from step 1 have "client_body_select ops g b c = (Again, f')" by simp
  with fin 1 show ?thesis
    by (auto simp: client_body_select_def client_body_exit_def finite_body_def
        split: prod.splits bool.splits poll.splits option.splits sum.splits frame.splits)
      fastforce+
next
  case (2 ops' g b c op)
  with step show ?thesis
    by (auto simp: client_body_send_def client_body_exit_def
        split: prod.splits poll.splits sum.splits send_op.splits)
next
  case (3 ops' w res)
  with step show ?thesis by simp
qed

lemma client_body_complete_done:
  "client_body_step ops f = (Complete, f') \<Longrightarrow> \<exists>w res. f' = CB_done w res"
  by (cases "(ops, f)" rule: client_body_step.cases)
    (auto simp: client_body_select_def client_body_send_def client_body_exit_def
      split: prod.splits bool.splits poll.splits option.splits sum.splits frame.splits send_op.splits)

lemma client_body_poll_returns:
  assumes "finite_body (bo_poll_frame ops) m"
  shows "\<exists>r f'. client_body_poll ops f = Some (r, f')"
proof (induction "client_body_measure m f" arbitrary: f rule: less_induct)
  case less
  obtain fl f' where step: "client_body_step ops f = (fl, f')" by fastforce
  show ?case
  proof (cases fl)
    case Again
    with less client_body_step_measure [OF assms] step show ?thesis
      by (subst client_body_poll.simps) simp
  next
    case Yield
    with step show ?thesis by (subst client_body_poll.simps) simp
  next
    case Complete
    with step client_body_complete_done [of ops f f'] show ?thesis
      by (subst client_body_poll.simps) auto
  qed
qed

text \<open>A poll is a sequence of steps, and it is ready exactly when the future has completed.\<close>

lemma client_body_poll_moves:
  assumes "client_body_poll ops f = Some y"
  shows "(client_body_moves ops)\<^sup>*\<^sup>* f (snd y) \<and>
    (\<forall>res. fst y = Ready res \<longrightarrow> client_body_outcome (snd y) = Some res)"
proof (rule client_body_poll.raw_induct [where P = "\<lambda>ops f y. (client_body_moves ops)\<^sup>*\<^sup>* f (snd y) \<and>
      (\<forall>res. fst y = Ready res \<longrightarrow> client_body_outcome (snd y) = Some res)", OF _ assms])
  fix poll ops f y
  assume IH: "\<And>ops f y. poll ops f = Some y \<Longrightarrow> (client_body_moves ops)\<^sup>*\<^sup>* f (snd y) \<and>
      (\<forall>res. fst y = Ready res \<longrightarrow> client_body_outcome (snd y) = Some res)"
    and eq: "(case client_body_step ops f of (Again, f') \<Rightarrow> poll ops f' | (Yield, f') \<Rightarrow> Some (Pending, f')
       | (Complete, CB_running g b c pc) \<Rightarrow> None
       | (Complete, CB_done w res) \<Rightarrow> Some (Ready res, CB_done w res)) = Some y"
  obtain fl f1 where step: "client_body_step ops f = (fl, f1)" by fastforce
  have m: "(client_body_moves ops)\<^sup>*\<^sup>* f f1"
    using step by (cases f) (auto intro: client_body_moves.intros)
  show "(client_body_moves ops)\<^sup>*\<^sup>* f (snd y) \<and>
      (\<forall>res. fst y = Ready res \<longrightarrow> client_body_outcome (snd y) = Some res)"
  proof (cases fl)
    case Again
    with eq step have "poll ops f1 = Some y" by simp
    from IH [OF this] m show ?thesis by (auto intro: rtranclp_trans)
  next
    case Yield
    with eq step m show ?thesis by auto
  next
    case Complete
    with eq step m show ?thesis by (auto split: client_body_fut.splits)
  qed
qed

section \<open>Properties\<close>

lemma client_body_reach:
  assumes "ops_ok ops status sent frames" "status w \<noteq> Send_fin" "sent w = []"
    "(client_body_moves ops)\<^sup>*\<^sup>* (send_h3_client_body w bd cancel) f"
  shows "reach (client_body_init ops status sent frames (wire_frames (frames bd))) (client_body_moves ops) f"
  by (rule reach_rtranclp [OF _ assms(4)]) (use assms in \<open>auto simp: client_body_init_def\<close>)

text \<open>The sample stream with a cancellation channel that is given by its answer.\<close>

definition sample_client_ops :: "(sample_body, nat, sample_stream, string, nat, bool) client_body_ops" where
  "sample_client_ops = \<lparr>bo_poll_frame = sample_poll_frame, bo_poll_send = sample_poll_send,
     bo_stop_stream = sample_stop, bo_drop_stream = sample_drop, cb_poll_cancel = (\<lambda>c. (c, c))\<rparr>"

lemma sample_client_ops_ok: "ops_ok sample_client_ops fst snd sample_frames"
  by (simp add: sample_client_ops_def sample_body_ok sample_half_ok)

lemmas sample_client_defs =
  sample_client_ops_def client_body_defs guard_defs client_body_poll.simps

abbreviation sample_client :: "sample_body \<Rightarrow> bool \<Rightarrow> (sample_body, nat, sample_stream, string, nat, bool) client_body_fut" where
  "sample_client b c \<equiv> send_h3_client_body (Send_open, []) b c"

text \<open>
  C3: a request body is never truncated. Whatever the moment at which the client's sender completes
  or is dropped, if the peer sees the stream end with a FIN, then the sender had returned \<open>Ok\<close>
  and every data and trailer frame of the body was sent, in order.
\<close>

theorem client_body_never_truncated:
  assumes "ops_ok ops status sent frames" "status w \<noteq> Send_fin" "sent w = []"
    and "(client_body_moves ops)\<^sup>*\<^sup>* (send_h3_client_body w bd cancel) f"
    and "status (client_body_drop ops f) = Send_fin"
  shows "client_body_outcome f = Some (Ok ()) \<and> sent (client_body_drop ops f) = wire_frames (frames bd)"
  by (rule cb.never_truncated [OF client_body_reach [OF assms(1-4)] assms(5)])

theorem client_body_never_truncated_witness:
  "\<exists>f. (client_body_moves sample_client_ops)\<^sup>*\<^sup>* (sample_client [Ready (Ok (FData [1, 2])), Ready (Ok (FTrailers 9))] False) f \<and>
     client_body_outcome f = Some (Ok ()) \<and>
     snd (client_body_drop sample_client_ops f) = [FData [1, 2], FTrailers 9]"
proof -
  let ?b = "[Ready (Ok (FData [1, 2])), Ready (Ok (FTrailers 9))] :: sample_body"
  let ?w = "(Send_fin, [FData [1, 2], FTrailers 9])"
  have "client_body_poll sample_client_ops (sample_client ?b False) =
      Some (Ready (Ok ()), CB_done ?w (Ok ()))"
    by (simp add: sample_client_defs)
  from conjunct1 [OF client_body_poll_moves [OF this]]
  have m: "(client_body_moves sample_client_ops)\<^sup>*\<^sup>* (sample_client ?b False) (CB_done ?w (Ok ()))" by simp
  from client_body_never_truncated [OF sample_client_ops_ok _ _ m] m show ?thesis
    by (intro exI [of _ "CB_done ?w (Ok ())"]) simp
qed

text \<open>
  C10: an interrupted upload is visible as such. Dropping the client's sender while it is running on
  an open stream, at any suspension point, resets the stream with \<open>H3_REQUEST_CANCELLED\<close>.
\<close>

theorem client_body_interrupted_resets:
  assumes "ops_ok ops status sent frames" "status w \<noteq> Send_fin" "sent w = []"
    and "(client_body_moves ops)\<^sup>*\<^sup>* (send_h3_client_body w bd cancel) (CB_running g b c pc)"
    and "status (guard_w g) = Send_open"
  shows "status (client_body_drop ops (CB_running g b c pc)) = Send_reset H3_REQUEST_CANCELLED"
  by (rule cb.interrupted_resets [OF client_body_reach [OF assms(1-4)] _ assms(5)]) simp

theorem client_body_interrupted_resets_witness:
  "fst (client_body_drop sample_client_ops (CB_running
     \<lparr>guard_w = (Send_open, [FData [1]]), guard_armed = True, guard_code = H3_REQUEST_CANCELLED\<rparr>
     [] False At_select)) = Send_reset H3_REQUEST_CANCELLED"
proof -
  let ?g = "\<lparr>guard_w = (Send_open, [FData [1]]), guard_armed = True, guard_code = H3_REQUEST_CANCELLED\<rparr>"
  have "client_body_poll sample_client_ops (sample_client [Ready (Ok (FData [1])), Pending] False) =
      Some (Pending, CB_running ?g [] False At_select)"
    by (simp add: sample_client_defs)
  from conjunct1 [OF client_body_poll_moves [OF this]]
  have "(client_body_moves sample_client_ops)\<^sup>*\<^sup>* (sample_client [Ready (Ok (FData [1])), Pending] False)
      (CB_running ?g [] False At_select)" by simp
  from client_body_interrupted_resets [OF sample_client_ops_ok _ _ this] show ?thesis by simp
qed

text \<open>
  A failing upload resets the stream with \<open>H3_INTERNAL_ERROR\<close>. When a step of the client's
  sender returns an error, from the body or from the stream, the stream it leaves is reset with
  that code, unless the peer had ended the stream first; it never ends with a FIN.
\<close>

theorem client_body_failure_resets:
  assumes "ops_ok ops status sent frames" "status w \<noteq> Send_fin" "sent w = []"
    and "(client_body_moves ops)\<^sup>*\<^sup>* (send_h3_client_body w bd cancel) (CB_running g b c pc)"
    and "client_body_step ops (CB_running g b c pc) = (fl, f')" "client_body_outcome f' = Some (Err e)"
  shows "failure_status (status (guard_w g)) (status (client_body_drop ops f')) \<and>
    status (client_body_drop ops f') \<noteq> Send_fin"
proof -
  note r = client_body_reach [OF assms(1-4)]
  have m: "client_body_moves ops (CB_running g b c pc) f'" using assms(5) by (rule cb_move)
  have "client_body_held (CB_running g b c pc) = Some (guard_w g)" by simp
  from cb.failed_resets [OF r this m assms(6)]
    cb.error_left [OF cb.reach_inv [OF reach_step [OF r m]] assms(6)]
  show ?thesis by blast
qed

theorem client_body_failure_resets_witness:
  "\<exists>f'. client_body_step sample_client_ops (sample_client [Ready (Err 4)] False) = (Complete, f') \<and>
     failure_status Send_open (fst (client_body_drop sample_client_ops f'))"
proof -
  let ?f' = "CB_done (Send_reset H3_INTERNAL_ERROR, []) (Err (Foreign 4))"
  have s: "client_body_step sample_client_ops (sample_client [Ready (Err 4)] False) = (Complete, ?f')"
    by (simp add: sample_client_defs)
  from client_body_failure_resets [OF sample_client_ops_ok, of "(Send_open, [])" "[Ready (Err 4)]" False
      "SendResetGuard_new (Send_open, [])" "[Ready (Err 4)]" False At_select] s
  show ?thesis by (simp add: send_h3_client_body_def guard_defs)
qed

text \<open>
  C23: one poll of the client's sender comes to an end. For every body that holds finitely many
  frames the loop of \<open>send_h3_client_body\<close> reaches a pending operation or returns, and the state it
  leaves is reached by steps of the machine; a ready result is the one the sender completed with.
\<close>

theorem client_body_poll_terminates:
  assumes "finite_body (bo_poll_frame ops) m"
  shows "\<exists>r f'. client_body_poll ops f = Some (r, f') \<and> (client_body_moves ops)\<^sup>*\<^sup>* f f' \<and>
    (\<forall>res. r = Ready res \<longrightarrow> client_body_outcome f' = Some res)"
proof -
  obtain r f' where "client_body_poll ops f = Some (r, f')" using client_body_poll_returns [OF assms] by blast
  with client_body_poll_moves [OF this] show ?thesis by auto
qed

lemma sample_finite_body: "finite_body sample_poll_frame length"
proof -
  have "length b' < length b" if "sample_poll_frame b = (Ready (Some (Ok f)), b')" for b f b'
    using that by (cases b rule: sample_poll_frame.cases) auto
  then show ?thesis by (simp add: finite_body_def)
qed

theorem client_body_poll_terminates_witness:
  "\<exists>r f'. client_body_poll sample_client_ops (sample_client [Pending, Ready (Ok FOther)] False) = Some (r, f') \<and>
     (client_body_moves sample_client_ops)\<^sup>*\<^sup>* (sample_client [Pending, Ready (Ok FOther)] False) f'"
  using client_body_poll_terminates [of sample_client_ops length "sample_client [Pending, Ready (Ok FOther)] False"]
    sample_finite_body
  by (auto simp: sample_client_ops_def)

text \<open>
  Cancellation wins at the head of the loop. When the cancellation channel has fired, the next
  poll of a sender waiting for a frame returns \<open>Ok\<close> without touching the body, and an open stream
  is reset with \<open>H3_REQUEST_CANCELLED\<close>.
\<close>

theorem client_body_cancelled:
  assumes "ops_ok ops status sent frames" "status w \<noteq> Send_fin" "sent w = []"
    and "(client_body_moves ops)\<^sup>*\<^sup>* (send_h3_client_body w bd cancel) (CB_running g b c At_select)"
    and "fst (cb_poll_cancel ops c)" "status (guard_w g) = Send_open"
  shows "\<exists>w'. client_body_poll ops (CB_running g b c At_select) = Some (Ready (Ok ()), CB_done w' (Ok ())) \<and>
    status w' = Send_reset H3_REQUEST_CANCELLED"
proof -
  from assms(5) obtain c' where c: "cb_poll_cancel ops c = (True, c')" by (cases "cb_poll_cancel ops c") auto
  have "client_body_poll ops (CB_running g b c At_select) =
      Some (Ready (Ok ()), CB_done (client_body_drop ops (CB_running g b c At_select)) (Ok ()))"
    using c by (simp add: client_body_poll.simps client_body_defs)
  with cb.interrupted_resets [OF client_body_reach [OF assms(1-4)] _ assms(6)] show ?thesis by auto
qed

theorem client_body_cancelled_witness:
  "\<exists>w'. client_body_poll sample_client_ops (sample_client [Ready (Ok (FData [1]))] True) =
      Some (Ready (Ok ()), CB_done w' (Ok ())) \<and> fst w' = Send_reset H3_REQUEST_CANCELLED"
  using client_body_cancelled [OF sample_client_ops_ok, of "(Send_open, [])" "[Ready (Ok (FData [1]))]" True
      "SendResetGuard_new (Send_open, [])" "[Ready (Ok (FData [1]))]" True]
  by (simp add: send_h3_client_body_def guard_defs sample_client_ops_def)

text \<open>
  Cancellation is observed at the head of the loop only. While an operation of the stream is
  pending, a poll of the sender stays at that operation and does not ask the cancellation channel,
  whether or not it has fired.
\<close>

theorem client_body_blocked_ignores_cancel:
  assumes "bo_poll_send ops op (guard_w g) = (Pending, w')"
  shows "client_body_poll ops (CB_running g b c (At_send op)) =
    Some (Pending, CB_running (g\<lparr>guard_w := w'\<rparr>) b c (At_send op))"
  using assms by (simp add: client_body_poll.simps client_body_send_def deref_mut_def)

theorem client_body_blocked_ignores_cancel_witness:
  "client_body_poll (sample_client_ops\<lparr>bo_poll_send := (\<lambda>op w. (Pending, w))\<rparr>)
      (CB_running (SendResetGuard_new (Send_open, [])) [] True (At_send Op_finish)) =
    Some (Pending, CB_running (SendResetGuard_new (Send_open, [])) [] True (At_send Op_finish))"
  using client_body_blocked_ignores_cancel
    [of "sample_client_ops\<lparr>bo_poll_send := (\<lambda>op w. (Pending, w))\<rparr>" Op_finish
        "SendResetGuard_new (Send_open, [])" "(Send_open, [])" "[]" True]
  by (simp add: guard_defs)

end
