(* ===== verification/ServerBody.thy ===== *)
theory ServerBody
  imports ClientBody
begin

text \<open>
  \<open>h3-util/src/server_body.rs\<close>, sending side: the future \<open>send_h3_server_body\<close>. It borrows the
  stream, so leaving it drops the guard and hands the stream back. Seen from the peer it is the
  client's sender without a cancellation channel, and its contract is derived from that.
\<close>

section \<open>The future\<close>

datatype ('b, 'h, 's, 'se, 'x) server_body_fut =
    SB_running "'s SendResetGuard" 'b "'h body_pc"
  | SB_done 's "('se, 'x) error + unit"

definition server_body_exit ::
  "('b, 'h, 's, 'se, 'x) body_ops \<Rightarrow> 's SendResetGuard \<Rightarrow> ('se, 'x) error + unit \<Rightarrow>
   flow \<times> ('b, 'h, 's, 'se, 'x) server_body_fut" where
  "server_body_exit ops g res =
     (Complete, SB_done (guard_drop (ref_stop_send_stream (server_stop_send_stream (bo_stop_stream ops))) g) res)"

text \<open>The \<open>while let\<close> at the head of the loop.\<close>

definition server_body_next ::
  "('b, 'h, 's, 'se, 'x) body_ops \<Rightarrow> 's SendResetGuard \<Rightarrow> 'b \<Rightarrow>
   flow \<times> ('b, 'h, 's, 'se, 'x) server_body_fut" where
  "server_body_next ops g b =
     (case bo_poll_frame ops b of
        (Pending, b') \<Rightarrow> (Yield, SB_running g b' At_select)
      | (Ready None, b') \<Rightarrow> (Again, SB_running g b' (At_send Op_finish))
      | (Ready (Some (Err e)), b') \<Rightarrow>
          server_body_exit ops (set_error_code H3_INTERNAL_ERROR g) (Err (Foreign e))
      | (Ready (Some (Ok (FData d))), b') \<Rightarrow> (Again, SB_running g b' (At_send (Op_data d)))
      | (Ready (Some (Ok (FTrailers t))), b') \<Rightarrow> (Again, SB_running g b' (At_send (Op_trailers t)))
      | (Ready (Some (Ok FOther)), b') \<Rightarrow> (Again, SB_running g b' At_select))"

definition server_body_send ::
  "('b, 'h, 's, 'se, 'x) body_ops \<Rightarrow> 's SendResetGuard \<Rightarrow> 'b \<Rightarrow> 'h send_op \<Rightarrow>
   flow \<times> ('b, 'h, 's, 'se, 'x) server_body_fut" where
  "server_body_send ops g b op =
     (case deref_mut (bo_poll_send ops op) g of
        (Pending, g') \<Rightarrow> (Yield, SB_running g' b (At_send op))
      | (Ready (Err e), g') \<Rightarrow>
          server_body_exit ops (set_error_code H3_INTERNAL_ERROR g') (Err (StreamErr e))
      | (Ready (Ok _), g') \<Rightarrow>
          (case op of
             Op_finish \<Rightarrow> server_body_exit ops (disarm g') (Ok ())
           | _ \<Rightarrow> (Again, SB_running g' b At_select)))"

fun server_body_step ::
  "('b, 'h, 's, 'se, 'x) body_ops \<Rightarrow> ('b, 'h, 's, 'se, 'x) server_body_fut \<Rightarrow>
   flow \<times> ('b, 'h, 's, 'se, 'x) server_body_fut" where
  "server_body_step ops (SB_running g b At_select) = server_body_next ops g b"
| "server_body_step ops (SB_running g b (At_send op)) = server_body_send ops g b op"
| "server_body_step ops (SB_done w res) = (Complete, SB_done w res)"

definition send_h3_server_body :: "'s \<Rightarrow> 'b \<Rightarrow> ('b, 'h, 's, 'se, 'x) server_body_fut" where
  "send_h3_server_body w bd = SB_running (SendResetGuard_new w) bd At_select"

partial_function (option) server_body_poll ::
  "('b, 'h, 's, 'se, 'x) body_ops \<Rightarrow> ('b, 'h, 's, 'se, 'x) server_body_fut \<Rightarrow>
   ((('se, 'x) error + unit) poll \<times> ('b, 'h, 's, 'se, 'x) server_body_fut) option" where
  "server_body_poll ops f =
     (case server_body_step ops f of
        (Again, f') \<Rightarrow> server_body_poll ops f'
      | (Yield, f') \<Rightarrow> Some (Pending, f')
      | (Complete, SB_running g b pc) \<Rightarrow> None
      | (Complete, SB_done w res) \<Rightarrow> Some (Ready res, SB_done w res))"

text \<open>Dropping the future hands the borrowed stream back.\<close>

fun server_body_drop ::
  "('b, 'h, 's, 'se, 'x) body_ops \<Rightarrow> ('b, 'h, 's, 'se, 'x) server_body_fut \<Rightarrow> 's" where
  "server_body_drop ops (SB_running g b pc) =
     guard_drop (ref_stop_send_stream (server_stop_send_stream (bo_stop_stream ops))) g"
| "server_body_drop ops (SB_done w res) = w"

section \<open>The server's sender is the client's without cancellation\<close>

definition no_cancel_ops ::
  "('b, 'h, 's, 'se, 'x) body_ops \<Rightarrow> ('b, 'h, 's, 'se, 'x, unit) client_body_ops" where
  "no_cancel_ops ops = \<lparr>bo_poll_frame = bo_poll_frame ops, bo_poll_send = bo_poll_send ops,
     bo_stop_stream = bo_stop_stream ops, bo_drop_stream = bo_drop_stream ops,
     cb_poll_cancel = (\<lambda>c. (False, c))\<rparr>"

lemma no_cancel_ops_simps [simp]:
  "bo_poll_frame (no_cancel_ops ops) = bo_poll_frame ops"
  "bo_poll_send (no_cancel_ops ops) = bo_poll_send ops"
  "bo_stop_stream (no_cancel_ops ops) = bo_stop_stream ops"
  "bo_drop_stream (no_cancel_ops ops) = bo_drop_stream ops"
  "cb_poll_cancel (no_cancel_ops ops) c = (False, c)"
  by (simp_all add: no_cancel_ops_def)

text \<open>A server future as a client future: the borrowed stream is dropped by its owner afterwards.\<close>

fun as_client_fut ::
  "('b, 'h, 's, 'se, 'x) body_ops \<Rightarrow> ('b, 'h, 's, 'se, 'x) server_body_fut \<Rightarrow>
   ('b, 'h, 's, 'se, 'x, unit) client_body_fut" where
  "as_client_fut ops (SB_running g b pc) = CB_running g b () pc"
| "as_client_fut ops (SB_done w res) = CB_done (bo_drop_stream ops w) res"

lemma server_step_as_client:
  "client_body_step (no_cancel_ops ops) (as_client_fut ops f) =
     map_prod id (as_client_fut ops) (server_body_step ops f)"
proof (cases "(ops, f)" rule: server_body_step.cases)
  case (1 ops' g b)
  then show ?thesis
    by (auto simp: client_body_select_def server_body_next_def client_body_exit_def server_body_exit_def
        guard_defs split: prod.splits poll.splits option.splits sum.splits frame.splits)
next
  case (2 ops' g b op)
  then show ?thesis
    by (auto simp: client_body_send_def server_body_send_def client_body_exit_def server_body_exit_def
        guard_defs split: prod.splits poll.splits sum.splits send_op.splits)
qed simp

lemma server_left_as_client:
  "client_body_drop (no_cancel_ops ops) (as_client_fut ops f) = bo_drop_stream ops (server_body_drop ops f)"
  by (cases f) (simp_all add: guard_defs)

lemma server_start_as_client:
  "as_client_fut ops (send_h3_server_body w bd) = send_h3_client_body w bd ()"
  by (simp add: send_h3_server_body_def send_h3_client_body_def)

inductive server_body_moves ::
  "('b, 'h, 's, 'se, 'x) body_ops \<Rightarrow> ('b, 'h, 's, 'se, 'x) server_body_fut \<Rightarrow>
   ('b, 'h, 's, 'se, 'x) server_body_fut \<Rightarrow> bool" for ops where
  sb_move: "server_body_step ops (SB_running g b pc) = (fl, f') \<Longrightarrow>
     server_body_moves ops (SB_running g b pc) f'"

inductive_cases server_body_movesE: "server_body_moves ops f f'"

lemma server_moves_as_client:
  "server_body_moves ops f f' \<Longrightarrow>
   client_body_moves (no_cancel_ops ops) (as_client_fut ops f) (as_client_fut ops f')"
proof (erule server_body_movesE)
  fix g b pc fl
  assume f: "f = SB_running g b pc" and st: "server_body_step ops (SB_running g b pc) = (fl, f')"
  from server_step_as_client [of ops f] f st
  have "client_body_step (no_cancel_ops ops) (CB_running g b () pc) = (fl, as_client_fut ops f')" by simp
  then show ?thesis using f by (auto intro: client_body_moves.intros)
qed

definition server_body_init where
  "server_body_init ops status sent frames goal f \<longleftrightarrow>
     ops_ok ops status sent frames \<and>
     (\<exists>w bd. f = send_h3_server_body w bd \<and> status w \<noteq> Send_fin \<and> sent w = [] \<and>
        goal = wire_frames (frames bd))"

definition server_body_inv where
  "server_body_inv ops status sent frames goal f \<longleftrightarrow>
     client_body_inv (no_cancel_ops ops) status sent frames goal (as_client_fut ops f)"

lemma server_init_as_client:
  "server_body_init ops status sent frames goal f \<Longrightarrow>
   client_body_init (no_cancel_ops ops) status sent frames goal (as_client_fut ops f)"
  unfolding server_body_init_def client_body_init_def using server_start_as_client by fastforce

interpretation sb: body_sender
  "server_body_init ops status sent frames goal" "server_body_moves ops"
  "server_body_inv ops status sent frames goal"
  "\<lambda>f. client_body_held (as_client_fut ops f)" "\<lambda>f. bo_drop_stream ops (server_body_drop ops f)"
  "\<lambda>f. client_body_outcome (as_client_fut ops f)" status sent goal
  for ops :: "('b, 'h, 's, 'se, 'x) body_ops" and status sent frames goal
proof (unfold_locales, goal_cases)
  case (1 s) then show ?case
    unfolding server_body_inv_def by (intro cb.inv_init server_init_as_client)
next
  case (2 s t) then show ?case
    unfolding server_body_inv_def by (blast intro: cb.inv_step server_moves_as_client)
next
  case (3 f w) then show ?case
    unfolding server_body_inv_def server_left_as_client [symmetric] by (rule cb.running_left)
next
  case (4 f w) then show ?case by (rule cb.running_outcome)
next
  case (5 f) then show ?case unfolding server_body_inv_def by (rule cb.completed)
next
  case (6 f) then show ?case
    unfolding server_body_inv_def server_left_as_client [symmetric] by (rule cb.fin_sent)
next
  case (7 f e) then show ?case
    unfolding server_body_inv_def server_left_as_client [symmetric] by (rule cb.error_left)
next
  case (8 f w f' e) then show ?case
    unfolding server_body_inv_def server_left_as_client [symmetric]
    by (blast intro: cb.error_code server_moves_as_client)
qed

section \<open>Its poll loop\<close>

lemma server_poll_unfold:
  "server_body_poll ops f =
     (case server_body_step ops f of
        (Again, f') \<Rightarrow> server_body_poll ops f'
      | (Yield, f') \<Rightarrow> Some (Pending, f')
      | (Complete, f') \<Rightarrow> (case f' of SB_running g b pc \<Rightarrow> None | SB_done w res \<Rightarrow> Some (Ready res, f')))"
  by (subst server_body_poll.simps)
    (simp split: prod.split flow.split server_body_fut.split)

lemma client_poll_unfold:
  "client_body_poll ops f =
     (case client_body_step ops f of
        (Again, f') \<Rightarrow> client_body_poll ops f'
      | (Yield, f') \<Rightarrow> Some (Pending, f')
      | (Complete, f') \<Rightarrow> (case f' of CB_running g b c pc \<Rightarrow> None | CB_done w res \<Rightarrow> Some (Ready res, f')))"
  by (subst client_body_poll.simps)
    (simp split: prod.split flow.split client_body_fut.split)

text \<open>The two loops advance together: a step of one is a step of the other.\<close>

lemma lift_poll_step:
  assumes "server_body_step ops f = (fl, f')"
  shows "client_body_step (no_cancel_ops ops) (as_client_fut ops f) = (fl, as_client_fut ops f')"
  using server_step_as_client [of ops f] assms by simp

lemma server_poll_some:
  assumes "server_body_poll ops f = Some y"
  shows "client_body_poll (no_cancel_ops ops) (as_client_fut ops f) = Some (map_prod id (as_client_fut ops) y)"
proof (rule server_body_poll.raw_induct [where P = "\<lambda>ops f y.
    client_body_poll (no_cancel_ops ops) (as_client_fut ops f) = Some (map_prod id (as_client_fut ops) y)",
    OF _ assms])
  fix poll ops f y
  assume IH: "\<And>ops f y. poll ops f = Some y \<Longrightarrow>
      client_body_poll (no_cancel_ops ops) (as_client_fut ops f) = Some (map_prod id (as_client_fut ops) y)"
    and eq: "(case server_body_step ops f of (Again, f') \<Rightarrow> poll ops f' | (Yield, f') \<Rightarrow> Some (Pending, f')
       | (Complete, SB_running g b pc) \<Rightarrow> None
       | (Complete, SB_done w res) \<Rightarrow> Some (Ready res, SB_done w res)) = Some y"
  obtain fl f' where st: "server_body_step ops f = (fl, f')" by fastforce
  show "client_body_poll (no_cancel_ops ops) (as_client_fut ops f) = Some (map_prod id (as_client_fut ops) y)"
    using lift_poll_step [OF st] st eq IH
    by (subst client_poll_unfold) (auto split: flow.splits server_body_fut.splits)
qed

lemma client_poll_some:
  fixes ops :: "('b, 'h, 's, 'se, 'x) body_ops"
  assumes "client_body_poll (no_cancel_ops ops) (as_client_fut ops f) = Some y"
  shows "server_body_poll ops f \<noteq> None"
proof -
  have "\<forall>ops f. cops = no_cancel_ops ops \<longrightarrow> cf = as_client_fut ops f \<longrightarrow> server_body_poll ops f \<noteq> None"
    if "client_body_poll cops cf = Some y" for cops :: "('b, 'h, 's, 'se, 'x, unit) client_body_ops" and cf y
  proof (rule client_body_poll.raw_induct [where P = "\<lambda>cops cf y.
      \<forall>ops f. cops = no_cancel_ops ops \<longrightarrow> cf = as_client_fut ops f \<longrightarrow> server_body_poll ops f \<noteq> None", OF _ that])
    fix poll and cops :: "('b, 'h, 's, 'se, 'x, unit) client_body_ops" and cf y
    assume IH: "\<And>cops cf y. poll cops cf = Some y \<Longrightarrow>
        \<forall>ops f. cops = no_cancel_ops ops \<longrightarrow> cf = as_client_fut ops f \<longrightarrow> server_body_poll ops f \<noteq> None"
      and eq: "(case client_body_step cops cf of (Again, f') \<Rightarrow> poll cops f' | (Yield, f') \<Rightarrow> Some (Pending, f')
         | (Complete, CB_running g b c pc) \<Rightarrow> None
         | (Complete, CB_done w res) \<Rightarrow> Some (Ready res, CB_done w res)) = Some y"
    show "\<forall>ops f. cops = no_cancel_ops ops \<longrightarrow> cf = as_client_fut ops f \<longrightarrow> server_body_poll ops f \<noteq> None"
    proof (intro allI impI)
      fix ops f assume c: "cops = no_cancel_ops ops" and f: "cf = as_client_fut ops f"
      obtain fl f' where st: "server_body_step ops f = (fl, f')" by fastforce
      show "server_body_poll ops f \<noteq> None"
        using lift_poll_step [OF st] st eq IH c f
        by (subst server_poll_unfold) (auto split: flow.splits server_body_fut.splits)
    qed
  qed
  with assms show ?thesis by blast
qed

section \<open>Properties\<close>

lemma server_body_reach:
  assumes "ops_ok ops status sent frames" "status w \<noteq> Send_fin" "sent w = []"
    "(server_body_moves ops)\<^sup>*\<^sup>* (send_h3_server_body w bd) f"
  shows "reach (server_body_init ops status sent frames (wire_frames (frames bd))) (server_body_moves ops) f"
  by (rule reach_rtranclp [OF _ assms(4)]) (use assms in \<open>auto simp: server_body_init_def\<close>)

text \<open>
  C24: the server's sender and the client's are one program. Polling the server's sender is polling
  the client's with a cancellation channel that never fires, on every body and every stream: one
  poll ends if and only if the other does, with the same result and corresponding states.
\<close>

theorem server_body_poll_as_client:
  "client_body_poll (no_cancel_ops ops) (as_client_fut ops f) =
     map_option (map_prod id (as_client_fut ops)) (server_body_poll ops f)"
proof (cases "server_body_poll ops f")
  case None
  with client_poll_some [of ops f] show ?thesis by (cases "client_body_poll (no_cancel_ops ops) (as_client_fut ops f)") auto
next
  case (Some y)
  with server_poll_some [OF Some] show ?thesis by simp
qed

text \<open>
  C9: a response body is never truncated. Whatever the moment at which the server's sender
  completes or is dropped, if the peer sees the stream end with a FIN, then the sender had
  returned \<open>Ok\<close> and every data and trailer frame of the body was sent, in order.
\<close>

theorem server_body_never_truncated:
  assumes "ops_ok ops status sent frames" "status w \<noteq> Send_fin" "sent w = []"
    and "(server_body_moves ops)\<^sup>*\<^sup>* (send_h3_server_body w bd) f"
    and "status (bo_drop_stream ops (server_body_drop ops f)) = Send_fin"
  shows "client_body_outcome (as_client_fut ops f) = Some (Ok ()) \<and>
    sent (bo_drop_stream ops (server_body_drop ops f)) = wire_frames (frames bd)"
  by (rule sb.never_truncated [OF server_body_reach [OF assms(1-4)] assms(5)])

theorem server_body_never_truncated_witness:
  "client_body_outcome (as_client_fut sample_ops (SB_done (Send_fin, []) (Ok ()))) = Some (Ok ()) \<and>
   snd (sample_drop (Send_fin, [])) = wire_frames (sample_frames [])"
proof -
  let ?g = "SendResetGuard_new (Send_open, [])"
  have m: "server_body_moves sample_ops (SB_running ?g [] At_select) (SB_running ?g [] (At_send Op_finish))"
    "server_body_moves sample_ops (SB_running ?g [] (At_send Op_finish)) (SB_done (Send_fin, []) (Ok ()))"
    by (rule sb_move, simp add: sample_ops_def server_body_next_def server_body_send_def server_body_exit_def guard_defs)+
  have "(server_body_moves sample_ops)\<^sup>*\<^sup>* (send_h3_server_body (Send_open, []) []) (SB_done (Send_fin, []) (Ok ()))"
    unfolding send_h3_server_body_def by (rule rtranclp.rtrancl_into_rtrancl [OF r_into_rtranclp [of "server_body_moves sample_ops", OF m(1)] m(2)])
  from server_body_never_truncated [OF sample_ops_ok _ _ this] show ?thesis by (simp add: sample_ops_def)
qed

end
