(* ===== verification/IncomingBody.thy ===== *)
theory IncomingBody
  imports SendGuard
begin

text \<open>
  What the two incoming bodies, \<open>H3IncomingClient\<close> and \<open>H3IncomingServer\<close>, have in common: the
  operations of the receive half of a request stream, what h3 promises of it, and the contract of
  a body read through \<open>poll_frame\<close>. The contract is a locale with the facts about whole reads;
  both bodies interpret it.
\<close>

section \<open>The receive half\<close>

record ('r, 'buf, 'h, 'se) recv_ops =
  ro_poll_recv_data :: "'r \<Rightarrow> ('se + 'buf option) poll \<times> 'r"
  ro_poll_recv_trailers :: "'r \<Rightarrow> ('se + 'h option) poll \<times> 'r"
  ro_stop_sending :: "h3_code \<Rightarrow> 'r \<Rightarrow> 'r"
  ro_remaining :: "'buf \<Rightarrow> nat"
  ro_copy_to_bytes :: "'buf \<Rightarrow> nat \<Rightarrow> bytes"

text \<open>\<open>data.copy_to_bytes(data.remaining())\<close>.\<close>

definition buf_bytes :: "('r, 'buf, 'h, 'se) recv_ops \<Rightarrow> 'buf \<Rightarrow> bytes" where
  "buf_bytes ops d = ro_copy_to_bytes ops d (ro_remaining ops d)"

text \<open>
  The documented behaviour of the receive half: \<open>rbytes\<close> are the body bytes and \<open>rtrailers\<close> the
  trailer sections still to be read, \<open>rfin\<close> tells whether the peer ends the stream with a FIN.
  Data is handed out in order; its end is reported once no bytes are left, and the end of the
  trailers only at a FIN.
\<close>

definition recv_ok ::
  "('r, 'buf, 'h, 'se) recv_ops \<Rightarrow> ('r \<Rightarrow> bytes) \<Rightarrow> ('r \<Rightarrow> 'h list) \<Rightarrow> ('r \<Rightarrow> bool) \<Rightarrow> bool" where
  "recv_ok ops rbytes rtrailers rfin \<longleftrightarrow>
     (\<forall>r x r'. ro_poll_recv_data ops r = (x, r') \<longrightarrow> rfin r' = rfin r \<and> rtrailers r' = rtrailers r \<and>
        (case x of
           Pending \<Rightarrow> rbytes r' = rbytes r
         | Ready (Ok (Some d)) \<Rightarrow> rbytes r = buf_bytes ops d @ rbytes r'
         | Ready (Ok None) \<Rightarrow> rbytes r = [] \<and> rbytes r' = []
         | Ready (Err _) \<Rightarrow> True)) \<and>
     (\<forall>r x r'. ro_poll_recv_trailers ops r = (x, r') \<longrightarrow> rfin r' = rfin r \<and> rbytes r' = rbytes r \<and>
        (case x of
           Pending \<Rightarrow> rtrailers r' = rtrailers r
         | Ready (Ok (Some t)) \<Rightarrow> rtrailers r = t # rtrailers r'
         | Ready (Ok None) \<Rightarrow> rtrailers r = [] \<and> rfin r
         | Ready (Err _) \<Rightarrow> True))"

lemma recv_ok_data:
  assumes "recv_ok ops rb rt rf" "ro_poll_recv_data ops r = (x, r')"
  shows "rf r' = rf r" "rt r' = rt r" "x = Pending \<Longrightarrow> rb r' = rb r"
    "x = Ready (Ok (Some d)) \<Longrightarrow> rb r = buf_bytes ops d @ rb r'"
    "x = Ready (Ok None) \<Longrightarrow> rb r = [] \<and> rb r' = []"
  using assms unfolding recv_ok_def by fastforce+

lemma recv_ok_trailers:
  assumes "recv_ok ops rb rt rf" "ro_poll_recv_trailers ops r = (x, r')"
  shows "rf r' = rf r" "rb r' = rb r" "x = Pending \<Longrightarrow> rt r' = rt r"
    "x = Ready (Ok (Some t)) \<Longrightarrow> rt r = t # rt r'"
    "x = Ready (Ok None) \<Longrightarrow> rt r = [] \<and> rf r"
  using assms unfolding recv_ok_def by fastforce+

section \<open>Reading a body\<close>

text \<open>The bytes and the trailer sections in a list of frames.\<close>

fun body_bytes :: "'h frame list \<Rightarrow> bytes" where
  "body_bytes [] = []"
| "body_bytes (FData d # fs) = d @ body_bytes fs"
| "body_bytes (_ # fs) = body_bytes fs"

fun body_trailers :: "'h frame list \<Rightarrow> 'h list" where
  "body_trailers [] = []"
| "body_trailers (FTrailers t # fs) = t # body_trailers fs"
| "body_trailers (_ # fs) = body_trailers fs"

lemma body_bytes_append [simp]: "body_bytes (xs @ ys) = body_bytes xs @ body_bytes ys"
  by (induction xs rule: body_bytes.induct) simp_all

lemma body_trailers_append [simp]: "body_trailers (xs @ ys) = body_trailers xs @ body_trailers ys"
  by (induction xs rule: body_trailers.induct) simp_all

text \<open>
  The result of \<open>poll_frame\<close>, whether it woke its own task before returning, and the body after.
  \<open>reads p i fs j\<close>: polling \<open>i\<close> any number of times yielded the frames \<open>fs\<close> and led to \<open>j\<close>.
\<close>

inductive reads ::
  "('i \<Rightarrow> ('se + 'h frame) option poll \<times> bool \<times> 'i) \<Rightarrow> 'i \<Rightarrow> 'h frame list \<Rightarrow> 'i \<Rightarrow> bool"
  for poll_frame where
  reads_nil: "reads poll_frame i [] i"
| reads_pending: "reads poll_frame i fs j \<Longrightarrow> poll_frame j = (Pending, k, j') \<Longrightarrow> reads poll_frame i fs j'"
| reads_frame: "reads poll_frame i fs j \<Longrightarrow> poll_frame j = (Ready (Some (Ok f)), k, j') \<Longrightarrow>
     reads poll_frame i (fs @ [f]) j'"

text \<open>
  The contract of an incoming body. \<open>recv\<close> is its stream, \<open>code\<close> the code it sends when it is
  dropped before its end. \<open>stalled\<close> tells that the stream's own poll was pending, which is what
  arranges a later wake-up.
\<close>

locale incoming_body =
  fixes poll_frame :: "'i \<Rightarrow> ('se + 'h frame) option poll \<times> bool \<times> 'i"
    and drop_body :: "'i \<Rightarrow> 'r"
    and recv :: "'i \<Rightarrow> 'r"
    and data_done :: "'i \<Rightarrow> bool"
    and finished :: "'i \<Rightarrow> bool"
    and stalled :: "'i \<Rightarrow> bool"
    and stop_sending :: "h3_code \<Rightarrow> 'r \<Rightarrow> 'r"
    and code :: h3_code
    and inv :: "'i \<Rightarrow> bool"
    and rbytes :: "'r \<Rightarrow> bytes"
    and rtrailers :: "'r \<Rightarrow> 'h list"
    and rfin :: "'r \<Rightarrow> bool"
  assumes yield_data: "inv i \<Longrightarrow> poll_frame i = (Ready (Some (Ok (FData d))), k, i') \<Longrightarrow>
      inv i' \<and> \<not> data_done i \<and> \<not> data_done i' \<and> rbytes (recv i) = d @ rbytes (recv i') \<and>
      rtrailers (recv i') = rtrailers (recv i) \<and> rfin (recv i') = rfin (recv i) \<and> finished i' = finished i"
    and yield_trailers: "inv i \<Longrightarrow> poll_frame i = (Ready (Some (Ok (FTrailers t))), k, i') \<Longrightarrow>
      inv i' \<and> data_done i \<and> data_done i' \<and> rbytes (recv i') = rbytes (recv i) \<and>
      rtrailers (recv i) = t # rtrailers (recv i') \<and> rfin (recv i') = rfin (recv i) \<and> finished i' = finished i"
    and yield_other: "poll_frame i \<noteq> (Ready (Some (Ok FOther)), k, i')"
    and yield_end: "inv i \<Longrightarrow> poll_frame i = (Ready None, k, i') \<Longrightarrow>
      finished i' \<and> rbytes (recv i) = [] \<and> rtrailers (recv i) = [] \<and> rfin (recv i)"
    and yield_error: "poll_frame i = (Ready (Some (Err e)), k, i') \<Longrightarrow> finished i'"
    and yield_pending: "inv i \<Longrightarrow> poll_frame i = (Pending, k, i') \<Longrightarrow>
      inv i' \<and> (data_done i \<longrightarrow> data_done i') \<and> rbytes (recv i') = rbytes (recv i) \<and>
      rtrailers (recv i') = rtrailers (recv i) \<and> rfin (recv i') = rfin (recv i) \<and> finished i' = finished i"
    and pending_wakes: "poll_frame i = (Pending, k, i') \<Longrightarrow>
      (stalled i \<and> \<not> k \<and> data_done i' = data_done i) \<or> (k \<and> \<not> data_done i \<and> data_done i')"
    and drop_stops: "drop_body i = (if finished i then recv i else stop_sending code (recv i))"
begin

text \<open>Everything read, followed by what is left, is the content at the start.\<close>

lemma reads_content:
  assumes "reads poll_frame i fs j" "inv i"
  shows "inv j \<and> rbytes (recv i) = body_bytes fs @ rbytes (recv j) \<and>
    rtrailers (recv i) = body_trailers fs @ rtrailers (recv j) \<and> rfin (recv j) = rfin (recv i) \<and>
    finished j = finished i"
  using assms
proof (induction rule: reads.induct)
  case (reads_nil i)
  then show ?case by simp
next
  case (reads_pending i fs j k j')
  with yield_pending [of j k j'] show ?case by simp
next
  case (reads_frame i fs j f k j')
  with yield_data [of j _ k j'] yield_trailers [of j _ k j'] yield_other [of j k j'] show ?case
    by (cases f) auto
qed

text \<open>Data comes first, trailers after.\<close>

lemma reads_shape:
  assumes "reads poll_frame i fs j" "inv i"
  shows "\<exists>ds ts. fs = map FData ds @ map FTrailers ts \<and> (\<not> data_done j \<longrightarrow> ts = [])"
  using assms
proof (induction rule: reads.induct)
  case (reads_nil i)
  show ?case by (rule exI [of _ "[]"]) simp
next
  case (reads_pending i fs j k j')
  then have "inv j" using reads_content by blast
  with reads_pending yield_pending [of j k j'] show ?case by blast
next
  case (reads_frame i fs j f k j')
  then have j: "inv j" using reads_content by blast
  from reads_frame obtain ds ts where fs: "fs = map FData ds @ map FTrailers ts"
    and ts: "\<not> data_done j \<longrightarrow> ts = []" by blast
  show ?case
  proof (cases f)
    case (FData d)
    with yield_data [OF j] reads_frame.hyps(2) ts have "ts = []" by blast
    with FData fs show ?thesis by (intro exI [of _ "ds @ [d]"] exI [of _ "[]"]) simp
  next
    case (FTrailers t)
    with yield_trailers [OF j] reads_frame.hyps(2) have "data_done j'" by blast
    with FTrailers fs show ?thesis by (intro exI [of _ ds] exI [of _ "ts @ [t]"]) simp
  next
    case FOther
    with yield_other reads_frame.hyps(2) show ?thesis by blast
  qed
qed

lemma clean_end_is_complete:
  assumes "reads poll_frame i fs j" "inv i" "poll_frame j = (Ready None, k, j')"
  shows "body_bytes fs = rbytes (recv i) \<and> body_trailers fs = rtrailers (recv i) \<and> rfin (recv i) \<and>
    drop_body j' = recv j'"
  using reads_content [OF assms(1,2)] yield_end [OF _ assms(3)] drop_stops [of j'] by simp

lemma early_drop_stops:
  assumes "reads poll_frame i fs j" "inv i" "\<not> finished i"
  shows "drop_body j = stop_sending code (recv j)"
  using reads_content [OF assms(1,2)] assms(3) drop_stops [of j] by simp

text \<open>A pending read that did not wake its task left a wake-up with the stream.\<close>

lemma no_lost_wakeup:
  assumes "poll_frame i = (Pending, k, i')"
  shows "stalled i \<or> k"
  using pending_wakes [OF assms] by blast

end

section \<open>Between the halves\<close>

text \<open>
  The network between the two halves of a stream: the receiver sees a FIN only if the sender's side
  was left with one, and behind a FIN it gets what was sent.
\<close>

definition carries where
  "carries status sent rbytes rtrailers rfin w r \<longleftrightarrow>
     (rfin r \<longrightarrow> status w = Send_fin \<and> rbytes r = body_bytes (sent w) \<and> rtrailers r = body_trailers (sent w))"

section \<open>A concrete receive half\<close>

text \<open>
  For evaluating the bodies: chunks and trailer sections still to come, and whether the peer ended
  the stream. A stream that was not ended fails where its end should be.
\<close>

record sample_recv =
  sr_chunks :: "bytes list"
  sr_trailers :: "nat list"
  sr_fin :: bool
  sr_stopped :: "h3_code option"

fun sample_data :: "bytes list \<Rightarrow> sample_recv \<Rightarrow> (string + bytes option) poll \<times> sample_recv" where
  "sample_data [] r = (Ready (Ok None), r)"
| "sample_data (d # ds) r = (Ready (Ok (Some d)), r\<lparr>sr_chunks := ds\<rparr>)"

fun sample_trail :: "nat list \<Rightarrow> sample_recv \<Rightarrow> (string + nat option) poll \<times> sample_recv" where
  "sample_trail [] r = (Ready (if sr_fin r then Ok None else Err ''reset''), r)"
| "sample_trail (t # ts) r = (Ready (Ok (Some t)), r\<lparr>sr_trailers := ts\<rparr>)"

definition sample_recv_ops :: "(sample_recv, bytes, nat, string) recv_ops" where
  "sample_recv_ops = \<lparr>ro_poll_recv_data = (\<lambda>r. sample_data (sr_chunks r) r),
     ro_poll_recv_trailers = (\<lambda>r. sample_trail (sr_trailers r) r),
     ro_stop_sending = (\<lambda>c r. r\<lparr>sr_stopped := Some c\<rparr>),
     ro_remaining = length, ro_copy_to_bytes = (\<lambda>d n. take n d)\<rparr>"

lemma sample_recv_ok: "recv_ok sample_recv_ops (\<lambda>r. concat (sr_chunks r)) sr_trailers sr_fin"
proof -
  have "sr_fin r' = sr_fin r \<and> sr_trailers r' = sr_trailers r \<and>
        (case x of
           Pending \<Rightarrow> concat (sr_chunks r') = concat (sr_chunks r)
         | Ready (Ok (Some d)) \<Rightarrow> concat (sr_chunks r) = buf_bytes sample_recv_ops d @ concat (sr_chunks r')
         | Ready (Ok None) \<Rightarrow> concat (sr_chunks r) = [] \<and> concat (sr_chunks r') = []
         | Ready (Err _) \<Rightarrow> True)"
    if "sample_data (sr_chunks r) r = (x, r')" for r x r'
    using that by (cases "sr_chunks r") (auto simp: buf_bytes_def sample_recv_ops_def)
  moreover have "sr_fin r' = sr_fin r \<and> concat (sr_chunks r') = concat (sr_chunks r) \<and>
        (case x of
           Pending \<Rightarrow> sr_trailers r' = sr_trailers r
         | Ready (Ok (Some t)) \<Rightarrow> sr_trailers r = t # sr_trailers r'
         | Ready (Ok None) \<Rightarrow> sr_trailers r = [] \<and> sr_fin r
         | Ready (Err _) \<Rightarrow> True)"
    if "sample_trail (sr_trailers r) r = (x, r')" for r x r'
    using that by (cases "sr_trailers r") auto
  ultimately show ?thesis unfolding recv_ok_def by (simp add: sample_recv_ops_def)
qed

end
