(* ===== verification/ClientIncoming.thy ===== *)
theory ClientIncoming
  imports IncomingBody
begin

text \<open>
  \<open>h3-util/src/client_body.rs\<close>, receiving side: the response body \<open>H3IncomingClient\<close>. Besides the
  receive half it owns the sender of the cancellation channel, so dropping it also cancels the
  upload of the request body.
\<close>

record ('r, 'tx) H3IncomingClient =
  ic_s :: 'r
  ic_data_done :: bool
  ic_finished :: bool
  ic_cancel_body_send :: "'tx option"

definition H3IncomingClient_new :: "'r \<Rightarrow> 'tx option \<Rightarrow> ('r, 'tx) H3IncomingClient" where
  "H3IncomingClient_new s cancel_body_send =
     \<lparr>ic_s = s, ic_data_done = False, ic_finished = False, ic_cancel_body_send = cancel_body_send\<rparr>"

definition client_poll_frame ::
  "('r, 'buf, 'h, 'se) recv_ops \<Rightarrow> ('r, 'tx) H3IncomingClient \<Rightarrow>
   ('se + 'h frame) option poll \<times> bool \<times> ('r, 'tx) H3IncomingClient" where
  "client_poll_frame ops i =
     (if \<not> ic_data_done i then
        (case ro_poll_recv_data ops (ic_s i) of
           (Pending, s) \<Rightarrow> (Pending, False, i\<lparr>ic_s := s\<rparr>)
         | (Ready (Ok (Some d)), s) \<Rightarrow> (Ready (Some (Ok (FData (buf_bytes ops d)))), False, i\<lparr>ic_s := s\<rparr>)
         | (Ready (Ok None), s) \<Rightarrow> (Pending, True, i\<lparr>ic_s := s, ic_data_done := True\<rparr>)
         | (Ready (Err e), s) \<Rightarrow> (Ready (Some (Err e)), False, i\<lparr>ic_s := s, ic_finished := True\<rparr>))
      else
        (case ro_poll_recv_trailers ops (ic_s i) of
           (Pending, s) \<Rightarrow> (Pending, False, i\<lparr>ic_s := s\<rparr>)
         | (Ready (Ok (Some t)), s) \<Rightarrow> (Ready (Some (Ok (FTrailers t))), False, i\<lparr>ic_s := s\<rparr>)
         | (Ready (Ok None), s) \<Rightarrow> (Ready None, False, i\<lparr>ic_s := s, ic_finished := True\<rparr>)
         | (Ready (Err e), s) \<Rightarrow> (Ready (Some (Err e)), False, i\<lparr>ic_s := s, ic_finished := True\<rparr>)))"

text \<open>
  \<open>Drop::drop\<close> and then the drop of the fields: the receive half that is left, and the sender of
  the cancellation channel, if any, that goes away with the body.
\<close>

definition client_incoming_drop ::
  "('r, 'buf, 'h, 'se) recv_ops \<Rightarrow> ('r, 'tx) H3IncomingClient \<Rightarrow> 'r \<times> 'tx option" where
  "client_incoming_drop ops i =
     (if \<not> ic_finished i then ro_stop_sending ops H3_REQUEST_CANCELLED (ic_s i) else ic_s i,
      ic_cancel_body_send i)"

definition client_is_end_stream :: "('r, 'tx) H3IncomingClient \<Rightarrow> bool" where
  "client_is_end_stream i = False"

text \<open>\<open>SizeHint::default()\<close>: at least zero bytes, no upper bound.\<close>

definition client_size_hint :: "('r, 'tx) H3IncomingClient \<Rightarrow> nat \<times> nat option" where
  "client_size_hint i = (0, None)"

definition client_incoming_stalled ::
  "('r, 'buf, 'h, 'se) recv_ops \<Rightarrow> ('r, 'tx) H3IncomingClient \<Rightarrow> bool" where
  "client_incoming_stalled ops i =
     (if ic_data_done i then fst (ro_poll_recv_trailers ops (ic_s i)) = Pending
      else fst (ro_poll_recv_data ops (ic_s i)) = Pending)"

definition client_incoming_inv where
  "client_incoming_inv ops rbytes rtrailers rfin i \<longleftrightarrow>
     recv_ok ops rbytes rtrailers rfin \<and> (ic_data_done i \<longrightarrow> rbytes (ic_s i) = [])"

lemmas client_incoming_defs =
  client_poll_frame_def client_incoming_drop_def client_incoming_stalled_def client_incoming_inv_def

interpretation ci: incoming_body
  "client_poll_frame ops" "\<lambda>i. fst (client_incoming_drop ops i)" ic_s ic_data_done ic_finished
  "client_incoming_stalled ops" "ro_stop_sending ops" H3_REQUEST_CANCELLED
  "client_incoming_inv ops rbytes rtrailers rfin" rbytes rtrailers rfin
  for ops :: "('r, 'buf, 'h, 'se) recv_ops" and rbytes rtrailers rfin
  by unfold_locales
    (auto simp: client_incoming_defs
      split: if_splits prod.splits poll.splits sum.splits option.splits
      dest: recv_ok_data recv_ok_trailers)

section \<open>Properties\<close>

definition sample_client_incoming :: "bytes list \<Rightarrow> nat list \<Rightarrow> bool \<Rightarrow> (sample_recv, nat) H3IncomingClient" where
  "sample_client_incoming ds ts fin =
     H3IncomingClient_new \<lparr>sr_chunks = ds, sr_trailers = ts, sr_fin = fin, sr_stopped = None\<rparr> (Some 5)"

lemmas sample_client_incoming_defs =
  sample_client_incoming_def H3IncomingClient_new_def client_incoming_defs sample_recv_ops_def buf_bytes_def

text \<open>
  A response body that reports its end is complete. If polling a fresh \<open>H3IncomingClient\<close> yields
  some frames and then the end of the body, the data frames make up every byte of the stream, the
  trailer frames every trailer section, data came before trailers, and the peer had ended the stream
  with a FIN; a stream that was reset never reads as a complete body.
\<close>

theorem client_incoming_clean_end:
  assumes "recv_ok ops rbytes rtrailers rfin"
    and "reads (client_poll_frame ops) (H3IncomingClient_new r tx) fs j"
    and "client_poll_frame ops j = (Ready None, k, j')"
  shows "body_bytes fs = rbytes r \<and> body_trailers fs = rtrailers r \<and> rfin r \<and>
    (\<exists>ds ts. fs = map FData ds @ map FTrailers ts)"
proof -
  have i: "client_incoming_inv ops rbytes rtrailers rfin (H3IncomingClient_new r tx)"
    using assms(1) by (simp add: client_incoming_inv_def H3IncomingClient_new_def)
  have r: "ic_s (H3IncomingClient_new r tx) = r" by (simp add: H3IncomingClient_new_def)
  from ci.clean_end_is_complete [OF assms(2) i assms(3)] ci.reads_shape [OF assms(2) i] show ?thesis
    unfolding r by blast
qed

theorem client_incoming_clean_end_witness:
  "\<exists>fs j. reads (client_poll_frame sample_recv_ops) (sample_client_incoming [[1, 2], [3]] [8] True) fs j \<and>
     body_bytes fs = [1, 2, 3] \<and> body_trailers fs = [8]"
proof -
  let ?i = "\<lambda>ds ts dd. (sample_client_incoming ds ts True) \<lparr>ic_data_done := dd\<rparr>"
  let ?p = "client_poll_frame sample_recv_ops"
  have 0: "reads ?p (?i [[1, 2], [3]] [8] False) [] (?i [[1, 2], [3]] [8] False)" by (rule reads_nil)
  have 1: "reads ?p (?i [[1, 2], [3]] [8] False) ([] @ [FData [1, 2]]) (?i [[3]] [8] False)"
    by (rule reads_frame [where k = False, OF 0]) (simp add: sample_client_incoming_defs)
  have 2: "reads ?p (?i [[1, 2], [3]] [8] False) (([] @ [FData [1, 2]]) @ [FData [3]]) (?i [] [8] False)"
    by (rule reads_frame [where k = False, OF 1]) (simp add: sample_client_incoming_defs)
  have 3: "reads ?p (?i [[1, 2], [3]] [8] False) (([] @ [FData [1, 2]]) @ [FData [3]]) (?i [] [8] True)"
    by (rule reads_pending [where k = True, OF 2]) (simp add: sample_client_incoming_defs)
  have 4: "reads ?p (?i [[1, 2], [3]] [8] False) ((([] @ [FData [1, 2]]) @ [FData [3]]) @ [FTrailers 8]) (?i [] [] True)"
    by (rule reads_frame [where k = False, OF 3]) (simp add: sample_client_incoming_defs)
  have s: "?i [[1, 2], [3]] [8] False = sample_client_incoming [[1, 2], [3]] [8] True"
    by (simp add: sample_client_incoming_defs)
  have e: "?p (?i [] [] True) = (Ready None, False, (?i [] [] True)\<lparr>ic_finished := True\<rparr>)"
    by (simp add: sample_client_incoming_defs)
  let ?fs = "(([] @ [FData [1, 2]]) @ [FData [3]]) @ [FTrailers 8]"
  have "body_bytes ?fs = [1, 2, 3] \<and> body_trailers ?fs = [8]"
    using client_incoming_clean_end [OF sample_recv_ok 4 [unfolded s, unfolded sample_client_incoming_def]
        e [unfolded sample_client_incoming_def]]
    by simp
  with 4 [unfolded s] show ?thesis by blast
qed

text \<open>
  Dropping a response body before its end tells the peer. After any number of reads none of
  which was the end or an error, dropping the body stops the stream with \<open>H3_REQUEST_CANCELLED\<close> and
  releases the sender of the cancellation channel, which cancels the upload.
\<close>

theorem client_incoming_early_drop:
  assumes "recv_ok ops rbytes rtrailers rfin"
    and "reads (client_poll_frame ops) (H3IncomingClient_new r tx) fs j"
  shows "fst (client_incoming_drop ops j) = ro_stop_sending ops H3_REQUEST_CANCELLED (ic_s j) \<and>
    snd (client_incoming_drop ops j) = tx"
proof -
  have i: "client_incoming_inv ops rbytes rtrailers rfin (H3IncomingClient_new r tx)"
    "\<not> ic_finished (H3IncomingClient_new r tx)"
    using assms(1) by (simp_all add: client_incoming_inv_def H3IncomingClient_new_def)
  have "ic_cancel_body_send j = ic_cancel_body_send (H3IncomingClient_new r tx)"
    using assms(2)
    by (induction rule: reads.induct)
      (auto simp: client_poll_frame_def split: if_splits prod.splits poll.splits sum.splits option.splits)
  with ci.early_drop_stops [OF assms(2) i] show ?thesis
    by (simp add: client_incoming_drop_def H3IncomingClient_new_def)
qed

theorem client_incoming_early_drop_witness:
  "sr_stopped (fst (client_incoming_drop sample_recv_ops (sample_client_incoming [[1]] [] True))) =
     Some H3_REQUEST_CANCELLED \<and>
   snd (client_incoming_drop sample_recv_ops (sample_client_incoming [[1]] [] True)) = Some 5"
  using client_incoming_early_drop [OF sample_recv_ok reads_nil, of "\<lparr>sr_chunks = [[1]], sr_trailers = [], sr_fin = True, sr_stopped = None\<rparr>" "Some (5 :: nat)"]
  by (simp add: sample_client_incoming_defs)

end
