(* ===== verification/ServerIncoming.thy ===== *)
theory ServerIncoming
  imports ClientIncoming
begin

text \<open>
  \<open>h3-util/src/server_body.rs\<close>, receiving side: the request body \<open>H3IncomingServer\<close>. Its frame
  state machine is the client's; it differs in the code of an early drop, which lets the client
  keep a response that was complete before the request was.
\<close>

record 'r H3IncomingServer =
  is_s :: 'r
  is_data_done :: bool
  is_finished :: bool

definition H3IncomingServer_new :: "'r \<Rightarrow> 'r H3IncomingServer" where
  "H3IncomingServer_new s = \<lparr>is_s = s, is_data_done = False, is_finished = False\<rparr>"

definition server_poll_frame ::
  "('r, 'buf, 'h, 'se) recv_ops \<Rightarrow> 'r H3IncomingServer \<Rightarrow>
   ('se + 'h frame) option poll \<times> bool \<times> 'r H3IncomingServer" where
  "server_poll_frame ops i =
     (if \<not> is_data_done i then
        (case ro_poll_recv_data ops (is_s i) of
           (Pending, s) \<Rightarrow> (Pending, False, i\<lparr>is_s := s\<rparr>)
         | (Ready (Ok (Some d)), s) \<Rightarrow> (Ready (Some (Ok (FData (buf_bytes ops d)))), False, i\<lparr>is_s := s\<rparr>)
         | (Ready (Ok None), s) \<Rightarrow> (Pending, True, i\<lparr>is_s := s, is_data_done := True\<rparr>)
         | (Ready (Err e), s) \<Rightarrow> (Ready (Some (Err e)), False, i\<lparr>is_s := s, is_finished := True\<rparr>))
      else
        (case ro_poll_recv_trailers ops (is_s i) of
           (Pending, s) \<Rightarrow> (Pending, False, i\<lparr>is_s := s\<rparr>)
         | (Ready (Ok (Some t)), s) \<Rightarrow> (Ready (Some (Ok (FTrailers t))), False, i\<lparr>is_s := s\<rparr>)
         | (Ready (Ok None), s) \<Rightarrow> (Ready None, False, i\<lparr>is_s := s, is_finished := True\<rparr>)
         | (Ready (Err e), s) \<Rightarrow> (Ready (Some (Err e)), False, i\<lparr>is_s := s, is_finished := True\<rparr>)))"

definition server_incoming_drop :: "('r, 'buf, 'h, 'se) recv_ops \<Rightarrow> 'r H3IncomingServer \<Rightarrow> 'r" where
  "server_incoming_drop ops i =
     (if \<not> is_finished i then ro_stop_sending ops H3_NO_ERROR (is_s i) else is_s i)"

definition server_is_end_stream :: "'r H3IncomingServer \<Rightarrow> bool" where
  "server_is_end_stream i = False"

definition server_size_hint :: "'r H3IncomingServer \<Rightarrow> nat \<times> nat option" where
  "server_size_hint i = (0, None)"

definition server_incoming_stalled :: "('r, 'buf, 'h, 'se) recv_ops \<Rightarrow> 'r H3IncomingServer \<Rightarrow> bool" where
  "server_incoming_stalled ops i =
     (if is_data_done i then fst (ro_poll_recv_trailers ops (is_s i)) = Pending
      else fst (ro_poll_recv_data ops (is_s i)) = Pending)"

definition server_incoming_inv where
  "server_incoming_inv ops rbytes rtrailers rfin i \<longleftrightarrow>
     recv_ok ops rbytes rtrailers rfin \<and> (is_data_done i \<longrightarrow> rbytes (is_s i) = [])"

lemmas server_incoming_defs =
  server_poll_frame_def server_incoming_drop_def server_incoming_stalled_def server_incoming_inv_def

interpretation si: incoming_body
  "server_poll_frame ops" "server_incoming_drop ops" is_s is_data_done is_finished
  "server_incoming_stalled ops" "ro_stop_sending ops" H3_NO_ERROR
  "server_incoming_inv ops rbytes rtrailers rfin" rbytes rtrailers rfin
  for ops :: "('r, 'buf, 'h, 'se) recv_ops" and rbytes rtrailers rfin
  by unfold_locales
    (auto simp: server_incoming_defs
      split: if_splits prod.splits poll.splits sum.splits option.splits
      dest: recv_ok_data recv_ok_trailers)

section \<open>The two bodies read alike\<close>

definition as_client_incoming :: "'r H3IncomingServer \<Rightarrow> ('r, 'tx) H3IncomingClient" where
  "as_client_incoming i =
     \<lparr>ic_s = is_s i, ic_data_done = is_data_done i, ic_finished = is_finished i, ic_cancel_body_send = None\<rparr>"

lemma server_poll_as_client:
  "client_poll_frame ops (as_client_incoming i) =
     map_prod id (map_prod id as_client_incoming) (server_poll_frame ops i)"
  by (cases i)
    (auto simp: client_poll_frame_def server_poll_frame_def as_client_incoming_def
      split: prod.splits poll.splits sum.splits option.splits)

section \<open>Properties\<close>

text \<open>
  C25: no read of a request body is left without a wake-up. When \<open>poll_frame\<close> of either body is
  pending, either the stream itself was pending, and it holds the waker, or the body woke its own
  task, which it does exactly when it passes from data to trailers.
\<close>

theorem incoming_no_lost_wakeup:
  assumes "server_poll_frame ops i = (Pending, woken, i')"
  shows "(server_incoming_stalled ops i \<and> \<not> woken \<and> is_data_done i' = is_data_done i) \<or>
    (woken \<and> \<not> is_data_done i \<and> is_data_done i')"
  by (rule si.pending_wakes [OF assms])

theorem incoming_no_lost_wakeup_witness:
  "\<exists>i'. server_poll_frame sample_recv_ops
      (H3IncomingServer_new \<lparr>sr_chunks = [], sr_trailers = [], sr_fin = True, sr_stopped = None\<rparr>) = (Pending, True, i') \<and>
    is_data_done i'"
proof -
  let ?i = "H3IncomingServer_new \<lparr>sr_chunks = [], sr_trailers = [], sr_fin = True, sr_stopped = None\<rparr>"
  have p: "server_poll_frame sample_recv_ops ?i = (Pending, True, ?i\<lparr>is_data_done := True\<rparr>)"
    by (simp add: server_poll_frame_def H3IncomingServer_new_def sample_recv_ops_def)
  from incoming_no_lost_wakeup [OF p] p show ?thesis by blast
qed


end
