(* ===== verification/SendRequest.thy ===== *)
theory SendRequest
  imports ClientBody ClientIncoming
begin

text \<open>
  \<open>send_request_inner\<close> and \<open>is_connection_closing\<close> of \<open>h3-util/src/client_conn.rs\<close>: the life of one
  request on an established connection, and the classification of errors that retire it.
\<close>

section \<open>Which errors are about the connection\<close>

text \<open>The test goes through the text of the error.\<close>

definition is_connection_closing :: "('se \<Rightarrow> string) \<Rightarrow> 'se \<Rightarrow> bool" where
  "is_connection_closing to_string err =
     (let msg = to_string err
      in prefix ''Remote is closing the connection'' msg \<or> prefix ''Connection error:'' msg)"

text \<open>
  The variants of h3's \<open>StreamError\<close> and the prefixes of their texts, as the comment on
  \<open>is_connection_closing\<close> lists them for the pinned version of h3.
\<close>

datatype stream_error_kind =
  K_stream_error | K_remote_terminate | K_connection_error | K_header_too_big | K_remote_closing | K_undefined

fun display_prefix :: "stream_error_kind \<Rightarrow> string" where
  "display_prefix K_stream_error = ''Stream error:''"
| "display_prefix K_remote_terminate = ''Remote reset:''"
| "display_prefix K_connection_error = ''Connection error:''"
| "display_prefix K_header_too_big = ''Header too big:''"
| "display_prefix K_remote_closing = ''Remote is closing the connection''"
| "display_prefix K_undefined = ''Undefined error:''"

definition display_ok :: "('se \<Rightarrow> string) \<Rightarrow> ('se \<Rightarrow> stream_error_kind) \<Rightarrow> bool" where
  "display_ok to_string kind \<longleftrightarrow> (\<forall>e. prefix (display_prefix (kind e)) (to_string e))"

lemma prefixes_clash:
  assumes "prefix p s" "prefix q s"
  shows "prefix p q \<or> prefix q p"
  using assms prefix_same_cases by blast

lemma display_prefix_connection:
  assumes "prefix (display_prefix k) msg"
  shows "(prefix ''Remote is closing the connection'' msg \<or> prefix ''Connection error:'' msg) \<longleftrightarrow>
    k = K_remote_closing \<or> k = K_connection_error"
proof -
  have "k = K_remote_closing" if "prefix ''Remote is closing the connection'' msg"
    using prefixes_clash [OF assms that] by (cases k) simp_all
  moreover have "k = K_connection_error" if "prefix ''Connection error:'' msg"
    using prefixes_clash [OF assms that] by (cases k) simp_all
  ultimately show ?thesis using assms by auto
qed

section \<open>The request future\<close>

record ('sr, 'hd, 'st, 's, 'r, 'tx, 'c, 'resp, 'se, 'b, 'h, 'x, 'w) request_ops =
  so_poll_send_request :: "'sr \<Rightarrow> 'hd \<Rightarrow> 'w \<Rightarrow> ('se + 'st) poll \<times> 'sr \<times> 'w"
  so_split :: "'st \<Rightarrow> 's \<times> 'r"
  so_channel :: "'w \<Rightarrow> ('tx \<times> 'c) \<times> 'w"
  so_poll_recv_response :: "'r \<Rightarrow> 'w \<Rightarrow> ('se + 'resp) poll \<times> 'r \<times> 'w"
  so_to_string :: "'se \<Rightarrow> string"
  so_body :: "('b, 'h, 's, 'se, 'x, 'c) client_body_ops"

text \<open>
  The suspension points: the \<open>await\<close> of \<open>send_request\<close>, holding the request, the sender and the
  \<open>closing\<close> flag of its connection; and the \<open>await\<close> of \<open>recv_response\<close>, holding the receive half,
  the sender of the cancellation channel and the flag.
\<close>

datatype ('sr, 'hd, 'r, 'tx, 'b) request_fut =
    RF_sending 'hd 'b 'sr nat
  | RF_receiving 'r 'tx nat
  | RF_done

text \<open>
  What a poll does beside its result: hand the body sender to the executor, and drop the sender of
  the cancellation channel or the receive half when the function returns an error.
\<close>

datatype ('r, 'tx, 'f) request_effect = Spawn_body 'f | Drop_cancel 'tx | Drop_recv 'r

definition send_request_inner :: "'hd \<Rightarrow> 'b \<Rightarrow> 'sr \<Rightarrow> nat \<Rightarrow> ('sr, 'hd, 'r, 'tx, 'b) request_fut" where
  "send_request_inner head body send_request closing = RF_sending head body send_request closing"

text \<open>\<open>if is_connection_closing(&e) { closing.store(true) }\<close>.\<close>

definition note_error :: "('se \<Rightarrow> string) \<Rightarrow> 'se \<Rightarrow> nat \<Rightarrow> 'w cell_store \<Rightarrow> 'w cell_store" where
  "note_error to_string e closing cs =
     (if is_connection_closing to_string e then store_cell closing True cs else cs)"

type_synonym ('sr, 'hd, 'r, 'tx, 'b, 'f, 'resp, 'se, 'x, 'w) request_poll =
  "(('se, 'x) error + 'resp \<times> ('r, 'tx) H3IncomingClient) poll \<times> ('sr, 'hd, 'r, 'tx, 'b) request_fut \<times>
   'w cell_store \<times> ('r, 'tx, 'f) request_effect list"

definition request_receive ::
  "('sr, 'hd, 'st, 's, 'r, 'tx, 'c, 'resp, 'se, 'b, 'h, 'x, 'w) request_ops \<Rightarrow> 'r \<Rightarrow> 'tx \<Rightarrow> nat \<Rightarrow> 'w cell_store \<Rightarrow>
   ('sr, 'hd, 'r, 'tx, 'b, 'f, 'resp, 'se, 'x, 'w) request_poll" where
  "request_receive ops r tx closing cs =
     (case so_poll_recv_response ops r (net cs) of
        (Pending, r', w) \<Rightarrow> (Pending, RF_receiving r' tx closing, cs\<lparr>net := w\<rparr>, [])
      | (Ready (Err e), r', w) \<Rightarrow>
          (Ready (Err (StreamErr e)), RF_done, note_error (so_to_string ops) e closing (cs\<lparr>net := w\<rparr>),
           [Drop_cancel tx, Drop_recv r'])
      | (Ready (Ok resp), r', w) \<Rightarrow>
          (Ready (Ok (resp, H3IncomingClient_new r' (Some tx))), RF_done, cs\<lparr>net := w\<rparr>, []))"

text \<open>After the headers: split the stream, poll the body sender once, and go on to the response.\<close>

definition request_body ::
  "('sr, 'hd, 'st, 's, 'r, 'tx, 'c, 'resp, 'se, 'b, 'h, 'x, 'w) request_ops \<Rightarrow> 'st \<Rightarrow> 'b \<Rightarrow> nat \<Rightarrow> 'w cell_store \<Rightarrow>
   ('sr, 'hd, 'r, 'tx, 'b, ('b, 'h, 's, 'se, 'x, 'c) client_body_fut, 'resp, 'se, 'x, 'w) request_poll option" where
  "request_body ops st body closing cs =
     (case so_split ops st of (w, r) \<Rightarrow> case so_channel ops (net cs) of ((tx, rx), nw) \<Rightarrow>
        (case client_body_poll (so_body ops) (send_h3_client_body w body rx) of
           None \<Rightarrow> None
         | Some (Ready (Err e), f) \<Rightarrow>
             Some (Ready (Err e), RF_done, cs\<lparr>net := nw\<rparr>, [Drop_cancel tx, Drop_recv r])
         | Some (Ready (Ok _), f) \<Rightarrow> Some (request_receive ops r tx closing (cs\<lparr>net := nw\<rparr>))
         | Some (Pending, f) \<Rightarrow>
             (case request_receive ops r tx closing (cs\<lparr>net := nw\<rparr>) of
                (res, fut, cs', eff) \<Rightarrow> Some (res, fut, cs', Spawn_body f # eff))))"

fun request_poll ::
  "('sr, 'hd, 'st, 's, 'r, 'tx, 'c, 'resp, 'se, 'b, 'h, 'x, 'w) request_ops \<Rightarrow> ('sr, 'hd, 'r, 'tx, 'b) request_fut \<Rightarrow>
   'w cell_store \<Rightarrow>
   ('sr, 'hd, 'r, 'tx, 'b, ('b, 'h, 's, 'se, 'x, 'c) client_body_fut, 'resp, 'se, 'x, 'w) request_poll option" where
  "request_poll ops (RF_sending head body sr closing) cs =
     (case so_poll_send_request ops sr head (net cs) of
        (Pending, sr', w) \<Rightarrow> Some (Pending, RF_sending head body sr' closing, cs\<lparr>net := w\<rparr>, [])
      | (Ready (Err e), sr', w) \<Rightarrow>
          Some (Ready (Err (StreamErr e)), RF_done, note_error (so_to_string ops) e closing (cs\<lparr>net := w\<rparr>), [])
      | (Ready (Ok st), sr', w) \<Rightarrow> request_body ops st body closing (cs\<lparr>net := w\<rparr>))"
| "request_poll ops (RF_receiving r tx closing) cs = Some (request_receive ops r tx closing cs)"
| "request_poll ops RF_done cs = None"

fun_cases request_poll_sendingE: "request_poll ops (RF_sending head body sr closing) cs = Some y"

lemmas request_defs = request_receive_def request_body_def note_error_def

section \<open>The flag of the connection\<close>

fun request_flag :: "('sr, 'hd, 'r, 'tx, 'b) request_fut \<Rightarrow> nat option" where
  "request_flag (RF_sending head body sr closing) = Some closing"
| "request_flag (RF_receiving r tx closing) = Some closing"
| "request_flag RF_done = None"

text \<open>
  A poll leaves the flags alone, or it raised the flag of its own connection because it returned
  an error that is about the connection.
\<close>

definition flag_effect ::
  "('se \<Rightarrow> string) \<Rightarrow> ('sr, 'hd, 'r, 'tx, 'b) request_fut \<Rightarrow> 'w cell_store \<Rightarrow>
   (('se, 'x) error + 'a) poll \<Rightarrow> 'w cell_store \<Rightarrow> bool" where
  "flag_effect to_string f cs res cs' \<longleftrightarrow>
     (case res of
        Ready (Err (StreamErr e)) \<Rightarrow>
          same_flags cs cs' \<or>
          is_connection_closing to_string e \<and> (\<exists>a. request_flag f = Some a \<and> same_flags (store_cell a True cs) cs')
      | _ \<Rightarrow> same_flags cs cs')"

lemma flag_effect_net [simp]: "flag_effect to_string f (cs\<lparr>net := w\<rparr>) res cs' = flag_effect to_string f cs res cs'"
proof -
  have "same_flags (store_cell a True (cs\<lparr>net := w\<rparr>)) cs' = same_flags (store_cell a True cs) cs'" for a
    by (simp add: same_flags_def store_cell_def)
  then show ?thesis by (simp add: flag_effect_def cong: poll.case_cong sum.case_cong error.case_cong)
qed

lemma flag_effect_cases:
  assumes "flag_effect to_string f cs res cs'"
  shows "same_flags cs cs' \<or> (\<exists>a. request_flag f = Some a \<and> same_flags (store_cell a True cs) cs')"
  using assms by (auto simp: flag_effect_def split: poll.splits sum.splits error.splits)

lemma request_receive_flag:
  "request_receive ops r tx closing cs = (res, fut, cs', eff) \<Longrightarrow> request_flag f = Some closing \<Longrightarrow>
   flag_effect (so_to_string ops) f cs res cs' \<and> (fut = RF_done \<or> request_flag fut = request_flag f)"
  by (auto simp: request_defs flag_effect_def split: prod.splits poll.splits sum.splits
      intro: same_flags_store_net)

lemma request_body_flag:
  assumes "request_body ops st body closing cs = Some (res, fut, cs', eff)" "request_flag f = Some closing"
  shows "flag_effect (so_to_string ops) f cs res cs' \<and> (fut = RF_done \<or> request_flag fut = request_flag f)"
  using assms
  by (auto simp: request_body_def split: prod.splits option.splits poll.splits sum.splits error.splits
      dest: request_receive_flag [OF _ assms(2)]) (auto simp: flag_effect_def split: error.splits)

lemma request_poll_flag:
  assumes "request_poll ops f cs = Some (res, fut, cs', eff)"
  shows "flag_effect (so_to_string ops) f cs res cs' \<and> (fut = RF_done \<or> request_flag fut = request_flag f)"
proof (cases f)
  case (RF_sending head body sr closing)
  then have fl: "request_flag f = Some closing" by simp
  obtain x sr' w where x: "so_poll_send_request ops sr head (net cs) = (x, sr', w)" by (metis prod_cases3)
  show ?thesis
  proof (cases "\<exists>st. x = Ready (Ok st)")
    case True
    then obtain st where "x = Ready (Ok st)" ..
    with assms RF_sending x have "request_body ops st body closing (cs\<lparr>net := w\<rparr>) = Some (res, fut, cs', eff)"
      by simp
    from request_body_flag [OF this fl] show ?thesis by simp
  next
    case False
    with assms RF_sending x show ?thesis
      by (auto simp: note_error_def flag_effect_def split: poll.splits sum.splits intro: same_flags_store_net)
  qed
next
  case (RF_receiving r tx closing)
  with assms request_receive_flag [of ops r tx closing cs res fut cs' eff f] show ?thesis by simp
qed (use assms in simp)

end
