(* ===== verification/RequestSender.thy ===== *)
theory RequestSender
  imports SendRequest
begin

text \<open>
  \<open>RequestSender\<close> of \<open>h3-util/src/client_conn.rs\<close>: the client side of a connection that connects
  on demand, is retired when its driver ends or its peer announces that it is closing, and hands
  connect errors to the next request. The coupled \<open>Option\<close> fields of the struct are shown to
  implement an explicit machine with four states.
\<close>

section \<open>Connecting\<close>

text \<open>The result of \<open>oneshot::Receiver::try_recv\<close>.\<close>

datatype try_recv = Recv_ok | Recv_empty | Recv_closed

record ('conn, 'cf, 'qc, 'hf, 'drv, 'sr, 'tx, 'rx, 'se, 'x, 'w) conn_ops =
  co_connect :: "'conn \<Rightarrow> 'cf"
  co_poll_connect :: "'cf \<Rightarrow> 'w \<Rightarrow> (('se, 'x) error + 'qc) poll \<times> 'cf \<times> 'w"
  co_h3_new :: "'qc \<Rightarrow> 'hf"
  co_poll_h3_new :: "'hf \<Rightarrow> 'w \<Rightarrow> (('se, 'x) error + 'drv \<times> 'sr) poll \<times> 'hf \<times> 'w"
  co_channel :: "'w \<Rightarrow> ('tx \<times> 'rx) \<times> 'w"
  co_try_recv :: "'rx \<Rightarrow> 'w \<Rightarrow> try_recv \<times> 'rx \<times> 'w"
  co_poll_close :: "'drv \<Rightarrow> 'w \<Rightarrow> unit poll \<times> 'drv \<times> 'w"
  co_tx_send :: "'tx \<Rightarrow> 'w \<Rightarrow> 'w"

text \<open>
  The future in \<open>make_send_request_fut\<close>: not yet polled, waiting for the connector, or waiting for
  the HTTP/3 handshake.
\<close>

datatype ('conn, 'cf, 'hf) make_fut = MF_start 'conn | MF_connecting 'cf | MF_h3 'hf

text \<open>The task that drives the connection, as it is handed to the executor.\<close>

datatype ('drv, 'tx) driver_task = Driver 'drv 'tx | Driver_done

definition make_h3 where
  "make_h3 ops hf w0 =
     (case co_poll_h3_new ops hf w0 of
        (Pending, hf', w) \<Rightarrow> (Pending, MF_h3 hf', [], w)
      | (Ready (Err e), hf', w) \<Rightarrow> (Ready (Err e), MF_h3 hf', [], w)
      | (Ready (Ok (driver, send_request)), hf', w) \<Rightarrow>
          (case co_channel ops w of
             ((tx, rx), w') \<Rightarrow> (Ready (Ok (send_request, rx)), MF_h3 hf', [Driver driver tx], w')))"

definition make_connecting where
  "make_connecting ops cf w0 =
     (case co_poll_connect ops cf w0 of
        (Pending, cf', w) \<Rightarrow> (Pending, MF_connecting cf', [], w)
      | (Ready (Err e), cf', w) \<Rightarrow> (Ready (Err e), MF_connecting cf', [], w)
      | (Ready (Ok conn), cf', w) \<Rightarrow> make_h3 ops (co_h3_new ops conn) w)"

fun make_poll ::
  "('conn, 'cf, 'qc, 'hf, 'drv, 'sr, 'tx, 'rx, 'se, 'x, 'w) conn_ops \<Rightarrow> ('conn, 'cf, 'hf) make_fut \<Rightarrow> 'w \<Rightarrow>
   (('se, 'x) error + 'sr \<times> 'rx) poll \<times> ('conn, 'cf, 'hf) make_fut \<times> ('drv, 'tx) driver_task list \<times> 'w" where
  "make_poll ops (MF_start conn) = make_connecting ops (co_connect ops conn)"
| "make_poll ops (MF_connecting cf) = make_connecting ops cf"
| "make_poll ops (MF_h3 hf) = make_h3 ops hf"

text \<open>A poll of the driver task: once \<open>poll_close\<close> is ready, the channel is notified.\<close>

fun driver_poll ::
  "('conn, 'cf, 'qc, 'hf, 'drv, 'sr, 'tx, 'rx, 'se, 'x, 'w) conn_ops \<Rightarrow> ('drv, 'tx) driver_task \<Rightarrow> 'w \<Rightarrow>
   unit poll \<times> ('drv, 'tx) driver_task \<times> 'w" where
  "driver_poll ops (Driver drv tx) w0 =
     (case co_poll_close ops drv w0 of
        (Pending, drv', w) \<Rightarrow> (Pending, Driver drv' tx, w)
      | (Ready _, drv', w) \<Rightarrow> (Ready (), Driver_done, co_tx_send ops tx w))"
| "driver_poll ops Driver_done w = (Ready (), Driver_done, w)"

section \<open>The sender\<close>

record ('conn, 'cf, 'hf, 'sr, 'rx, 'ex, 'se, 'x) RequestSender =
  rs_conn :: 'conn
  rs_send_request :: "'sr option"
  rs_driver_rx :: "'rx option"
  rs_make_send_request_fut :: "('conn, 'cf, 'hf) make_fut option"
  rs_executor :: 'ex
  rs_base_scheme :: "string option"
  rs_base_authority :: "string option"
  rs_connect_error :: "('se, 'x) error option"
  rs_closing :: nat

definition RequestSender_new ::
  "'conn \<Rightarrow> uri \<Rightarrow> 'ex \<Rightarrow> 'w cell_store \<Rightarrow>
   ('conn, 'cf, 'hf, 'sr, 'rx, 'ex, 'se, 'x) RequestSender \<times> 'w cell_store" where
  "RequestSender_new conn u executor cs =
     (case new_cell False cs of
        (closing, cs') \<Rightarrow>
          (\<lparr>rs_conn = conn, rs_send_request = None, rs_driver_rx = None, rs_make_send_request_fut = None,
            rs_executor = executor, rs_base_scheme = uri_scheme u, rs_base_authority = uri_authority u,
            rs_connect_error = None, rs_closing = closing\<rparr>, cs'))"

definition retire_connection ::
  "('conn, 'cf, 'hf, 'sr, 'rx, 'ex, 'se, 'x) RequestSender \<Rightarrow> 'w cell_store \<Rightarrow>
   ('conn, 'cf, 'hf, 'sr, 'rx, 'ex, 'se, 'x) RequestSender \<times> 'w cell_store" where
  "retire_connection rs cs =
     (case new_cell False cs of
        (closing, cs') \<Rightarrow>
          (rs\<lparr>rs_send_request := None, rs_driver_rx := None, rs_closing := closing\<rparr>, cs'))"

text \<open>The first part of \<open>poll_ready\<close>: has the driver ended?\<close>

definition check_driver ::
  "('conn, 'cf, 'qc, 'hf, 'drv, 'sr, 'tx, 'rx, 'se, 'x, 'w) conn_ops \<Rightarrow>
   ('conn, 'cf, 'hf, 'sr, 'rx, 'ex, 'se, 'x) RequestSender \<Rightarrow> 'w cell_store \<Rightarrow>
   ('conn, 'cf, 'hf, 'sr, 'rx, 'ex, 'se, 'x) RequestSender \<times> 'w cell_store" where
  "check_driver ops rs cs =
     (case rs_driver_rx rs of
        None \<Rightarrow> (rs, cs)
      | Some rx \<Rightarrow>
          (case co_try_recv ops rx (net cs) of
             (Recv_ok, rx', w) \<Rightarrow> retire_connection rs (cs\<lparr>net := w\<rparr>)
           | (Recv_empty, rx', w) \<Rightarrow> (rs\<lparr>rs_driver_rx := Some rx'\<rparr>, cs\<lparr>net := w\<rparr>)
           | (Recv_closed, rx', w) \<Rightarrow> retire_connection rs (cs\<lparr>net := w\<rparr>)))"

text \<open>The second part: has a request seen the connection closing?\<close>

definition check_closing ::
  "('conn, 'cf, 'hf, 'sr, 'rx, 'ex, 'se, 'x) RequestSender \<Rightarrow> 'w cell_store \<Rightarrow>
   ('conn, 'cf, 'hf, 'sr, 'rx, 'ex, 'se, 'x) RequestSender \<times> 'w cell_store" where
  "check_closing rs cs = (if load_cell (rs_closing rs) cs then retire_connection rs cs else (rs, cs))"

text \<open>The last part: start a connection attempt if there is none, and poll it.\<close>

definition drive_connect ::
  "('conn, 'cf, 'qc, 'hf, 'drv, 'sr, 'tx, 'rx, 'se, 'x, 'w) conn_ops \<Rightarrow>
   ('conn, 'cf, 'hf, 'sr, 'rx, 'ex, 'se, 'x) RequestSender \<Rightarrow> 'w \<Rightarrow>
   (('se, 'x) error + unit) poll \<times> ('conn, 'cf, 'hf, 'sr, 'rx, 'ex, 'se, 'x) RequestSender \<times>
   ('drv, 'tx) driver_task list \<times> 'w" where
  "drive_connect ops rs w0 =
     (let fut = (case rs_make_send_request_fut rs of None \<Rightarrow> MF_start (rs_conn rs) | Some f \<Rightarrow> f) in
      case make_poll ops fut w0 of
        (Pending, fut', sp, w) \<Rightarrow> (Pending, rs\<lparr>rs_make_send_request_fut := Some fut'\<rparr>, sp, w)
      | (Ready (Ok (send_request, rx)), fut', sp, w) \<Rightarrow>
          (Ready (Ok ()),
           rs\<lparr>rs_send_request := Some send_request, rs_driver_rx := Some rx, rs_make_send_request_fut := None\<rparr>, sp, w)
      | (Ready (Err e), fut', sp, w) \<Rightarrow>
          (Ready (Ok ()), rs\<lparr>rs_make_send_request_fut := None, rs_connect_error := Some e\<rparr>, sp, w))"

definition poll_ready ::
  "('conn, 'cf, 'qc, 'hf, 'drv, 'sr, 'tx, 'rx, 'se, 'x, 'w) conn_ops \<Rightarrow>
   ('conn, 'cf, 'hf, 'sr, 'rx, 'ex, 'se, 'x) RequestSender \<Rightarrow> 'w cell_store \<Rightarrow>
   (('se, 'x) error + unit) poll outcome \<times> ('conn, 'cf, 'hf, 'sr, 'rx, 'ex, 'se, 'x) RequestSender \<times>
   'w cell_store \<times> ('drv, 'tx) driver_task list" where
  "poll_ready ops rs0 cs0 =
     (case check_driver ops rs0 cs0 of (rs1, cs1) \<Rightarrow>
      case check_closing rs1 cs1 of (rs, cs) \<Rightarrow>
      if rs_connect_error rs \<noteq> None then (Return (Ready (Ok ())), rs, cs, [])
      else if rs_send_request rs \<noteq> None then
        (if rs_make_send_request_fut rs \<noteq> None
         then (Panic ''assertion failed: self.make_send_request_fut.is_none()'', rs, cs, [])
         else if rs_driver_rx rs = None
         then (Panic ''assertion failed: self.driver_rx.is_some()'', rs, cs, [])
         else (Return (Ready (Ok ())), rs, cs, []))
      else (case drive_connect ops rs (net cs) of
              (res, rs', sp, w) \<Rightarrow> (Return res, rs', cs\<lparr>net := w\<rparr>, sp)))"

section \<open>Calls\<close>

record ('m, 'b) request =
  req_uri :: uri
  req_parts :: 'm
  req_body :: 'b

datatype ('sr, 'r, 'tx, 'm, 'b, 'se, 'x) call_fut =
    Call_error "('se, 'x) error"
  | Call_send "('sr, uri \<times> 'm, 'r, 'tx, 'b) request_fut"

text \<open>\<open>build_uri\<close> is \<open>Uri::builder()\<close> with its three parts set, then \<open>build()\<close>.\<close>

definition call ::
  "(string \<Rightarrow> string \<Rightarrow> string \<Rightarrow> 'x + uri) \<Rightarrow> ('m, 'b) request \<Rightarrow>
   ('conn, 'cf, 'hf, 'sr, 'rx, 'ex, 'se, 'x) RequestSender \<Rightarrow>
   ('sr, 'r, 'tx, 'm, 'b, 'se, 'x) call_fut \<times> ('conn, 'cf, 'hf, 'sr, 'rx, 'ex, 'se, 'x) RequestSender" where
  "call build_uri req rs =
     (case rs_connect_error rs of
        Some e \<Rightarrow> (Call_error e, rs\<lparr>rs_connect_error := None\<rparr>)
      | None \<Rightarrow>
          (case (rs_base_scheme rs, rs_base_authority rs) of
             (None, _) \<Rightarrow> (Call_error (Msg ''h3 client base URI is missing a scheme''), rs)
           | (Some scheme, None) \<Rightarrow> (Call_error (Msg ''h3 client base URI is missing an authority''), rs)
           | (Some scheme, Some authority) \<Rightarrow>
               (let path_and_query = (case uri_path_and_query (req_uri req) of None \<Rightarrow> ''/'' | Some pq \<Rightarrow> pq) in
                case build_uri scheme authority path_and_query of
                  Err e \<Rightarrow> (Call_error (Foreign e), rs)
                | Ok uri2 \<Rightarrow>
                    (case rs_send_request rs of
                       None \<Rightarrow> (Call_error (Msg
                         ''h3 request sender is not ready: poll_ready must return Ready(Ok) before call''), rs)
                     | Some sr \<Rightarrow>
                         (Call_send (send_request_inner (uri2, req_parts req) (req_body req) sr (rs_closing rs)), rs)))))"

lemmas sender_defs =
  retire_connection_def check_driver_def check_closing_def drive_connect_def poll_ready_def new_cell_def

section \<open>The coupled fields\<close>

text \<open>
  What the fields keep true of each other: a sender and its driver channel come and go together,
  exclude a connection attempt and a stored error, and only a cached sender can have its flag up.
\<close>

definition sender_ok ::
  "('conn, 'cf, 'hf, 'sr, 'rx, 'ex, 'se, 'x) RequestSender \<Rightarrow> 'w cell_store \<Rightarrow> bool" where
  "sender_ok rs cs \<longleftrightarrow>
     (rs_send_request rs = None \<longleftrightarrow> rs_driver_rx rs = None) \<and>
     (rs_send_request rs \<noteq> None \<longrightarrow> rs_make_send_request_fut rs = None \<and> rs_connect_error rs = None) \<and>
     (rs_connect_error rs \<noteq> None \<longrightarrow> rs_make_send_request_fut rs = None) \<and>
     rs_closing rs < next_cell cs \<and>
     (load_cell (rs_closing rs) cs \<longrightarrow> rs_send_request rs \<noteq> None)"

lemma sender_ok_new:
  "RequestSender_new conn u ex cs = (rs, cs') \<Longrightarrow> sender_ok rs cs'"
  by (auto simp: RequestSender_new_def new_cell_def sender_ok_def load_cell_def)

lemma sender_ok_net [simp]: "sender_ok rs (cs\<lparr>net := w\<rparr>) = sender_ok rs cs"
  by (simp add: sender_ok_def)

lemma sender_ok_same: "same_flags cs cs' \<Longrightarrow> sender_ok rs cs' = sender_ok rs cs"
  by (auto simp: same_flags_def)

lemma sender_ok_retire:
  "sender_ok rs cs \<Longrightarrow> retire_connection rs cs = (rs', cs') \<Longrightarrow> sender_ok rs' cs'"
  by (auto simp: sender_ok_def retire_connection_def new_cell_def load_cell_def)

lemma sender_ok_retire_net:
  "sender_ok rs cs \<Longrightarrow> retire_connection rs (cs\<lparr>net := w\<rparr>) = (rs', cs') \<Longrightarrow> sender_ok rs' cs'"
  by (rule sender_ok_retire [of rs "cs\<lparr>net := w\<rparr>"]) simp_all

lemma sender_ok_driver [h3_inv]:
  "sender_ok rs cs \<Longrightarrow> check_driver ops rs cs = (rs', cs') \<Longrightarrow> sender_ok rs' cs'"
  by (auto simp: check_driver_def split: option.splits prod.splits try_recv.splits dest: sender_ok_retire_net)
    (auto simp: sender_ok_def)

lemma sender_ok_closing [h3_inv]:
  "sender_ok rs cs \<Longrightarrow> check_closing rs cs = (rs', cs') \<Longrightarrow>
   sender_ok rs' cs' \<and> \<not> load_cell (rs_closing rs') cs'"
  by (auto simp: check_closing_def split: if_splits dest: sender_ok_retire)
    (auto simp: retire_connection_def new_cell_def load_cell_def)

lemma sender_ok_connect [h3_inv]:
  assumes "sender_ok rs cs" "rs_connect_error rs = None" "rs_send_request rs = None"
    "drive_connect ops rs w = (res, rs', sp, w')"
  shows "sender_ok rs' cs"
  using assms
  by (auto simp: drive_connect_def sender_ok_def Let_def split: prod.splits poll.splits sum.splits)

lemma sender_ok_poll:
  assumes "sender_ok rs cs" "poll_ready ops rs cs = (out, rs', cs', sp)"
  shows "sender_ok rs' cs'"
proof -
  obtain rs1 cs1 where d: "check_driver ops rs cs = (rs1, cs1)" by fastforce
  obtain rs2 cs2 where c: "check_closing rs1 cs1 = (rs2, cs2)" by fastforce
  have "sender_ok rs2 cs2" using sender_ok_closing [OF sender_ok_driver [OF assms(1) d] c] by simp
  with assms(2) d c show ?thesis
    by (auto simp: poll_ready_def split: if_splits prod.splits dest: sender_ok_connect)
qed

lemma sender_ok_call: "sender_ok rs cs \<Longrightarrow> call build_uri req rs = (fut, rs') \<Longrightarrow> sender_ok rs' cs"
  by (auto simp: call_def sender_ok_def Let_def split: option.splits sum.splits)

lemma sender_ok_store:
  "sender_ok rs cs \<Longrightarrow> a \<noteq> rs_closing rs \<or> rs_send_request rs \<noteq> None \<Longrightarrow> sender_ok rs (store_cell a True cs)"
  by (auto simp: sender_ok_def)

section \<open>The machine they implement\<close>

datatype ('conn, 'cf, 'hf, 'sr, 'rx, 'se, 'x) conn_state =
    Idle
  | Connecting "('conn, 'cf, 'hf) make_fut"
  | Connected 'sr 'rx
  | Failed "('se, 'x) error"

fun abs_fields ::
  "('se, 'x) error option \<Rightarrow> 'sr option \<Rightarrow> 'rx option \<Rightarrow> ('conn, 'cf, 'hf) make_fut option \<Rightarrow>
   ('conn, 'cf, 'hf, 'sr, 'rx, 'se, 'x) conn_state" where
  "abs_fields (Some e) _ _ _ = Failed e"
| "abs_fields None (Some sr) (Some rx) _ = Connected sr rx"
| "abs_fields None _ _ (Some f) = Connecting f"
| "abs_fields None _ _ None = Idle"

definition abs_sender ::
  "('conn, 'cf, 'hf, 'sr, 'rx, 'ex, 'se, 'x) RequestSender \<Rightarrow>
   ('conn, 'cf, 'hf, 'sr, 'rx, 'se, 'x) conn_state" where
  "abs_sender rs = abs_fields (rs_connect_error rs) (rs_send_request rs) (rs_driver_rx rs)
     (rs_make_send_request_fut rs)"

definition spec_connect where
  "spec_connect ops f w0 =
     (case make_poll ops f w0 of
        (Pending, f', sp, w) \<Rightarrow> (Pending, Connecting f', sp, w)
      | (Ready (Ok (sr, rx)), f', sp, w) \<Rightarrow> (Ready (Ok ()), Connected sr rx, sp, w)
      | (Ready (Err e), f', sp, w) \<Rightarrow> (Ready (Ok ()), Failed e, sp, w))"

fun spec_poll ::
  "('conn, 'cf, 'qc, 'hf, 'drv, 'sr, 'tx, 'rx, 'se, 'x, 'w) conn_ops \<Rightarrow> 'conn \<Rightarrow> bool \<Rightarrow>
   ('conn, 'cf, 'hf, 'sr, 'rx, 'se, 'x) conn_state \<Rightarrow> 'w \<Rightarrow>
   (('se, 'x) error + unit) poll \<times> ('conn, 'cf, 'hf, 'sr, 'rx, 'se, 'x) conn_state \<times>
   ('drv, 'tx) driver_task list \<times> 'w" where
  "spec_poll ops conn closing Idle w = spec_connect ops (MF_start conn) w"
| "spec_poll ops conn closing (Connecting f) w = spec_connect ops f w"
| "spec_poll ops conn closing (Failed e) w = (Ready (Ok ()), Failed e, [], w)"
| "spec_poll ops conn closing (Connected sr rx) w =
     (case co_try_recv ops rx w of
        (Recv_empty, rx', w') \<Rightarrow>
          if closing then spec_connect ops (MF_start conn) w' else (Ready (Ok ()), Connected sr rx', [], w')
      | (_, rx', w') \<Rightarrow> spec_connect ops (MF_start conn) w')"

lemma abs_retire:
  assumes "retire_connection rs cs = (rs', cs')" "sender_ok rs cs" "rs_send_request rs \<noteq> None"
  shows "abs_sender rs' = Idle \<and> rs_conn rs' = rs_conn rs \<and> net cs' = net cs \<and> \<not> load_cell (rs_closing rs') cs' \<and>
    rs_driver_rx rs' = None \<and> rs_connect_error rs' = None \<and> rs_send_request rs' = None \<and>
    rs_make_send_request_fut rs' = None"
  using assms by (auto simp: retire_connection_def new_cell_def load_cell_def abs_sender_def sender_ok_def)

lemma drive_connect_spec:
  assumes "rs_connect_error rs = None" "rs_send_request rs = None" "rs_driver_rx rs = None"
    "drive_connect ops rs w = (res, rs', sp, w')"
  shows "spec_connect ops (case rs_make_send_request_fut rs of None \<Rightarrow> MF_start (rs_conn rs) | Some f \<Rightarrow> f) w =
    (res, abs_sender rs', sp, w')"
  using assms
  by (auto simp: drive_connect_def spec_connect_def abs_sender_def Let_def
      split: prod.splits poll.splits sum.splits option.splits)

text \<open>Both checks at once: they leave a machine that is idle, or one that is as it was.\<close>

lemma checks_spec:
  assumes ok: "sender_ok rs cs"
    and d: "check_driver ops rs cs = (rs1, cs1)" and c: "check_closing rs1 cs1 = (rs2, cs2)"
  shows "rs_conn rs2 = rs_conn rs \<and>
    (case rs_driver_rx rs of
       None \<Rightarrow> rs2 = rs \<and> cs2 = cs
     | Some rx \<Rightarrow>
         (case co_try_recv ops rx (net cs) of (x, rx', w) \<Rightarrow>
            net cs2 = w \<and>
            (if x = Recv_empty \<and> \<not> load_cell (rs_closing rs) cs
             then rs2 = rs\<lparr>rs_driver_rx := Some rx'\<rparr>
             else abs_sender rs2 = Idle \<and> rs_driver_rx rs2 = None \<and> rs_connect_error rs2 = None \<and>
               rs_send_request rs2 = None \<and> rs_make_send_request_fut rs2 = None)))"
proof (cases "rs_driver_rx rs")
  case None
  with ok have "\<not> load_cell (rs_closing rs) cs" by (auto simp: sender_ok_def)
  with None d c show ?thesis by (auto simp: check_driver_def check_closing_def)
next
  case (Some rx)
  with ok have sr: "rs_send_request rs \<noteq> None" by (auto simp: sender_ok_def)
  obtain x rx' w where x: "co_try_recv ops rx (net cs) = (x, rx', w)" by (metis prod_cases3)
  show ?thesis
  proof (cases "x = Recv_empty")
    case True
    let ?rs = "rs\<lparr>rs_driver_rx := Some rx'\<rparr>"
    from True Some x d have 1: "rs1 = ?rs" "cs1 = cs\<lparr>net := w\<rparr>" by (auto simp: check_driver_def)
    have "sender_ok ?rs (cs\<lparr>net := w\<rparr>)" using ok sr by (simp add: sender_ok_def)
    with 1 Some x True c sr abs_retire [of ?rs "cs\<lparr>net := w\<rparr>" rs2 cs2] show ?thesis
      by (auto simp: check_closing_def split: if_splits)
  next
    case False
    with Some x d have r: "retire_connection rs (cs\<lparr>net := w\<rparr>) = (rs1, cs1)"
      by (auto simp: check_driver_def split: try_recv.splits)
    from abs_retire [OF r _ sr] ok have "abs_sender rs1 = Idle \<and> rs_conn rs1 = rs_conn rs \<and> net cs1 = w \<and>
        \<not> load_cell (rs_closing rs1) cs1 \<and> rs_driver_rx rs1 = None \<and> rs_connect_error rs1 = None \<and>
        rs_send_request rs1 = None \<and> rs_make_send_request_fut rs1 = None" by simp
    with c Some x False show ?thesis by (auto simp: check_closing_def split: if_splits)
  qed
qed

theorem poll_ready_refines:
  assumes ok: "sender_ok rs cs" and p: "poll_ready ops rs cs = (out, rs', cs', sp)"
  shows "\<exists>res. out = Return res \<and>
    spec_poll ops (rs_conn rs) (load_cell (rs_closing rs) cs) (abs_sender rs) (net cs) =
      (res, abs_sender rs', sp, net cs')"
proof -
  obtain rs1 cs1 where d: "check_driver ops rs cs = (rs1, cs1)" by fastforce
  obtain rs2 cs2 where c: "check_closing rs1 cs1 = (rs2, cs2)" by fastforce
  note ch = checks_spec [OF ok d c]
  have tail: "(case drive_connect ops rs2 (net cs2) of (res, rs', sp, w) \<Rightarrow> (Return res, rs', cs2\<lparr>net := w\<rparr>, sp)) =
      (out, rs', cs', sp)"
    if "rs_connect_error rs2 = None" "rs_send_request rs2 = None"
    using p d c that by (simp add: poll_ready_def)
  show ?thesis
  proof (cases "rs_driver_rx rs")
    case None
    then have sr: "rs_send_request rs = None" using ok by (simp add: sender_ok_def)
    from None ch have 2: "rs2 = rs" "cs2 = cs" by simp_all
    show ?thesis
    proof (cases "rs_connect_error rs")
      case (Some e)
      with p d c 2 show ?thesis by (auto simp: poll_ready_def abs_sender_def)
    next
      case e: None
      from tail e sr 2 obtain res where res: "drive_connect ops rs (net cs) = (res, rs', sp, net cs')" "out = Return res"
        by (auto split: prod.splits)
      from drive_connect_spec [OF e sr None res(1)] res(2) e sr None show ?thesis
        by (auto simp: abs_sender_def split: option.splits)
    qed
  next
    case (Some rx)
    obtain x rx' w where x: "co_try_recv ops rx (net cs) = (x, rx', w)" by (metis prod_cases3)
    from Some ok obtain sr where sr: "rs_send_request rs = Some sr" "rs_connect_error rs = None"
      "rs_make_send_request_fut rs = None" by (auto simp: sender_ok_def)
    show ?thesis
    proof (cases "x = Recv_empty \<and> \<not> load_cell (rs_closing rs) cs")
      case True
      with ch Some x have "rs2 = rs\<lparr>rs_driver_rx := Some rx'\<rparr>" "net cs2 = w" by simp_all
      with p d c sr x Some True show ?thesis by (auto simp: poll_ready_def abs_sender_def)
    next
      case False
      with ch Some x have w: "net cs2 = w" and 2: "rs_conn rs2 = rs_conn rs" "rs_driver_rx rs2 = None" "rs_connect_error rs2 = None"
        "rs_send_request rs2 = None" "rs_make_send_request_fut rs2 = None" by auto
      from tail 2 w obtain res where res: "drive_connect ops rs2 w = (res, rs', sp, net cs')" "out = Return res"
        by (auto split: prod.splits)
      from drive_connect_spec [OF 2(3,4,2) res(1)] res(2) 2 sr Some x False show ?thesis
        by (auto simp: abs_sender_def split: try_recv.splits)
    qed
  qed
qed

end
