(* ===== verification/ConnLifecycle.thy ===== *)
theory ConnLifecycle
  imports RequestSender
begin

text \<open>
  The request sender together with the requests it has in flight: the transition system whose
  steps are the polls of \<open>poll_ready\<close>, the calls that a poll allowed, the polls and drops of request
  futures, and the end of a driver task. Its invariant carries the facts about connection
  generations: which requests can still retire the cached connection, and which cannot.
\<close>

section \<open>The system\<close>

record ('conn, 'cf, 'hf, 'sr, 'rx, 'ex, 'se, 'x, 'm, 'r, 'tx, 'b, 'w) client_sys =
  sys_sender :: "('conn, 'cf, 'hf, 'sr, 'rx, 'ex, 'se, 'x) RequestSender"
  sys_cells :: "'w cell_store"
  sys_inflight :: "('sr, uri \<times> 'm, 'r, 'tx, 'b) request_fut list"
  sys_ready :: bool

definition sys_new ::
  "'conn \<Rightarrow> uri \<Rightarrow> 'ex \<Rightarrow> 'w \<Rightarrow> ('conn, 'cf, 'hf, 'sr, 'rx, 'ex, 'se, 'x, 'm, 'r, 'tx, 'b, 'w) client_sys" where
  "sys_new conn u ex w =
     (case RequestSender_new conn u ex (empty_cells w) of
        (rs, cs) \<Rightarrow> \<lparr>sys_sender = rs, sys_cells = cs, sys_inflight = [], sys_ready = False\<rparr>)"

definition sys_poll_ready ::
  "('conn, 'cf, 'qc, 'hf, 'drv, 'sr, 'dtx, 'rx, 'se, 'x, 'w) conn_ops \<Rightarrow>
   ('conn, 'cf, 'hf, 'sr, 'rx, 'ex, 'se, 'x, 'm, 'r, 'tx, 'b, 'w) client_sys \<Rightarrow>
   (('se, 'x) error + unit) poll outcome \<times>
   ('conn, 'cf, 'hf, 'sr, 'rx, 'ex, 'se, 'x, 'm, 'r, 'tx, 'b, 'w) client_sys \<times> ('drv, 'dtx) driver_task list" where
  "sys_poll_ready cops s =
     (case poll_ready cops (sys_sender s) (sys_cells s) of
        (out, rs', cs', sp) \<Rightarrow>
          (out, s\<lparr>sys_sender := rs', sys_cells := cs', sys_ready := (out = Return (Ready (Ok ())))\<rparr>, sp))"

definition sys_call ::
  "(string \<Rightarrow> string \<Rightarrow> string \<Rightarrow> 'x + uri) \<Rightarrow> ('m, 'b) request \<Rightarrow>
   ('conn, 'cf, 'hf, 'sr, 'rx, 'ex, 'se, 'x, 'm, 'r, 'tx, 'b, 'w) client_sys \<Rightarrow>
   ('sr, 'r, 'tx, 'm, 'b, 'se, 'x) call_fut \<times> ('conn, 'cf, 'hf, 'sr, 'rx, 'ex, 'se, 'x, 'm, 'r, 'tx, 'b, 'w) client_sys" where
  "sys_call build_uri req s =
     (case call build_uri req (sys_sender s) of
        (fut, rs') \<Rightarrow>
          (fut, s\<lparr>sys_sender := rs', sys_ready := False,
             sys_inflight := (case fut of Call_send f \<Rightarrow> sys_inflight s @ [f] | Call_error _ \<Rightarrow> sys_inflight s)\<rparr>))"

definition sys_request ::
  "('sr, uri \<times> 'm, 'st, 's, 'r, 'tx, 'c, 'resp, 'se, 'b, 'h, 'x, 'w) request_ops \<Rightarrow> nat \<Rightarrow>
   ('conn, 'cf, 'hf, 'sr, 'rx, 'ex, 'se, 'x, 'm, 'r, 'tx, 'b, 'w) client_sys \<Rightarrow>
   ((('se, 'x) error + 'resp \<times> ('r, 'tx) H3IncomingClient) poll \<times>
    ('conn, 'cf, 'hf, 'sr, 'rx, 'ex, 'se, 'x, 'm, 'r, 'tx, 'b, 'w) client_sys \<times>
    ('r, 'tx, ('b, 'h, 's, 'se, 'x, 'c) client_body_fut) request_effect list) option" where
  "sys_request rops i s =
     (case request_poll rops (sys_inflight s ! i) (sys_cells s) of
        None \<Rightarrow> None
      | Some (res, fut, cs', eff) \<Rightarrow>
          Some (res, s\<lparr>sys_cells := cs', sys_inflight := (sys_inflight s)[i := fut]\<rparr>, eff))"

text \<open>
  \<open>rx'\<close> in \<open>cs_driver\<close> is arbitrary: at any moment the driver task may notify its channel or drop
  its end of it. So is \<open>w\<close> in \<open>cs_net\<close>: peers, the network and the tasks of the executor change what
  the next operation of a library will find.
\<close>

inductive client_step ::
  "('conn, 'cf, 'qc, 'hf, 'drv, 'sr, 'dtx, 'rx, 'se, 'x, 'w) conn_ops \<Rightarrow>
   ('sr, uri \<times> 'm, 'st, 's, 'r, 'tx, 'c, 'resp, 'se, 'b, 'h, 'x, 'w) request_ops \<Rightarrow>
   (string \<Rightarrow> string \<Rightarrow> string \<Rightarrow> 'x + uri) \<Rightarrow>
   ('conn, 'cf, 'hf, 'sr, 'rx, 'ex, 'se, 'x, 'm, 'r, 'tx, 'b, 'w) client_sys \<Rightarrow>
   ('conn, 'cf, 'hf, 'sr, 'rx, 'ex, 'se, 'x, 'm, 'r, 'tx, 'b, 'w) client_sys \<Rightarrow> bool"
  for cops rops build_uri where
  cs_poll: "sys_poll_ready cops s = (out, s', sp) \<Longrightarrow> client_step cops rops build_uri s s'"
| cs_call: "sys_ready s \<Longrightarrow> sys_call build_uri req s = (fut, s') \<Longrightarrow> client_step cops rops build_uri s s'"
| cs_request: "i < length (sys_inflight s) \<Longrightarrow> sys_request rops i s = Some (res, s', eff) \<Longrightarrow>
     client_step cops rops build_uri s s'"
| cs_drop: "client_step cops rops build_uri s (s\<lparr>sys_inflight := (sys_inflight s)[i := RF_done]\<rparr>)"
| cs_driver: "rs_driver_rx (sys_sender s) = Some rx \<Longrightarrow>
     client_step cops rops build_uri s (s\<lparr>sys_sender := (sys_sender s)\<lparr>rs_driver_rx := Some rx'\<rparr>\<rparr>)"
| cs_net: "client_step cops rops build_uri s (s\<lparr>sys_cells := (sys_cells s)\<lparr>net := w\<rparr>\<rparr>)"

inductive_cases client_stepE: "client_step cops rops build_uri s s'"

definition client_init where
  "client_init s \<longleftrightarrow> (\<exists>conn u ex w. s = sys_new conn u ex w)"

section \<open>Its invariant\<close>

text \<open>
  Every flag a request holds was allocated, and a request that holds the current flag was sent on
  the cached connection: the flag of a retired connection is never the current one.
\<close>

definition flags_ok where
  "flags_ok rs cs fs \<longleftrightarrow>
     (\<forall>f\<in>set fs. \<forall>a. request_flag f = Some a \<longrightarrow>
        a < next_cell cs \<and> (a = rs_closing rs \<longrightarrow> rs_send_request rs \<noteq> None))"

definition client_inv where
  "client_inv s \<longleftrightarrow>
     sender_ok (sys_sender s) (sys_cells s) \<and>
     flags_ok (sys_sender s) (sys_cells s) (sys_inflight s) \<and>
     (sys_ready s \<longrightarrow> rs_send_request (sys_sender s) \<noteq> None \<or> rs_connect_error (sys_sender s) \<noteq> None)"

lemma flags_ok_update:
  assumes "flags_ok rs cs fs" "i < length fs" "fut = RF_done \<or> request_flag fut = request_flag (fs ! i)"
  shows "flags_ok rs cs (fs[i := fut])"
  using assms(1,3) bspec [OF assms(1) [unfolded flags_ok_def] nth_mem [OF assms(2)]]
  by (auto simp: flags_ok_def dest!: set_update_subset_insert [THEN subsetD])

lemma flags_ok_done: "flags_ok rs cs fs \<Longrightarrow> flags_ok rs cs (fs[i := RF_done])"
  by (auto simp: flags_ok_def dest!: set_update_subset_insert [THEN subsetD])

lemma flags_ok_store: "flags_ok rs (store_cell a v cs) fs = flags_ok rs cs fs"
  by (simp add: flags_ok_def)

lemma flags_ok_net [simp]: "flags_ok rs (cs\<lparr>net := w\<rparr>) fs = flags_ok rs cs fs"
  by (simp add: flags_ok_def)

lemma flags_ok_same: "same_flags cs cs' \<Longrightarrow> flags_ok rs cs' fs = flags_ok rs cs fs"
  by (auto simp: same_flags_def)

lemma flags_ok_retire:
  "flags_ok rs cs fs \<Longrightarrow> retire_connection rs cs = (rs', cs') \<Longrightarrow> flags_ok rs' cs' fs"
  by (force simp: flags_ok_def retire_connection_def new_cell_def)

lemma flags_ok_retire_net:
  "flags_ok rs cs fs \<Longrightarrow> retire_connection rs (cs\<lparr>net := w\<rparr>) = (rs', cs') \<Longrightarrow> flags_ok rs' cs' fs"
  by (rule flags_ok_retire [of rs "cs\<lparr>net := w\<rparr>"]) simp_all

lemma flags_ok_driver:
  "flags_ok rs cs fs \<Longrightarrow> check_driver ops rs cs = (rs', cs') \<Longrightarrow> flags_ok rs' cs' fs"
  by (auto simp: check_driver_def split: option.splits prod.splits try_recv.splits dest: flags_ok_retire_net)
    (auto simp: flags_ok_def)

lemma flags_ok_closing:
  "flags_ok rs cs fs \<Longrightarrow> check_closing rs cs = (rs', cs') \<Longrightarrow> flags_ok rs' cs' fs"
  by (auto simp: check_closing_def split: if_splits dest: flags_ok_retire)

lemma flags_ok_connect:
  "flags_ok rs cs fs \<Longrightarrow> drive_connect ops rs w = (res, rs', sp, w') \<Longrightarrow> flags_ok rs' cs fs"
  by (auto simp: drive_connect_def flags_ok_def Let_def split: prod.splits poll.splits sum.splits)

lemma flags_ok_poll:
  assumes "flags_ok rs cs fs" "poll_ready ops rs cs = (out, rs', cs', sp)"
  shows "flags_ok rs' cs' fs"
proof -
  obtain rs1 cs1 where d: "check_driver ops rs cs = (rs1, cs1)" by fastforce
  obtain rs2 cs2 where c: "check_closing rs1 cs1 = (rs2, cs2)" by fastforce
  have "flags_ok rs2 cs2 fs" using flags_ok_closing [OF flags_ok_driver [OF assms(1) d] c] .
  with assms(2) d c show ?thesis
    by (auto simp: poll_ready_def split: if_splits prod.splits dest: flags_ok_connect)
qed

text \<open>A poll that is ready leaves something for the call that follows.\<close>

lemma poll_ready_leaves:
  assumes "poll_ready ops rs cs = (Return (Ready (Ok ())), rs', cs', sp)"
  shows "rs_send_request rs' \<noteq> None \<or> rs_connect_error rs' \<noteq> None"
  using assms
  by (auto simp: poll_ready_def drive_connect_def Let_def
      split: if_splits prod.splits poll.splits sum.splits)

lemma client_inv_new: "client_inv (sys_new conn u ex w)"
  by (simp add: sys_new_def RequestSender_new_def new_cell_def empty_cells_def client_inv_def
      sender_ok_def flags_ok_def load_cell_def)

lemma client_inv_poll:
  assumes "client_inv s" "sys_poll_ready cops s = (out, s', sp)"
  shows "client_inv s'"
proof -
  obtain rs' cs' where p: "poll_ready cops (sys_sender s) (sys_cells s) = (out, rs', cs', sp)"
    and s': "s' = s\<lparr>sys_sender := rs', sys_cells := cs', sys_ready := (out = Return (Ready (Ok ())))\<rparr>"
    using assms(2) by (auto simp: sys_poll_ready_def split: prod.splits)
  have "out = Return (Ready (Ok ())) \<Longrightarrow> rs_send_request rs' \<noteq> None \<or> rs_connect_error rs' \<noteq> None"
    using poll_ready_leaves [of cops "sys_sender s" "sys_cells s" rs' cs' sp] p by simp
  with assms(1) s' sender_ok_poll [OF _ p] flags_ok_poll [OF _ p] show ?thesis
    unfolding client_inv_def by fastforce
qed

lemma client_inv_call:
  assumes inv: "client_inv s" and c: "sys_call build_uri req s = (fut, s')"
  shows "client_inv s'"
proof -
  obtain rs' where p: "call build_uri req (sys_sender s) = (fut, rs')"
    using c by (auto simp: sys_call_def split: prod.splits)
  have ok: "sender_ok rs' (sys_cells s)"
    using sender_ok_call [of "sys_sender s" "sys_cells s", OF _ p] inv by (simp add: client_inv_def)
  have eq: "rs_closing rs' = rs_closing (sys_sender s)" "rs_send_request rs' = rs_send_request (sys_sender s)"
    using p by (auto simp: call_def Let_def split: option.splits sum.splits)
  have fl: "flags_ok rs' (sys_cells s) (sys_inflight s)"
    using inv eq by (simp add: client_inv_def flags_ok_def)
  show ?thesis
  proof (cases fut)
    case (Call_error e)
    with ok fl c p show ?thesis by (auto simp: sys_call_def client_inv_def)
  next
    case (Call_send f)
    then have "request_flag f = Some (rs_closing rs') \<and> rs_send_request rs' \<noteq> None"
      using p by (auto simp: call_def Let_def send_request_inner_def split: option.splits sum.splits)
    with ok have "flags_ok rs' (sys_cells s) [f]" by (simp add: flags_ok_def sender_ok_def)
    with fl have "flags_ok rs' (sys_cells s) (sys_inflight s @ [f])" by (auto simp: flags_ok_def)
    with ok c p Call_send show ?thesis by (auto simp: sys_call_def client_inv_def)
  qed
qed

lemma client_inv_request:
  assumes inv: "client_inv s" and i: "i < length (sys_inflight s)"
    and r: "sys_request rops i s = Some (res, s', eff)"
  shows "client_inv s'"
proof -
  let ?f = "sys_inflight s ! i"
  obtain fut cs' where p: "request_poll rops ?f (sys_cells s) = Some (res, fut, cs', eff)"
    and s': "s' = s\<lparr>sys_cells := cs', sys_inflight := (sys_inflight s)[i := fut]\<rparr>"
    using r by (auto simp: sys_request_def split: option.splits)
  note fl = request_poll_flag [OF p]
  have fs: "flags_ok (sys_sender s) (sys_cells s) ((sys_inflight s)[i := fut])"
    by (rule flags_ok_update) (use inv i fl in \<open>auto simp: client_inv_def\<close>)
  from flag_effect_cases [OF fl [THEN conjunct1]] show ?thesis
  proof
    assume "same_flags (sys_cells s) cs'"
    with inv fs s' show ?thesis by (simp add: client_inv_def sender_ok_same flags_ok_same)
  next
    assume "\<exists>a. request_flag ?f = Some a \<and> same_flags (store_cell a True (sys_cells s)) cs'"
    then obtain a where a: "request_flag ?f = Some a" "same_flags (store_cell a True (sys_cells s)) cs'" by blast
    with inv i have "a \<noteq> rs_closing (sys_sender s) \<or> rs_send_request (sys_sender s) \<noteq> None"
      using nth_mem [OF i] by (auto simp: client_inv_def flags_ok_def)
    with a inv fs s' show ?thesis
      by (auto simp: client_inv_def sender_ok_same [OF a(2)] flags_ok_same [OF a(2)] flags_ok_store
          intro: sender_ok_store)
  qed
qed

lemma client_inv_step:
  assumes "client_inv s" "client_step cops rops build_uri s s'"
  shows "client_inv s'"
  using assms(2)
proof cases
  case cs_drop
  with assms(1) show ?thesis by (auto simp: client_inv_def intro: flags_ok_done)
next
  case cs_driver
  with assms(1) show ?thesis by (auto simp: client_inv_def sender_ok_def flags_ok_def)
next
  case cs_net
  with assms(1) show ?thesis by (simp add: client_inv_def)
qed (use assms(1) in \<open>auto dest: client_inv_poll client_inv_call client_inv_request\<close>)

interpretation cl: invariant_system client_init "client_step cops rops build_uri" client_inv
  for cops :: "('conn, 'cf, 'qc, 'hf, 'drv, 'sr, 'dtx, 'rx, 'se, 'x, 'w) conn_ops"
    and rops :: "('sr, uri \<times> 'm, 'st, 's, 'r, 'tx, 'c, 'resp, 'se, 'b, 'h, 'x, 'w) request_ops" and build_uri
  by unfold_locales (auto simp: client_init_def client_inv_new intro: client_inv_step)

section \<open>Polls in a reachable state\<close>

lemma spec_connect_not_err: "spec_connect ops f w = (r, st, sp, w') \<Longrightarrow> r \<noteq> Ready (Err e)"
  by (auto simp: spec_connect_def split: prod.splits poll.splits sum.splits)

lemma spec_poll_not_err: "spec_poll ops conn c st w = (r, st', sp, w') \<Longrightarrow> r \<noteq> Ready (Err e)"
  by (cases st)
    (auto dest: spec_connect_not_err split: prod.splits try_recv.splits if_splits)

lemma sys_poll_spec:
  assumes "client_inv s" "sys_poll_ready cops s = (out, s', sp)"
  shows "\<exists>r. out = Return r \<and>
    spec_poll cops (rs_conn (sys_sender s)) (load_cell (rs_closing (sys_sender s)) (sys_cells s))
      (abs_sender (sys_sender s)) (net (sys_cells s)) = (r, abs_sender (sys_sender s'), sp, net (sys_cells s'))"
  using assms poll_ready_refines [of "sys_sender s" "sys_cells s" cops]
  by (fastforce simp: sys_poll_ready_def client_inv_def split: prod.splits)

lemma sys_poll_inflight: "sys_poll_ready cops s = (out, s', sp) \<Longrightarrow> sys_inflight s' = sys_inflight s"
  by (auto simp: sys_poll_ready_def split: prod.splits)

text \<open>The cells matter to a poll only through the current flag and the next free address.\<close>

definition same_view where
  "same_view rs cs cs' \<longleftrightarrow>
     load_cell (rs_closing rs) cs' = load_cell (rs_closing rs) cs \<and> next_cell cs' = next_cell cs \<and> net cs' = net cs"

lemma same_view_net [simp]: "same_view rs cs cs' \<Longrightarrow> same_view rs (cs\<lparr>net := w\<rparr>) (cs'\<lparr>net := w\<rparr>)"
  by (simp add: same_view_def)

lemma retire_view:
  "same_view rs cs cs' \<Longrightarrow> retire_connection rs cs = (rs1, cs1) \<Longrightarrow>
   \<exists>cs2. retire_connection rs cs' = (rs1, cs2) \<and> same_view rs1 cs1 cs2"
  by (auto simp: same_view_def retire_connection_def new_cell_def load_cell_def)

lemma check_driver_view:
  "same_view rs cs cs' \<Longrightarrow> check_driver ops rs cs = (rs1, cs1) \<Longrightarrow>
   \<exists>cs2. check_driver ops rs cs' = (rs1, cs2) \<and> same_view rs1 cs1 cs2"
  by (auto simp: check_driver_def same_view_def [THEN iffD1, THEN conjunct2, THEN conjunct2]
      split: option.splits prod.splits try_recv.splits intro!: retire_view)
    (auto simp: same_view_def)

lemma check_closing_view:
  "same_view rs cs cs' \<Longrightarrow> check_closing rs cs = (rs1, cs1) \<Longrightarrow>
   \<exists>cs2. check_closing rs cs' = (rs1, cs2) \<and> same_view rs1 cs1 cs2"
  using retire_view [of rs cs cs' rs1 cs1]
  by (auto simp: check_closing_def same_view_def split: if_splits)

lemma poll_ready_view:
  assumes v: "same_view rs cs cs'" and p: "poll_ready ops rs cs = (out, rs', cs1, sp)"
  shows "\<exists>cs2. poll_ready ops rs cs' = (out, rs', cs2, sp)"
proof -
  obtain rs1 c1 where d: "check_driver ops rs cs = (rs1, c1)" by fastforce
  obtain rs2 c2 where c: "check_closing rs1 c1 = (rs2, c2)" by fastforce
  from check_driver_view [OF v d] obtain c1' where d': "check_driver ops rs cs' = (rs1, c1')"
    and v1: "same_view rs1 c1 c1'" by blast
  from check_closing_view [OF v1 c] obtain c2' where "check_closing rs1 c1' = (rs2, c2')" "net c2' = net c2"
    by (auto simp: same_view_def)
  with p d c d' show ?thesis by (auto simp: poll_ready_def split: prod.splits if_splits)
qed

text \<open>A poll that finds the flag up leaves a flag that did not exist before.\<close>

lemma drive_connect_closing: "drive_connect ops rs w = (res, rs', sp, w') \<Longrightarrow> rs_closing rs' = rs_closing rs"
  by (auto simp: drive_connect_def Let_def split: prod.splits poll.splits sum.splits)

lemma drive_connect_conn: "drive_connect ops rs w = (res, rs', sp, w') \<Longrightarrow> rs_conn rs' = rs_conn rs"
  by (auto simp: drive_connect_def Let_def split: prod.splits poll.splits sum.splits)

lemma checks_fresh:
  assumes "load_cell (rs_closing rs) cs" "check_driver ops rs cs = (rs1, cs1)" "check_closing rs1 cs1 = (rs2, cs2)"
  shows "next_cell cs \<le> rs_closing rs2"
  using assms
  by (auto simp: check_driver_def check_closing_def retire_connection_def new_cell_def load_cell_def
      split: option.splits prod.splits try_recv.splits if_splits)

lemma poll_ready_fresh:
  assumes "load_cell (rs_closing rs) cs" "poll_ready ops rs cs = (out, rs', cs', sp)"
  shows "next_cell cs \<le> rs_closing rs'"
proof -
  obtain rs1 c1 where d: "check_driver ops rs cs = (rs1, c1)" by fastforce
  obtain rs2 c2 where c: "check_closing rs1 c1 = (rs2, c2)" by fastforce
  from assms(2) d c have "rs_closing rs' = rs_closing rs2"
    by (auto simp: poll_ready_def split: prod.splits if_splits dest: drive_connect_closing)
  with checks_fresh [OF assms(1) d c] show ?thesis by simp
qed

lemma poll_ready_conn:
  assumes "poll_ready ops rs cs = (out, rs', cs', sp)"
  shows "rs_conn rs' = rs_conn rs"
proof -
  obtain rs1 c1 where d: "check_driver ops rs cs = (rs1, c1)" by fastforce
  obtain rs2 c2 where c: "check_closing rs1 c1 = (rs2, c2)" by fastforce
  have "rs_conn rs2 = rs_conn rs"
    using d c by (auto simp: check_driver_def check_closing_def retire_connection_def new_cell_def
        split: option.splits prod.splits try_recv.splits if_splits)
  with assms d c show ?thesis
    by (auto simp: poll_ready_def split: prod.splits if_splits dest: drive_connect_conn)
qed

text \<open>The two places where a request learns an error of the peer.\<close>

fun peer_error where
  "peer_error rops (RF_sending head body sr closing) w e \<longleftrightarrow>
     fst (so_poll_send_request rops sr head w) = Ready (Err e)"
| "peer_error rops (RF_receiving r tx closing) w e \<longleftrightarrow> fst (so_poll_recv_response rops r w) = Ready (Err e)"
| "peer_error rops RF_done w e \<longleftrightarrow> False"

lemma request_poll_peer_error:
  assumes "peer_error rops f (net cs) e" "request_flag f = Some a"
  shows "\<exists>w eff. request_poll rops f cs =
    Some (Ready (Err (StreamErr e)), RF_done, note_error (so_to_string rops) e a (cs\<lparr>net := w\<rparr>), eff)"
  using assms
  by (cases f) (auto simp: request_receive_def split: prod.splits)

text \<open>A poll of the sender whose flag is up: the connection is replaced, and nobody holds the new flag.\<close>

lemma poll_ready_closing:
  assumes inv: "client_inv s" and up: "load_cell (rs_closing (sys_sender s)) (sys_cells s)"
    and p: "sys_poll_ready cops s = (out, s', sp)"
  shows "\<exists>r w. out = Return r \<and>
    spec_connect cops (MF_start (rs_conn (sys_sender s))) w = (r, abs_sender (sys_sender s'), sp, net (sys_cells s'))"
proof -
  obtain sr rx where "abs_sender (sys_sender s) = Connected sr rx"
    using inv up by (cases "rs_driver_rx (sys_sender s)")
      (auto simp: client_inv_def sender_ok_def abs_sender_def)
  with sys_poll_spec [OF inv p] up show ?thesis by (auto split: prod.splits try_recv.splits)
qed

lemma sys_poll_fresh_flag:
  assumes inv: "client_inv s" and up: "load_cell (rs_closing (sys_sender s)) (sys_cells s)"
    and p: "sys_poll_ready cops s = (out, s', sp)"
  shows "f \<in> set (sys_inflight s') \<Longrightarrow> request_flag f \<noteq> Some (rs_closing (sys_sender s'))"
  using inv p poll_ready_fresh [OF up, of cops]
  by (fastforce simp: client_inv_def flags_ok_def sys_poll_ready_def split: prod.splits)

section \<open>A concrete connection\<close>

text \<open>
  Operations on numbers, for evaluating the definitions: connector 0 fails to connect, requests on
  connection 1 are told that the peer is closing, requests on connection 2 fail on their own
  stream, and requests on any other are answered at once. The rest of the world counts the polls of
  connectors.
\<close>

definition sample_conn_ops :: "(nat, nat, nat, nat, nat, nat, unit, bool, stream_error_kind, nat, nat) conn_ops" where
  "sample_conn_ops = \<lparr>co_connect = (\<lambda>c. c),
     co_poll_connect = (\<lambda>cf w. (if cf = 0 then Ready (Err (Foreign 7)) else Ready (Ok cf), cf, w + 1)),
     co_h3_new = (\<lambda>qc. qc), co_poll_h3_new = (\<lambda>hf w. (Ready (Ok (hf, hf)), hf, w)), co_channel = (\<lambda>w. (((), False), w)),
     co_try_recv = (\<lambda>rx w. (if rx then Recv_ok else Recv_empty, rx, w)), co_poll_close = (\<lambda>d w. (Pending, d, w)),
     co_tx_send = (\<lambda>t w. w)\<rparr>"

definition sample_body_ops :: "(unit, unit, unit, stream_error_kind, nat, unit) client_body_ops" where
  "sample_body_ops = \<lparr>bo_poll_frame = (\<lambda>b. (Ready None, b)), bo_poll_send = (\<lambda>op w. (Ready (Ok ()), w)),
     bo_stop_stream = (\<lambda>c w. w), bo_drop_stream = (\<lambda>w. w), cb_poll_cancel = (\<lambda>c. (False, c))\<rparr>"

definition sample_request_ops ::
  "(nat, uri \<times> unit, nat, unit, nat, unit, unit, unit, stream_error_kind, unit, unit, nat, nat) request_ops" where
  "sample_request_ops = \<lparr>so_poll_send_request = (\<lambda>sr hd w.
       (if sr = 1 then Ready (Err K_remote_closing) else if sr = 2 then Ready (Err K_stream_error)
        else Ready (Ok sr), sr, w)),
     so_split = (\<lambda>st. ((), st)), so_channel = (\<lambda>w. (((), ()), w)),
     so_poll_recv_response = (\<lambda>r w. (if r = 3 then Ready (Err K_remote_closing) else Ready (Ok ()), r, w)),
     so_to_string = display_prefix, so_body = sample_body_ops\<rparr>"

definition sample_uri :: uri where
  "sample_uri = \<lparr>uri_scheme = Some ''https'', uri_authority = Some ''host:1'', uri_path_and_query = None\<rparr>"

definition sample_build :: "string \<Rightarrow> string \<Rightarrow> string \<Rightarrow> nat + uri" where
  "sample_build sc au pq = Ok \<lparr>uri_scheme = Some sc, uri_authority = Some au, uri_path_and_query = Some pq\<rparr>"

definition sample_req :: "(unit, unit) request" where
  "sample_req = \<lparr>req_uri = sample_uri, req_parts = (), req_body = ()\<rparr>"

definition sample_start ::
  "nat \<Rightarrow> (nat, nat, nat, nat, bool, unit, stream_error_kind, nat, unit, nat, unit, unit, nat) client_sys" where
  "sample_start n = sys_new n sample_uri () 0"

definition sample_polled where
  "sample_polled n = fst (snd (sys_poll_ready sample_conn_ops (sample_start n)))"

definition sample_called where
  "sample_called n = snd (sys_call sample_build sample_req (sample_polled n))"

lemmas sample_defs =
  sample_conn_ops_def sample_body_ops_def sample_request_ops_def sample_uri_def sample_build_def
  sample_req_def sample_start_def sample_polled_def sample_called_def sys_new_def sys_poll_ready_def
  sys_call_def sys_request_def RequestSender_new_def poll_ready_def check_driver_def check_closing_def
  drive_connect_def make_connecting_def make_h3_def call_def new_cell_def load_cell_def empty_cells_def
  send_request_inner_def retire_connection_def

text \<open>The states are reachable.\<close>

abbreviation sample_reach where
  "sample_reach \<equiv> reach client_init (client_step sample_conn_ops sample_request_ops sample_build)"

lemma sample_start_reach: "sample_reach (sample_start n)"
  by (rule reach_init) (auto simp: sample_start_def client_init_def)

lemma sample_polled_reach: "sample_reach (sample_polled n)"
  by (rule reach_step [OF sample_start_reach], rule cs_poll) (simp add: sample_polled_def prod_eq_iff)

lemma sample_polled_ready: "sys_ready (sample_polled n)"
  by (simp add: sample_defs)

lemma sample_called_reach: "sample_reach (sample_called n)"
  by (rule reach_step [OF sample_polled_reach], rule cs_call [OF sample_polled_ready])
    (simp add: sample_called_def prod_eq_iff)

section \<open>Properties of the connection\<close>

text \<open>
  C22: every reachable state of a client is well formed. A cached sender and its driver channel are present
  together, exclude a connection attempt and a stored error, and so does a stored error; the closing flag is
  allocated and can be up only over a cached sender; every request in flight holds an allocated flag, and holds
  the current one only if its connection is the cached one; and after a ready poll there is a sender or an
  error for the call.
\<close>

theorem client_well_formed:
  assumes "reach client_init (client_step cops rops build_uri) s"
  shows "let rs = sys_sender s; cs = sys_cells s in
    (rs_send_request rs = None \<longleftrightarrow> rs_driver_rx rs = None) \<and>
    (rs_send_request rs \<noteq> None \<longrightarrow> rs_make_send_request_fut rs = None \<and> rs_connect_error rs = None) \<and>
    (rs_connect_error rs \<noteq> None \<longrightarrow> rs_make_send_request_fut rs = None) \<and>
    rs_closing rs < next_cell cs \<and> (load_cell (rs_closing rs) cs \<longrightarrow> rs_send_request rs \<noteq> None) \<and>
    (\<forall>f \<in> set (sys_inflight s). \<forall>a. request_flag f = Some a \<longrightarrow>
       a < next_cell cs \<and> (a = rs_closing rs \<longrightarrow> rs_send_request rs \<noteq> None)) \<and>
    (sys_ready s \<longrightarrow> rs_send_request rs \<noteq> None \<or> rs_connect_error rs \<noteq> None)"
  using cl.reach_inv [OF assms] unfolding client_inv_def sender_ok_def flags_ok_def Let_def conj_assoc .

theorem client_well_formed_witness:
  "rs_send_request (sys_sender (sample_called 5)) \<noteq> None \<and> rs_driver_rx (sys_sender (sample_called 5)) \<noteq> None \<and>
   (\<exists>a. request_flag (sys_inflight (sample_called 5) ! 0) = Some a \<and> a < next_cell (sys_cells (sample_called 5)))"
proof -
  have s: "rs_send_request (sys_sender (sample_called 5)) \<noteq> None" "sys_inflight (sample_called 5) \<noteq> []"
    "\<exists>a. request_flag (sys_inflight (sample_called 5) ! 0) = Some a"
    by (simp_all add: sample_defs)
  then have "sys_inflight (sample_called 5) ! 0 \<in> set (sys_inflight (sample_called 5))" by (intro nth_mem) simp
  with client_well_formed [OF sample_called_reach [of 5]] s(1,3) show ?thesis unfolding Let_def by blast
qed

text \<open>
  C6: in every reachable state, whatever the requests in flight have done, \<open>poll_ready\<close> returns
  without failing one of its assertions and never with an error, so a connection failure can
  never become a terminal readiness error.
\<close>

theorem poll_ready_never_fails:
  assumes "reach client_init (client_step cops rops build_uri) s"
  shows "\<exists>r s' sp. sys_poll_ready cops s = (Return r, s', sp) \<and> (\<forall>e. r \<noteq> Ready (Err e))"
proof -
  obtain out s' sp where p: "sys_poll_ready cops s = (out, s', sp)" by (metis prod_cases3)
  from sys_poll_spec [OF cl.reach_inv [OF assms] p] p show ?thesis by (metis spec_poll_not_err)
qed

theorem poll_ready_never_fails_witness:
  "\<exists>r s' sp. sys_poll_ready sample_conn_ops (sample_called 0) = (Return r, s', sp) \<and> (\<forall>e. r \<noteq> Ready (Err e))"
  by (rule poll_ready_never_fails [OF sample_called_reach])

text \<open>
  C7: the coupled optional fields of \<open>RequestSender\<close> implement a machine with the four states idle,
  connecting, connected and failed: in every reachable state a poll is the poll of the machine,
  with the same result and the same tasks started.
\<close>

theorem poll_ready_implements_machine:
  assumes "reach client_init (client_step cops rops build_uri) s" "sys_poll_ready cops s = (out, s', sp)"
  shows "\<exists>r. out = Return r \<and>
    spec_poll cops (rs_conn (sys_sender s)) (load_cell (rs_closing (sys_sender s)) (sys_cells s))
      (abs_sender (sys_sender s)) (net (sys_cells s)) = (r, abs_sender (sys_sender s'), sp, net (sys_cells s'))"
  by (rule sys_poll_spec [OF cl.reach_inv [OF assms(1)] assms(2)])

theorem poll_ready_implements_machine_witness:
  "\<exists>r. Return (Ready (Ok ())) = Return r \<and>
    spec_poll sample_conn_ops 5 False Idle 0 = (r, abs_sender (sys_sender (sample_polled 5)), [Driver 5 ()], 1)"
  using poll_ready_implements_machine [OF sample_start_reach [of 5],
      of "Return (Ready (Ok ()))" "sample_polled 5" "[Driver 5 ()]"]
  by (simp add: sample_defs abs_sender_def spec_connect_def)

text \<open>
  C4: when a request on the current connection is told by the peer that the connection is closing
  (a GOAWAY, or a connection error), the next \<open>poll_ready\<close> drops the cached connection and starts a
  new attempt even though the driver task is still running, and the flag of the new connection
  is held by no request in flight.
\<close>

theorem goaway_reconnects:
  assumes "reach client_init (client_step cops rops build_uri) s" "i < length (sys_inflight s)"
    and "request_flag (sys_inflight s ! i) = Some (rs_closing (sys_sender s))"
    and "peer_error rops (sys_inflight s ! i) (net (sys_cells s)) e" "is_connection_closing (so_to_string rops) e"
    and "sys_request rops i s = Some (res, s', eff)" "sys_poll_ready cops s' = (out, s'', sp)"
  shows "res = Ready (Err (StreamErr e)) \<and>
    (\<exists>r w. out = Return r \<and>
       spec_connect cops (MF_start (rs_conn (sys_sender s))) w = (r, abs_sender (sys_sender s''), sp, net (sys_cells s''))) \<and>
    (\<forall>f \<in> set (sys_inflight s''). request_flag f \<noteq> Some (rs_closing (sys_sender s'')))"
proof -
  have inv: "client_inv s'" using client_inv_request [OF cl.reach_inv [OF assms(1)] assms(2,6)] .
  from request_poll_peer_error [OF assms(4,3)] assms(5,6)
  have s': "res = Ready (Err (StreamErr e))" "sys_sender s' = sys_sender s"
    and up: "load_cell (rs_closing (sys_sender s')) (sys_cells s')"
    by (auto simp: sys_request_def note_error_def)
  show ?thesis
    using s' poll_ready_closing [OF inv up assms(7)] sys_poll_fresh_flag [OF inv up assms(7)] by auto
qed

theorem goaway_reconnects_witness:
  "\<exists>s' s'' out sp eff. sys_request sample_request_ops 0 (sample_called 1) =
      Some (Ready (Err (StreamErr K_remote_closing)), s', eff) \<and>
    sys_poll_ready sample_conn_ops s' = (out, s'', sp) \<and>
    (\<exists>r w w'. out = Return r \<and> spec_connect sample_conn_ops (MF_start 1) w = (r, abs_sender (sys_sender s''), sp, w'))"
proof -
  obtain res s' eff where r: "sys_request sample_request_ops 0 (sample_called 1) = Some (res, s', eff)"
    by (simp add: sample_defs)
  obtain out s'' sp where p: "sys_poll_ready sample_conn_ops s' = (out, s'', sp)" by (metis prod_cases3)
  have "0 < length (sys_inflight (sample_called 1))"
    "request_flag (sys_inflight (sample_called 1) ! 0) = Some (rs_closing (sys_sender (sample_called 1)))"
    "peer_error sample_request_ops (sys_inflight (sample_called 1) ! 0) (net (sys_cells (sample_called 1))) K_remote_closing"
    "is_connection_closing (so_to_string sample_request_ops) K_remote_closing"
    "rs_conn (sys_sender (sample_called 1)) = 1"
    by (simp_all add: sample_defs is_connection_closing_def)
  with goaway_reconnects [OF sample_called_reach this(1-4) r p] r p show ?thesis by auto
qed


text \<open>The connection is replaced while the request in flight has not learned of the closing yet.\<close>

definition sample_late where
  "sample_late n = fst (snd (sys_poll_ready sample_conn_ops
     (sample_called n \<lparr>sys_sender := (sys_sender (sample_called n))\<lparr>rs_driver_rx := Some True\<rparr>\<rparr>)))"


text \<open>
  An error that concerns one stream only (any kind but a closing or a connection error) leaves
  the cached connection alone: the sender and all the flags are what they were.
\<close>

theorem stream_error_keeps_connection:
  assumes "display_ok (so_to_string rops) kind" "sys_request rops i s = Some (Ready (Err (StreamErr e)), s', eff)"
    and "kind e \<noteq> K_remote_closing" "kind e \<noteq> K_connection_error"
  shows "sys_sender s' = sys_sender s \<and> same_flags (sys_cells s) (sys_cells s')"
proof -
  obtain fut cs' where r: "request_poll rops (sys_inflight s ! i) (sys_cells s) =
      Some (Ready (Err (StreamErr e)), fut, cs', eff)"
    and s': "s' = s\<lparr>sys_cells := cs', sys_inflight := (sys_inflight s)[i := fut]\<rparr>"
    using assms(2) by (auto simp: sys_request_def split: option.splits)
  have "\<not> is_connection_closing (so_to_string rops) e"
    using assms(1,3,4) display_prefix_connection [of "kind e" "so_to_string rops e"]
    by (simp add: display_ok_def is_connection_closing_def)
  with request_poll_flag [OF r] s' show ?thesis by (simp add: flag_effect_def)
qed

theorem stream_error_keeps_connection_witness:
  "\<exists>s' eff. sys_request sample_request_ops 0 (sample_called 2) =
      Some (Ready (Err (StreamErr K_stream_error)), s', eff) \<and>
    sys_sender s' = sys_sender (sample_called 2) \<and> same_flags (sys_cells (sample_called 2)) (sys_cells s')"
proof -
  obtain s' eff where r: "sys_request sample_request_ops 0 (sample_called 2) =
      Some (Ready (Err (StreamErr K_stream_error)), s', eff)"
    by (simp add: sample_defs note_error_def is_connection_closing_def)
  have "display_ok (so_to_string sample_request_ops) (\<lambda>k. k)"
    by (simp add: display_ok_def sample_request_ops_def)
  from stream_error_keeps_connection [OF this r] r show ?thesis by simp
qed

text \<open>
  C8: a failed connection attempt is reported exactly once. The poll that meets the failure is
  ready and stores the error; polling again changes nothing and starts nothing; the next call
  returns that error; and the poll after it starts a fresh attempt, whatever has become of the network
  by then.
\<close>

theorem connect_error_surfaces_once:
  assumes "reach client_init (client_step cops rops build_uri) s"
    and "sys_poll_ready cops s = (Return (Ready (Ok ())), s1, sp1)" "abs_sender (sys_sender s1) = Failed e"
    and "sys_call build_uri req s1 = (fut, s2)"
    and "sys_poll_ready cops (s2\<lparr>sys_cells := (sys_cells s2)\<lparr>net := w\<rparr>\<rparr>) = (out, s3, sp3)"
  shows "sys_poll_ready cops s1 = (Return (Ready (Ok ())), s1, []) \<and> fut = Call_error e \<and>
    (\<exists>r. out = Return r \<and>
       spec_connect cops (MF_start (rs_conn (sys_sender s))) w = (r, abs_sender (sys_sender s3), sp3, net (sys_cells s3)))"
proof -
  have i1: "client_inv s1" using client_inv_poll [OF cl.reach_inv [OF assms(1)] assms(2)] .
  have i2: "client_inv (s2\<lparr>sys_cells := (sys_cells s2)\<lparr>net := w\<rparr>\<rparr>)"
    using client_inv_call [OF i1 assms(4)] by (simp add: client_inv_def)
  have e: "rs_connect_error (sys_sender s1) = Some e"
    using assms(3) unfolding abs_sender_def by (elim abs_fields.elims) auto
  with i1 have n: "rs_driver_rx (sys_sender s1) = None" "rs_send_request (sys_sender s1) = None"
    "rs_make_send_request_fut (sys_sender s1) = None" "\<not> load_cell (rs_closing (sys_sender s1)) (sys_cells s1)"
    by (auto simp: client_inv_def sender_ok_def)
  have again: "sys_poll_ready cops s1 = (Return (Ready (Ok ())), s1, [])"
    using e n assms(2)
    by (auto simp: sys_poll_ready_def poll_ready_def check_driver_def check_closing_def split: prod.splits)
  have c: "fut = Call_error e" "sys_sender s2 = (sys_sender s1)\<lparr>rs_connect_error := None\<rparr>" "sys_cells s2 = sys_cells s1"
    using assms(4) e by (auto simp: sys_call_def call_def)
  have "rs_conn (sys_sender s1) = rs_conn (sys_sender s)"
    using poll_ready_conn [of cops] assms(2) by (fastforce simp: sys_poll_ready_def split: prod.splits)
  moreover have "abs_sender (sys_sender s2) = Idle" using c n by (simp add: abs_sender_def)
  ultimately show ?thesis using sys_poll_spec [OF i2 assms(5)] again c by simp
qed

theorem connect_error_surfaces_once_witness:
  "sys_poll_ready sample_conn_ops (sample_polled 0) = (Return (Ready (Ok ())), sample_polled 0, []) \<and>
   fst (sys_call sample_build sample_req (sample_polled 0)) = Call_error (Foreign 7)"
proof -
  obtain out s3 sp3 where p: "sys_poll_ready sample_conn_ops
      ((sample_called 0)\<lparr>sys_cells := (sys_cells (sample_called 0))\<lparr>net := 9\<rparr>\<rparr>) = (out, s3, sp3)" by (metis prod_cases3)
  have "sys_poll_ready sample_conn_ops (sample_start 0) = (Return (Ready (Ok ())), sample_polled 0, [])"
    "abs_sender (sys_sender (sample_polled 0)) = Failed (Foreign 7)"
    by (simp_all add: sample_defs abs_sender_def)
  from connect_error_surfaces_once [OF sample_start_reach this _ p, of sample_req
      "fst (sys_call sample_build sample_req (sample_polled 0))"]
  show ?thesis by (simp add: sample_called_def)
qed

section \<open>The base URI\<close>

definition base_of where
  "base_of rs = (rs_base_scheme rs, rs_base_authority rs)"

lemma base_retire: "retire_connection rs cs = (rs', cs') \<Longrightarrow> base_of rs' = base_of rs"
  by (auto simp: retire_connection_def base_of_def new_cell_def)

lemma base_connect: "drive_connect ops rs w = (res, rs', sp, w') \<Longrightarrow> base_of rs' = base_of rs"
  by (auto simp: drive_connect_def base_of_def Let_def split: prod.splits poll.splits sum.splits)

lemma base_poll:
  assumes "poll_ready ops rs cs = (out, rs', cs', sp)"
  shows "base_of rs' = base_of rs"
proof -
  obtain rs1 c1 where d: "check_driver ops rs cs = (rs1, c1)" by fastforce
  obtain rs2 c2 where c: "check_closing rs1 c1 = (rs2, c2)" by fastforce
  have "base_of rs1 = base_of rs"
    using d by (auto simp: check_driver_def split: option.splits prod.splits try_recv.splits dest: base_retire)
      (simp add: base_of_def)
  moreover have "base_of rs2 = base_of rs1"
    using c by (auto simp: check_closing_def split: if_splits dest: base_retire)
  ultimately have "base_of rs2 = base_of rs" by simp
  with assms d c show ?thesis by (auto simp: poll_ready_def split: prod.splits if_splits dest: base_connect)
qed

lemma base_call: "call build_uri req rs = (fut, rs') \<Longrightarrow> base_of rs' = base_of rs"
  by (auto simp: call_def base_of_def Let_def split: option.splits sum.splits)

lemma base_step:
  assumes "client_step cops rops build_uri s s'"
  shows "base_of (sys_sender s') = base_of (sys_sender s)"
  using assms
proof cases
  case (cs_poll out sp)
  then show ?thesis by (auto simp: sys_poll_ready_def split: prod.splits dest: base_poll)
next
  case (cs_call req fut)
  then show ?thesis by (auto simp: sys_call_def split: prod.splits dest: base_call)
next
  case (cs_request i res eff)
  then show ?thesis by (auto simp: sys_request_def split: option.splits)
qed (simp_all add: base_of_def)

lemma base_steps:
  "(client_step cops rops build_uri)\<^sup>*\<^sup>* s s' \<Longrightarrow> base_of (sys_sender s') = base_of (sys_sender s)"
  by (induction rule: rtranclp_induct) (auto dest: base_step)

lemma call_send_target:
  assumes "call build_uri req rs = (Call_send (RF_sending (v, parts) body sr a), rs')"
  shows "\<exists>sc au. rs_base_scheme rs = Some sc \<and> rs_base_authority rs = Some au \<and>
    build_uri sc au (case uri_path_and_query (req_uri req) of None \<Rightarrow> ''/'' | Some pq \<Rightarrow> pq) = Ok v \<and>
    parts = req_parts req \<and> body = req_body req"
  using assms by (auto simp: call_def Let_def send_request_inner_def split: option.splits sum.splits)

text \<open>What is relied on of the URI builder: a URI it builds has the parts it was given.\<close>

definition build_ok :: "(string \<Rightarrow> string \<Rightarrow> string \<Rightarrow> 'x + uri) \<Rightarrow> bool" where
  "build_ok build_uri \<longleftrightarrow> (\<forall>sc au pq u. build_uri sc au pq = Ok u \<longrightarrow>
     uri_scheme u = Some sc \<and> uri_authority u = Some au \<and> uri_path_and_query u = Some pq)"

text \<open>
  C31: every request goes to the base URI. Whatever happened to the connection in between, a request
  that a client made for the URI \<open>u\<close> hands to the connection carries the scheme and the authority of
  \<open>u\<close>, and the path of the request, or \<open>/\<close> when it has none; a base URI without a scheme or an authority
  never sends anything.
\<close>

theorem requests_go_to_base:
  assumes "build_ok build_uri" "(client_step cops rops build_uri)\<^sup>*\<^sup>* (sys_new conn u ex w) s"
    and "sys_call build_uri req s = (Call_send (RF_sending (v, parts) body sr a), s')"
  shows "uri_scheme v = uri_scheme u \<and> uri_scheme u \<noteq> None \<and> uri_authority v = uri_authority u \<and> uri_authority u \<noteq> None \<and>
    uri_path_and_query v = Some (case uri_path_and_query (req_uri req) of None \<Rightarrow> ''/'' | Some pq \<Rightarrow> pq) \<and>
    parts = req_parts req \<and> body = req_body req"
proof -
  have b: "rs_base_scheme (sys_sender s) = uri_scheme u" "rs_base_authority (sys_sender s) = uri_authority u"
    using base_steps [OF assms(2)]
    by (auto simp: base_of_def sys_new_def RequestSender_new_def split: prod.splits)
  have "\<exists>sc au. uri_scheme u = Some sc \<and> uri_authority u = Some au \<and>
      build_uri sc au (case uri_path_and_query (req_uri req) of None \<Rightarrow> ''/'' | Some pq \<Rightarrow> pq) = Ok v \<and>
      parts = req_parts req \<and> body = req_body req"
    unfolding b [symmetric] using assms(3)
    by (auto simp: sys_call_def split: prod.splits dest!: call_send_target)
  with assms(1) show ?thesis unfolding build_ok_def by auto
qed

theorem requests_go_to_base_witness:
  "\<exists>v sr a. fst (sys_call sample_build sample_req (sample_polled 5)) =
      (Call_send (RF_sending (v, ()) () sr a) :: (nat, nat, unit, unit, unit, stream_error_kind, nat) call_fut) \<and>
    uri_authority v = Some ''host:1'' \<and> uri_path_and_query v = Some ''/''"
proof -
  have m: "(client_step sample_conn_ops sample_request_ops sample_build)\<^sup>*\<^sup>* (sys_new 5 sample_uri () 0) (sample_polled 5)"
    unfolding sample_start_def [symmetric]
    by (rule r_into_rtranclp, rule cs_poll) (simp add: sample_polled_def prod_eq_iff)
  have b: "build_ok sample_build" by (simp add: build_ok_def sample_build_def)
  obtain v sr a s' where c: "sys_call sample_build sample_req (sample_polled 5) = (Call_send (RF_sending (v, ()) () sr a), s')"
    by (simp add: sample_defs)
  from requests_go_to_base [OF b m c] c show ?thesis by (auto simp: sample_uri_def sample_req_def)
qed

text \<open>
  The textual test for connection errors is exact. For the texts of the pinned version of h3,
  \<open>is_connection_closing\<close> accepts the error that the peer is closing and connection errors, and no
  error that concerns a single stream.
\<close>

theorem connection_closing_exact:
  assumes "display_ok to_string kind"
  shows "is_connection_closing to_string e \<longleftrightarrow> kind e = K_remote_closing \<or> kind e = K_connection_error"
  using assms display_prefix_connection [of "kind e" "to_string e"]
  by (simp add: display_ok_def is_connection_closing_def)

theorem connection_closing_exact_witness:
  "is_connection_closing (\<lambda>k. display_prefix k @ '' x'') K_connection_error \<and>
   \<not> is_connection_closing (\<lambda>k. display_prefix k @ '' x'') K_remote_terminate"
  using connection_closing_exact [of "\<lambda>k. display_prefix k @ '' x''" "\<lambda>k. k"]
  by (simp add: display_ok_def)

end
