(* ===== verification/Client.thy ===== *)
theory Client
  imports ConnLifecycle
begin

text \<open>
  \<open>h3-util/src/client.rs\<close> and \<open>executor.rs\<close>: the services a user of the client crate holds. The
  contract of a \<open>tower::Service\<close> is a locale; \<open>RequestSender\<close> and \<open>H3Connection\<close> interpret it, and
  \<open>H3Client::send\<close> is the client of it.
\<close>

section \<open>The executor\<close>

text \<open>\<open>SharedExec\<close> wraps an executor \<open>'ex\<close>; cloning it shares the executor.\<close>

record 'ex SharedExec =
  se_inner :: 'ex

definition SharedExec_new :: "'ex \<Rightarrow> 'ex SharedExec" where
  "SharedExec_new exec = \<lparr>se_inner = exec\<rparr>"

definition SharedExec_tokio :: "'ex \<Rightarrow> 'ex SharedExec" where
  "SharedExec_tokio tokio_executor = SharedExec_new tokio_executor"

definition execute :: "('t \<Rightarrow> 'ex \<Rightarrow> 'ex) \<Rightarrow> 't \<Rightarrow> 'ex SharedExec \<Rightarrow> 'ex SharedExec" where
  "execute inner_execute fut e = e\<lparr>se_inner := inner_execute fut (se_inner e)\<rparr>"

section \<open>The contract of a service\<close>

text \<open>A disciplined user: every call follows a poll that was ready.\<close>

inductive used ::
  "('s \<Rightarrow> ('e + unit) poll outcome \<times> 's) \<Rightarrow> ('q \<Rightarrow> 's \<Rightarrow> 'f \<times> 's) \<Rightarrow> 's \<Rightarrow> ('s \<times> 'f) list \<Rightarrow> 's \<Rightarrow> bool"
  for svc_poll svc_call where
  used_nil: "used svc_poll svc_call s [] s"
| used_pending: "used svc_poll svc_call s as t \<Longrightarrow> svc_poll t = (Return Pending, t') \<Longrightarrow>
    used svc_poll svc_call s as t'"
| used_call: "used svc_poll svc_call s as t \<Longrightarrow> svc_poll t = (Return (Ready (Ok ())), t1) \<Longrightarrow>
    svc_call q t1 = (f, t2) \<Longrightarrow> used svc_poll svc_call s (as @ [(t1, f)]) t2"

text \<open>
  \<open>ok\<close> is what the service keeps true, \<open>ready\<close> what a poll that returned \<open>Ready(Ok)\<close> leaves, and
  \<open>answered s f\<close> tells that the future \<open>f\<close> is a proper answer of a service in state \<open>s\<close>, as opposed
  to the error for a call without readiness.
\<close>

locale tower_service =
  fixes svc_poll :: "'s \<Rightarrow> ('e + unit) poll outcome \<times> 's"
    and svc_call :: "'q \<Rightarrow> 's \<Rightarrow> 'f \<times> 's"
    and ok :: "'s \<Rightarrow> bool"
    and ready :: "'s \<Rightarrow> bool"
    and answered :: "'s \<Rightarrow> 'f \<Rightarrow> bool"
  assumes poll_returns: "ok s \<Longrightarrow> \<exists>r s'. svc_poll s = (Return r, s') \<and> (\<forall>e. r \<noteq> Ready (Err e))"
    and poll_keeps: "ok s \<Longrightarrow> svc_poll s = (out, s') \<Longrightarrow> ok s'"
    and poll_readies: "ok s \<Longrightarrow> svc_poll s = (Return (Ready (Ok ())), s') \<Longrightarrow> ready s'"
    and call_keeps: "ok s \<Longrightarrow> svc_call q s = (f, s') \<Longrightarrow> ok s'"
    and call_answers: "ok s \<Longrightarrow> ready s \<Longrightarrow> svc_call q s = (f, s') \<Longrightarrow> answered s f"
begin

lemma used_ok: "used svc_poll svc_call s as t \<Longrightarrow> ok s \<Longrightarrow> ok t \<and> (\<forall>(u, f)\<in>set as. answered u f)"
proof (induction rule: used.induct)
  case (used_call s as t t1 q f t2)
  then have "ok t1" "ready t1" using poll_keeps poll_readies by blast+
  with used_call call_keeps call_answers show ?case by fastforce
qed (auto intro: poll_keeps)

lemma used_never_stuck:
  assumes "used svc_poll svc_call s as t" "ok s"
  shows "\<exists>r t'. svc_poll t = (Return r, t') \<and> (\<forall>e. r \<noteq> Ready (Err e))"
  using poll_returns used_ok [OF assms] by blast

end

section \<open>The request sender as a service\<close>

text \<open>The state of the service is the sender with the store of its flags.\<close>

definition sender_poll where
  "sender_poll cops s =
     (case poll_ready cops (fst s) (snd s) of (out, rs, cs, sp) \<Rightarrow> (out, (rs, cs)))"

definition sender_call where
  "sender_call build_uri req s = (case call build_uri req (fst s) of (f, rs) \<Rightarrow> (f, (rs, snd s)))"

fun sender_ready where
  "sender_ready (rs, cs) \<longleftrightarrow> rs_send_request rs \<noteq> None \<or> rs_connect_error rs \<noteq> None"

text \<open>
  A proper answer: the deferred connect error, an error of the base URI or of its combination with
  the path, or a request on the cached connection that carries the flag of this connection.
\<close>

definition sender_answered where
  "sender_answered s f \<longleftrightarrow>
     (case f of
        Call_error e \<Rightarrow>
          rs_connect_error (fst s) = Some e \<or> rs_base_scheme (fst s) = None \<or>
          rs_base_authority (fst s) = None \<or> (\<exists>x. e = Foreign x)
      | Call_send fut \<Rightarrow>
          rs_connect_error (fst s) = None \<and>
          (\<exists>head body sr. rs_send_request (fst s) = Some sr \<and>
             fut = send_request_inner head body sr (rs_closing (fst s))))"

lemma sender_poll_spec:
  assumes "sender_ok rs cs" "poll_ready cops rs cs = (out, rs', cs', sp)"
  shows "\<exists>r. out = Return r \<and> (\<forall>e. r \<noteq> Ready (Err e))"
proof -
  obtain r where r: "out = Return r" and
    sp: "spec_poll cops (rs_conn rs) (load_cell (rs_closing rs) cs) (abs_sender rs) (net cs) =
      (r, abs_sender rs', sp, net cs')"
    using poll_ready_refines [OF assms] by blast
  from spec_poll_not_err [OF sp] r show ?thesis by simp
qed

interpretation rq: tower_service
  "sender_poll cops" "sender_call build_uri" "\<lambda>s. sender_ok (fst s) (snd s)" sender_ready sender_answered
  for cops :: "('conn, 'cf, 'qc, 'hf, 'drv, 'sr, 'dtx, 'rx, 'se, 'x, 'w) conn_ops" and build_uri
proof (unfold_locales, goal_cases)
  case (1 s)
  then show ?case using sender_poll_spec [of "fst s" "snd s" cops]
    by (fastforce simp: sender_poll_def split: prod.splits)
next
  case (2 s out s')
  then show ?case using sender_ok_poll [of "fst s" "snd s" cops]
    by (fastforce simp: sender_poll_def split: prod.splits)
next
  case (3 s s')
  then show ?case using poll_ready_leaves [of cops "fst s" "snd s"]
    by (fastforce simp: sender_poll_def split: prod.splits)
next
  case (4 s q f s')
  then show ?case using sender_ok_call [of "fst s" "snd s" build_uri q f]
    by (fastforce simp: sender_call_def split: prod.splits)
next
  case (5 s q f s')
  then show ?case
    by (cases s) (auto simp: sender_call_def sender_answered_def call_def Let_def send_request_inner_def
        split: prod.splits option.splits sum.splits)
qed

section \<open>\<open>H3Connection\<close>\<close>

record 's H3Connection =
  hc_inner :: 's

text \<open>\<open>BoxService::new\<close> boxes the sender; without an executor the tokio one is taken.\<close>

definition H3Connection_new ::
  "'ex SharedExec \<Rightarrow> 'conn \<Rightarrow> uri \<Rightarrow> 'ex SharedExec option \<Rightarrow> 'w cell_store \<Rightarrow>
   (('conn, 'cf, 'hf, 'sr, 'rx, 'ex SharedExec, 'se, 'x) RequestSender \<times> 'w cell_store) H3Connection" where
  "H3Connection_new tokio connector u executor cs =
     (let executor = (case executor of None \<Rightarrow> tokio | Some e \<Rightarrow> e) in
      \<lparr>hc_inner = RequestSender_new connector u executor cs\<rparr>)"

definition connection_poll_ready where
  "connection_poll_ready cops c =
     (case sender_poll cops (hc_inner c) of (out, s) \<Rightarrow> (out, c\<lparr>hc_inner := s\<rparr>))"

definition connection_call where
  "connection_call build_uri req c =
     (case sender_call build_uri req (hc_inner c) of (f, s) \<Rightarrow> (f, c\<lparr>hc_inner := s\<rparr>))"

abbreviation connection_ok where
  "connection_ok c \<equiv> sender_ok (fst (hc_inner c)) (snd (hc_inner c))"

interpretation hc: tower_service
  "connection_poll_ready cops" "connection_call build_uri" connection_ok
  "\<lambda>c. sender_ready (hc_inner c)" "\<lambda>c. sender_answered (hc_inner c)"
  for cops :: "('conn, 'cf, 'qc, 'hf, 'drv, 'sr, 'dtx, 'rx, 'se, 'x, 'w) conn_ops" and build_uri
proof (unfold_locales, goal_cases)
  case (1 c)
  then show ?case using rq.poll_returns [of "hc_inner c" cops]
    by (auto simp: connection_poll_ready_def)
next
  case (2 c out c')
  then show ?case using rq.poll_keeps [of "hc_inner c" cops out]
    by (auto simp: connection_poll_ready_def split: prod.splits)
next
  case (3 c c')
  then show ?case using rq.poll_readies [of "hc_inner c" cops]
    by (auto simp: connection_poll_ready_def split: prod.splits)
next
  case (4 c q f c')
  then show ?case using rq.call_keeps [of "hc_inner c" build_uri q f]
    by (auto simp: connection_call_def split: prod.splits)
next
  case (5 c q f c')
  then show ?case using rq.call_answers [of "hc_inner c" build_uri q f]
    by (auto simp: connection_call_def split: prod.splits)
qed

section \<open>\<open>H3Client\<close>\<close>

record 's H3Client =
  hl_channel :: "'s H3Connection"

definition H3Client_new :: "'s H3Connection \<Rightarrow> 's H3Client" where
  "H3Client_new inner = \<lparr>hl_channel = inner\<rparr>"

text \<open>The two suspension points of \<open>send\<close>: waiting for readiness, and for the future of \<open>call\<close>.\<close>

datatype ('sr, 'r, 'tx, 'm, 'b, 'se, 'x) send_fut =
    HS_waiting "('m, 'b) request"
  | HS_called "('sr, 'r, 'tx, 'm, 'b, 'se, 'x) call_fut"

type_synonym ('conn, 'cf, 'hf, 'sr, 'rx, 'ex, 'se, 'x, 'w) h3_client =
  "(('conn, 'cf, 'hf, 'sr, 'rx, 'ex, 'se, 'x) RequestSender \<times> 'w cell_store) H3Client"

text \<open>Awaiting the future of \<open>call\<close>; the effects of the request future are reported along.\<close>

fun send_await ::
  "('sr, uri \<times> 'm, 'st, 's, 'r, 'tx, 'c, 'resp, 'se, 'b, 'h, 'x, 'w) request_ops \<Rightarrow>
   ('sr, 'r, 'tx, 'm, 'b, 'se, 'x) call_fut \<Rightarrow> ('conn, 'cf, 'hf, 'sr, 'rx, 'ex, 'se, 'x, 'w) h3_client \<Rightarrow>
   ((('se, 'x) error + 'resp \<times> ('r, 'tx) H3IncomingClient) poll \<times>
    ('sr, 'r, 'tx, 'm, 'b, 'se, 'x) send_fut \<times> ('conn, 'cf, 'hf, 'sr, 'rx, 'ex, 'se, 'x, 'w) h3_client \<times>
    ('r, 'tx, ('b, 'h, 's, 'se, 'x, 'c) client_body_fut) request_effect list) option" where
  "send_await rops (Call_error e) cl = Some (Ready (Err e), HS_called (Call_error e), cl, [])"
| "send_await rops (Call_send f) cl =
     (case hc_inner (hl_channel cl) of (rs, cs) \<Rightarrow>
        (case request_poll rops f cs of
           None \<Rightarrow> None
         | Some (res, f', cs', eff) \<Rightarrow>
             Some (res, HS_called (Call_send f'), cl\<lparr>hl_channel := \<lparr>hc_inner = (rs, cs')\<rparr>\<rparr>, eff)))"

fun send_poll ::
  "('conn, 'cf, 'qc, 'hf, 'drv, 'sr, 'dtx, 'rx, 'se, 'x, 'w) conn_ops \<Rightarrow>
   ('sr, uri \<times> 'm, 'st, 's, 'r, 'tx, 'c, 'resp, 'se, 'b, 'h, 'x, 'w) request_ops \<Rightarrow>
   (string \<Rightarrow> string \<Rightarrow> string \<Rightarrow> 'x + uri) \<Rightarrow>
   ('sr, 'r, 'tx, 'm, 'b, 'se, 'x) send_fut \<Rightarrow> ('conn, 'cf, 'hf, 'sr, 'rx, 'ex, 'se, 'x, 'w) h3_client \<Rightarrow>
   ((('se, 'x) error + 'resp \<times> ('r, 'tx) H3IncomingClient) poll \<times>
    ('sr, 'r, 'tx, 'm, 'b, 'se, 'x) send_fut \<times> ('conn, 'cf, 'hf, 'sr, 'rx, 'ex, 'se, 'x, 'w) h3_client \<times>
    ('r, 'tx, ('b, 'h, 's, 'se, 'x, 'c) client_body_fut) request_effect list) option outcome" where
  "send_poll cops rops build_uri (HS_waiting req) cl =
     (case connection_poll_ready cops (hl_channel cl) of
        (Panic msg, ch) \<Rightarrow> Panic msg
      | (Return Pending, ch) \<Rightarrow> Return (Some (Pending, HS_waiting req, cl\<lparr>hl_channel := ch\<rparr>, []))
      | (Return (Ready (Err e)), ch) \<Rightarrow> Return (Some (Ready (Err e), HS_waiting req, cl\<lparr>hl_channel := ch\<rparr>, []))
      | (Return (Ready (Ok _)), ch) \<Rightarrow>
          (case connection_call build_uri req ch of
             (f, ch') \<Rightarrow> Return (send_await rops f (cl\<lparr>hl_channel := ch'\<rparr>))))"
| "send_poll cops rops build_uri (HS_called f) cl = Return (send_await rops f cl)"

text \<open>
  \<open>send\<close> borrows the client exclusively, so its one request is the only one whose flag matters here.
\<close>

definition client_ok where
  "client_ok cl \<longleftrightarrow> connection_ok (hl_channel cl)"

fun send_ok where
  "send_ok (HS_waiting req) cl \<longleftrightarrow> client_ok cl"
| "send_ok (HS_called (Call_error e)) cl \<longleftrightarrow> client_ok cl"
| "send_ok (HS_called (Call_send f)) cl \<longleftrightarrow>
     client_ok cl \<and> (case hc_inner (hl_channel cl) of (rs, cs) \<Rightarrow> flags_ok rs cs [f])"

lemma send_await_ok:
  assumes "send_ok (HS_called f) cl" "send_await rops f cl = Some (res, fut, cl', eff)"
  shows "send_ok fut cl'"
proof (cases f)
  case (Call_error e)
  with assms show ?thesis by auto
next
  case (Call_send g)
  obtain rs cs where hc: "hc_inner (hl_channel cl) = (rs, cs)" by fastforce
  from assms(2) Call_send hc obtain g' cs' where p: "request_poll rops g cs = Some (res, g', cs', eff)"
    and r: "fut = HS_called (Call_send g')" "cl' = cl\<lparr>hl_channel := \<lparr>hc_inner = (rs, cs')\<rparr>\<rparr>"
    by (auto split: option.splits)
  have ok: "sender_ok rs cs" "flags_ok rs cs [g]" using assms(1) Call_send hc by (simp_all add: client_ok_def)
  note fl = request_poll_flag [OF p]
  have f1: "flags_ok rs cs [g']" using flags_ok_update [OF ok(2), of 0 g'] fl by simp
  from flag_effect_cases [OF fl [THEN conjunct1]] have "sender_ok rs cs' \<and> flags_ok rs cs' [g']"
  proof
    assume "same_flags cs cs'"
    with ok f1 show ?thesis by (simp add: sender_ok_same flags_ok_same)
  next
    assume "\<exists>a. request_flag g = Some a \<and> same_flags (store_cell a True cs) cs'"
    then obtain a where a: "request_flag g = Some a" "same_flags (store_cell a True cs) cs'" by blast
    with ok have "a \<noteq> rs_closing rs \<or> rs_send_request rs \<noteq> None" by (simp add: flags_ok_def)
    then have "sender_ok rs (store_cell a True cs)" by (rule sender_ok_store [OF ok(1)])
    with f1 show ?thesis by (simp add: sender_ok_same [OF a(2)] flags_ok_same [OF a(2)] flags_ok_store)
  qed
  with r show ?thesis by (simp add: client_ok_def)
qed

text \<open>A future that was just returned by \<open>call\<close> in a ready state carries the current flag.\<close>

lemma answered_flags:
  assumes "sender_answered (rs, cs) (Call_send f)" "sender_ok rs cs"
  shows "flags_ok rs cs [f]"
  using assms by (auto simp: sender_answered_def flags_ok_def send_request_inner_def sender_ok_def)

lemma connection_call_send_ok:
  assumes ok: "connection_ok ch" "sender_ready (hc_inner ch)" and c: "connection_call build_uri req ch = (f, ch')"
  shows "send_ok (HS_called f) (cl\<lparr>hl_channel := ch'\<rparr>)"
proof -
  have k: "connection_ok ch'" using hc.call_keeps [OF ok(1) c] .
  show ?thesis
  proof (cases f)
    case (Call_error e)
    with k show ?thesis by (simp add: client_ok_def)
  next
    case (Call_send g)
    obtain rs cs where hc: "hc_inner ch = (rs, cs)" by fastforce
    have "hc_inner ch' = (rs, cs)"
      using c Call_send hc by (auto simp: connection_call_def sender_call_def call_def Let_def
          split: prod.splits option.splits sum.splits)
    moreover have "flags_ok rs cs [g]"
      using hc.call_answers [OF ok c] ok(1) hc Call_send answered_flags [of rs cs g] by simp
    ultimately show ?thesis using k Call_send by (simp add: client_ok_def)
  qed
qed

lemma send_poll_ok:
  assumes "send_ok fut cl"
  shows "\<exists>x. send_poll cops rops build_uri fut cl = Return x \<and>
    (\<forall>res fut' cl' eff. x = Some (res, fut', cl', eff) \<longrightarrow> send_ok fut' cl')"
proof (cases fut)
  case (HS_waiting req)
  let ?ch = "hl_channel cl"
  have ok: "connection_ok ?ch" using assms HS_waiting by (simp add: client_ok_def)
  obtain r ch where p: "connection_poll_ready cops ?ch = (Return r, ch)" and e: "\<forall>e. r \<noteq> Ready (Err e)"
    using hc.poll_returns [OF ok, of cops] by blast
  have k: "connection_ok ch" using hc.poll_keeps [OF ok p] .
  show ?thesis
  proof (cases r)
    case Pending
    with HS_waiting p k show ?thesis by (simp add: client_ok_def)
  next
    case (Ready y)
    with e have y: "r = Ready (Ok ())" by (cases y) auto
    note rdy = hc.poll_readies [OF ok p [unfolded y]]
    from HS_waiting p y show ?thesis
      by (auto split: prod.splits intro: send_await_ok connection_call_send_ok [OF k rdy])
  qed
next
  case (HS_called f)
  with assms show ?thesis by (auto intro: send_await_ok)
qed

text \<open>
  A client over its lifetime: sends one after the other, each polled any number of times or dropped
  on the way, while the driver of the connection may end at any moment and the network and the peers
  change as they like.
\<close>

inductive client_life for cops rops build_uri where
  cl_start: "client_life cops rops build_uri (None, cl) (Some (HS_waiting req), cl)"
| cl_poll: "send_poll cops rops build_uri fut cl = Return (Some (res, fut', cl', eff)) \<Longrightarrow>
     client_life cops rops build_uri (Some fut, cl) (if res = Pending then Some fut' else None, cl')"
| cl_drop: "client_life cops rops build_uri (Some fut, cl) (None, cl)"
| cl_driver: "hc_inner (hl_channel cl) = (rs, cs) \<Longrightarrow> rs_driver_rx rs = Some rx \<Longrightarrow>
     client_life cops rops build_uri (fut, cl)
       (fut, cl\<lparr>hl_channel := \<lparr>hc_inner = (rs\<lparr>rs_driver_rx := Some rx'\<rparr>, cs)\<rparr>\<rparr>)"
| cl_net: "hc_inner (hl_channel cl) = (rs, cs) \<Longrightarrow>
     client_life cops rops build_uri (fut, cl) (fut, cl\<lparr>hl_channel := \<lparr>hc_inner = (rs, cs\<lparr>net := w\<rparr>)\<rparr>\<rparr>)"

definition client_life_init where
  "client_life_init s \<longleftrightarrow>
     (\<exists>tokio conn u ex w. s = (None, H3Client_new (H3Connection_new tokio conn u ex (empty_cells w))))"

fun client_life_inv where
  "client_life_inv (None, cl) \<longleftrightarrow> client_ok cl"
| "client_life_inv (Some fut, cl) \<longleftrightarrow> send_ok fut cl"

lemma send_ok_client: "send_ok fut cl \<Longrightarrow> client_ok cl"
  by (cases "(fut, cl)" rule: send_ok.cases) auto

lemma send_ok_driver:
  assumes "send_ok fut cl" "hc_inner (hl_channel cl) = (rs, cs)" "rs_driver_rx rs = Some rx"
  shows "send_ok fut (cl\<lparr>hl_channel := \<lparr>hc_inner = (rs\<lparr>rs_driver_rx := Some rx'\<rparr>, cs)\<rparr>\<rparr>)"
  using assms
  by (cases "(fut, cl)" rule: send_ok.cases) (auto simp: client_ok_def sender_ok_def flags_ok_def)

lemma send_ok_net:
  assumes "send_ok fut cl" "hc_inner (hl_channel cl) = (rs, cs)"
  shows "send_ok fut (cl\<lparr>hl_channel := \<lparr>hc_inner = (rs, cs\<lparr>net := w\<rparr>)\<rparr>\<rparr>)"
  using assms by (cases "(fut, cl)" rule: send_ok.cases) (auto simp: client_ok_def)

lemma client_life_step:
  assumes "client_life_inv s" "client_life cops rops build_uri s t"
  shows "client_life_inv t"
  using assms(2,1)
proof cases
  case (cl_poll fut cl res fut' cl' eff)
  with assms(1) send_poll_ok [of fut cl cops rops build_uri] show ?thesis by (auto intro: send_ok_client)
next
  case (cl_driver cl rs cs rx fut rx')
  with assms(1) show ?thesis
    by (cases fut) (auto simp: client_ok_def sender_ok_def intro: send_ok_driver)
next
  case (cl_net cl rs cs fut w)
  with assms(1) show ?thesis by (cases fut) (auto simp: client_ok_def intro: send_ok_net)
qed (use assms(1) in \<open>auto intro: send_ok_client\<close>)

lemma client_life_start: "client_life_init s \<Longrightarrow> client_life_inv s"
  by (auto simp: client_life_init_def H3Client_new_def H3Connection_new_def client_ok_def Let_def
      RequestSender_new_def new_cell_def empty_cells_def sender_ok_def load_cell_def)

interpretation hl: invariant_system client_life_init "client_life cops rops build_uri" client_life_inv
  for cops rops build_uri
  by unfold_locales (auto intro: client_life_start client_life_step)

section \<open>Properties\<close>


definition sample_client_life ::
  "nat \<Rightarrow> (nat, nat, nat, nat, bool, unit SharedExec, stream_error_kind, nat, nat) h3_client" where
  "sample_client_life n = H3Client_new (H3Connection_new (SharedExec_tokio ()) n sample_uri None (empty_cells 0))"


text \<open>
  Every disciplined use of a connection is answered. However often \<open>H3Connection\<close> is polled, each
  call that follows a ready poll returns the deferred connect error, an error of the base URI, or a
  request on the cached connection carrying its flag; never the error for a call without readiness.
\<close>

theorem connection_calls_answered:
  assumes "connection_ok c" "used (connection_poll_ready cops) (connection_call build_uri) c as d"
    and "(s, f) \<in> set as"
  shows "sender_answered (hc_inner s) f"
  using hc.used_ok [OF assms(2,1)] assms(3) by blast

theorem connection_calls_answered_witness:
  "\<exists>d (f :: (nat, nat, unit, unit, unit, stream_error_kind, nat) call_fut).
     connection_poll_ready sample_conn_ops (hl_channel (sample_client_life 1)) = (Return (Ready (Ok ())), d) \<and>
     connection_call sample_build sample_req d = (f, d) \<and> sender_answered (hc_inner d) f"
proof -
  let ?c = "hl_channel (sample_client_life 1)"
  obtain d where p: "connection_poll_ready sample_conn_ops ?c = (Return (Ready (Ok ())), d)"
    by (simp add: sample_client_life_def H3Client_new_def H3Connection_new_def connection_poll_ready_def
        sender_poll_def sample_defs)
  obtain f :: "(nat, nat, unit, unit, unit, stream_error_kind, nat) call_fut"
    where c: "connection_call sample_build sample_req d = (f, d)"
    using p by (auto simp: sample_client_life_def H3Client_new_def H3Connection_new_def connection_poll_ready_def
        sender_poll_def connection_call_def sender_call_def sample_defs)
  have ok: "connection_ok ?c"
    by (simp add: sample_client_life_def H3Client_new_def H3Connection_new_def sample_defs sender_ok_def)
  have "used (connection_poll_ready sample_conn_ops) (connection_call sample_build) ?c ([] @ [(d, f)]) d"
    by (rule used_call, rule used_nil, rule p, rule c)
  from connection_calls_answered [OF ok this, of d f] p c show ?thesis by auto
qed

end
