(* ===== verification/Accept.thy ===== *)
theory Accept
  imports H3Prelude "HOL-Library.Multiset"
begin

text \<open>
  The acceptors of the backends: \<open>quinn/server.rs\<close>, whose accept loop runs the handshakes of new
  connections on a set of tasks, and the forwarding ones of \<open>s2n/server.rs\<close>, \<open>quiche_h3/server.rs\<close>
  and \<open>msquic/server.rs\<close>.
\<close>

section \<open>quinn\<close>

text \<open>
  The endpoint \<open>'ep\<close>, the \<open>JoinSet\<close> \<open>'js\<close> of the handshakes of connections \<open>'i\<close>, and the generator \<open>'g\<close>
  with which \<open>select!\<close> chooses the branch it polls first. Joining a task gives a join error, or
  the result of the task.
\<close>

record ('ep, 'i, 'js, 'c, 'x, 'g) accept_ops =
  ao_poll_accept :: "'ep \<Rightarrow> 'i option poll \<times> 'ep"
  ao_is_empty :: "'js \<Rightarrow> bool"
  ao_spawn :: "'i \<Rightarrow> 'js \<Rightarrow> 'js"
  ao_poll_join :: "'js \<Rightarrow> ('x + ('x + 'c)) option poll \<times> 'js"
  ao_flip :: "'g \<Rightarrow> bool \<times> 'g"

datatype ('i, 'c, 'x) SelectOutputConn = NewIncoming 'i | NewConn 'c | ConnErr 'x | Done

record ('ep, 'js, 'g) H3QuinnAcceptor =
  qa_ep :: 'ep
  qa_tasks :: 'js
  qa_rng :: 'g

definition H3QuinnAcceptor_new :: "'ep \<Rightarrow> 'js \<Rightarrow> 'g \<Rightarrow> ('ep, 'js, 'g) H3QuinnAcceptor" where
  "H3QuinnAcceptor_new ep empty_set g = \<lparr>qa_ep = ep, qa_tasks = empty_set, qa_rng = g\<rparr>"

text \<open>The two branches: the next incoming connection, and the next handshake that has ended.\<close>

definition select_incoming ::
  "('ep, 'i, 'js, 'c, 'x, 'g) accept_ops \<Rightarrow> ('ep, 'js, 'g) H3QuinnAcceptor \<Rightarrow>
   ('i, 'c, 'x) SelectOutputConn outcome poll \<times> ('ep, 'js, 'g) H3QuinnAcceptor" where
  "select_incoming ops s =
     (case ao_poll_accept ops (qa_ep s) of
        (Pending, ep) \<Rightarrow> (Pending, s\<lparr>qa_ep := ep\<rparr>)
      | (Ready (Some i), ep) \<Rightarrow> (Ready (Return (NewIncoming i)), s\<lparr>qa_ep := ep\<rparr>)
      | (Ready None, ep) \<Rightarrow> (Ready (Return Done), s\<lparr>qa_ep := ep\<rparr>))"

definition select_join ::
  "('ep, 'i, 'js, 'c, 'x, 'g) accept_ops \<Rightarrow> ('ep, 'js, 'g) H3QuinnAcceptor \<Rightarrow>
   ('i, 'c, 'x) SelectOutputConn outcome poll \<times> ('ep, 'js, 'g) H3QuinnAcceptor" where
  "select_join ops s =
     (case ao_poll_join ops (qa_tasks s) of
        (Pending, js) \<Rightarrow> (Pending, s\<lparr>qa_tasks := js\<rparr>)
      | (Ready None, js) \<Rightarrow> (Ready (Panic ''JoinSet should never end''), s\<lparr>qa_tasks := js\<rparr>)
      | (Ready (Some (Ok (Ok c))), js) \<Rightarrow> (Ready (Return (NewConn c)), s\<lparr>qa_tasks := js\<rparr>)
      | (Ready (Some (Ok (Err e))), js) \<Rightarrow> (Ready (Return (ConnErr e)), s\<lparr>qa_tasks := js\<rparr>)
      | (Ready (Some (Err e)), js) \<Rightarrow> (Ready (Return (ConnErr e)), s\<lparr>qa_tasks := js\<rparr>))"

definition select_conn ::
  "('ep, 'i, 'js, 'c, 'x, 'g) accept_ops \<Rightarrow> ('ep, 'js, 'g) H3QuinnAcceptor \<Rightarrow>
   ('i, 'c, 'x) SelectOutputConn outcome poll \<times> ('ep, 'js, 'g) H3QuinnAcceptor" where
  "select_conn ops s =
     (if ao_is_empty ops (qa_tasks s) then select_incoming ops s
      else
        (case ao_flip ops (qa_rng s) of (incoming_first, g) \<Rightarrow>
           let s = s\<lparr>qa_rng := g\<rparr>;
               fst_branch = (if incoming_first then select_incoming else select_join);
               snd_branch = (if incoming_first then select_join else select_incoming) in
           (case fst_branch ops s of
              (Ready out, s') \<Rightarrow> (Ready out, s')
            | (Pending, s') \<Rightarrow> snd_branch ops s')))"

text \<open>One turn of the loop of \<open>accept\<close>; \<open>None\<close> goes around again.\<close>

definition quinn_accept_turn ::
  "('ep, 'i, 'js, 'c, 'x, 'g) accept_ops \<Rightarrow> ('ep, 'js, 'g) H3QuinnAcceptor \<Rightarrow>
   ('x + 'c option) poll outcome option \<times> ('ep, 'js, 'g) H3QuinnAcceptor" where
  "quinn_accept_turn ops s =
     (case select_conn ops s of
        (Pending, s') \<Rightarrow> (Some (Return Pending), s')
      | (Ready (Panic msg), s') \<Rightarrow> (Some (Panic msg), s')
      | (Ready (Return (NewIncoming incoming)), s') \<Rightarrow>
          (None, s'\<lparr>qa_tasks := ao_spawn ops incoming (qa_tasks s')\<rparr>)
      | (Ready (Return (NewConn connection)), s') \<Rightarrow> (Some (Return (Ready (Ok (Some connection)))), s')
      | (Ready (Return (ConnErr error)), s') \<Rightarrow> (None, s')
      | (Ready (Return Done), s') \<Rightarrow> (Some (Return (Ready (Ok None))), s'))"

partial_function (option) quinn_accept ::
  "('ep, 'i, 'js, 'c, 'x, 'g) accept_ops \<Rightarrow> ('ep, 'js, 'g) H3QuinnAcceptor \<Rightarrow>
   (('x + 'c option) poll outcome \<times> ('ep, 'js, 'g) H3QuinnAcceptor) option" where
  "quinn_accept ops s =
     (case quinn_accept_turn ops s of
        (Some res, s') \<Rightarrow> Some (res, s')
      | (None, s') \<Rightarrow> quinn_accept ops s')"

text \<open>The task spawned for an incoming connection: \<open>incoming.await?\<close>, then the wrapper.\<close>

definition handshake_task :: "('i \<Rightarrow> 'x + 'q) \<Rightarrow> ('q \<Rightarrow> 'c) \<Rightarrow> 'i \<Rightarrow> 'x + 'c" where
  "handshake_task await_incoming conn_new i =
     (case await_incoming i of Err e \<Rightarrow> Err e | Ok q \<Rightarrow> Ok (conn_new q))"

section \<open>What tokio promises of a \<open>JoinSet\<close>\<close>

text \<open>
  \<open>tasks\<close> is the multiset of the handshakes under way. \<open>spawn\<close> adds one; a join that is ready
  removes one and reports its result or that the task failed; the end is reported only of an
  empty set.
\<close>

definition joinset_ok ::
  "('ep, 'i, 'js, 'c, 'x, 'g) accept_ops \<Rightarrow> ('i \<Rightarrow> 'x + 'c) \<Rightarrow> ('js \<Rightarrow> 'i multiset) \<Rightarrow> bool" where
  "joinset_ok ops run tasks \<longleftrightarrow>
     (\<forall>js. ao_is_empty ops js \<longleftrightarrow> tasks js = {#}) \<and>
     (\<forall>i js. tasks (ao_spawn ops i js) = add_mset i (tasks js)) \<and>
     (\<forall>js. case ao_poll_join ops js of
        (Pending, js') \<Rightarrow> tasks js' = tasks js
      | (Ready None, js') \<Rightarrow> tasks js = {#}
      | (Ready (Some r), js') \<Rightarrow>
          (\<exists>i. tasks js = add_mset i (tasks js') \<and> (case r of Ok x \<Rightarrow> x = run i | Err _ \<Rightarrow> True)))"

lemma joinset_empty: "joinset_ok ops run tasks \<Longrightarrow> ao_is_empty ops js \<longleftrightarrow> tasks js = {#}"
  and joinset_spawn: "joinset_ok ops run tasks \<Longrightarrow> tasks (ao_spawn ops i js) = add_mset i (tasks js)"
  and joinset_pending: "joinset_ok ops run tasks \<Longrightarrow> ao_poll_join ops js = (Pending, js') \<Longrightarrow> tasks js' = tasks js"
  and joinset_end: "joinset_ok ops run tasks \<Longrightarrow> ao_poll_join ops js = (Ready None, js') \<Longrightarrow> tasks js = {#}"
  and joinset_done: "joinset_ok ops run tasks \<Longrightarrow> ao_poll_join ops js = (Ready (Some r), js') \<Longrightarrow>
    \<exists>i. tasks js = add_mset i (tasks js') \<and> (case r of Ok x \<Rightarrow> x = run i | Err _ \<Rightarrow> True)"
  unfolding joinset_ok_def by (auto dest: spec [of _ js])

section \<open>The turns of the loop\<close>

text \<open>
  What a selection may bring, for a set that keeps its promises: nothing new, an incoming
  connection with the tasks as they were, or the result of one of the tasks.
\<close>

definition select_effect where
  "select_effect run tasks s out s' \<longleftrightarrow>
     (case out of
        Pending \<Rightarrow> tasks (qa_tasks s') = tasks (qa_tasks s)
      | Ready (Panic msg) \<Rightarrow> tasks (qa_tasks s) = {#}
      | Ready (Return (NewIncoming i)) \<Rightarrow> tasks (qa_tasks s') = tasks (qa_tasks s)
      | Ready (Return Done) \<Rightarrow> tasks (qa_tasks s') = tasks (qa_tasks s)
      | Ready (Return (NewConn c)) \<Rightarrow>
          (\<exists>i. tasks (qa_tasks s) = add_mset i (tasks (qa_tasks s')) \<and> run i = Ok c)
      | Ready (Return (ConnErr e)) \<Rightarrow> (\<exists>i. tasks (qa_tasks s) = add_mset i (tasks (qa_tasks s'))))"

lemma select_incoming_effect: "select_incoming ops s = (out, s') \<Longrightarrow> select_effect run tasks s out s'"
  by (auto simp: select_incoming_def select_effect_def split: prod.splits poll.splits option.splits)

lemma select_join_effect:
  assumes "joinset_ok ops run tasks" "select_join ops s = (out, s')"
  shows "select_effect run tasks s out s'"
proof -
  obtain r js where r: "ao_poll_join ops (qa_tasks s) = (r, js)" by fastforce
  show ?thesis
    using assms(2) r joinset_pending [OF assms(1)] joinset_end [OF assms(1)] joinset_done [OF assms(1)]
    by (fastforce simp: select_join_def select_effect_def split: poll.splits option.splits sum.splits)
qed

lemma select_effect_trans:
  assumes "select_effect run tasks s Pending s1" "select_effect run tasks s1 out s'"
  shows "select_effect run tasks s out s'"
  using assms by (auto simp: select_effect_def split: poll.splits outcome.splits SelectOutputConn.splits)

lemma select_effect_rng: "select_effect run tasks (s\<lparr>qa_rng := g\<rparr>) out s' = select_effect run tasks s out s'"
  by (simp add: select_effect_def split: poll.split outcome.split SelectOutputConn.split)

lemma select_conn_effect:
  assumes ok: "joinset_ok ops run tasks" and s: "select_conn ops s = (out, s')"
  shows "select_effect run tasks s out s' \<and> (\<forall>msg. out \<noteq> Ready (Panic msg))"
proof (cases "ao_is_empty ops (qa_tasks s)")
  case True
  with s have i: "select_incoming ops s = (out, s')" by (simp add: select_conn_def)
  then have "\<forall>msg. out \<noteq> Ready (Panic msg)"
    by (auto simp: select_incoming_def split: prod.splits poll.splits option.splits)
  with select_incoming_effect [OF i] show ?thesis by blast
next
  case False
  obtain b g where g: "ao_flip ops (qa_rng s) = (b, g)" by fastforce
  let ?f = "if b then select_incoming else select_join" and ?n = "if b then select_join else select_incoming"
  have eff: "select_effect run tasks t o' t'" if "?f ops t = (o', t') \<or> ?n ops t = (o', t')" for t o' t'
    using that select_incoming_effect select_join_effect [OF ok] by (auto split: if_splits)
  obtain o1 s1 where f: "?f ops (s\<lparr>qa_rng := g\<rparr>) = (o1, s1)" by fastforce
  have "select_effect run tasks s out s'"
  proof (cases o1)
    case Pending
    with False s g f have "?n ops s1 = (out, s')" by (simp add: select_conn_def Let_def)
    with eff f Pending show ?thesis by (metis select_effect_trans select_effect_rng)
  next
    case (Ready x)
    with False s g f have "out = o1" "s' = s1" by (simp_all add: select_conn_def Let_def)
    with eff f show ?thesis by (metis select_effect_rng)
  qed
  moreover have "tasks (qa_tasks s) \<noteq> {#}" using joinset_empty [OF ok] False by blast
  ultimately show ?thesis by (auto simp: select_effect_def)
qed

section \<open>Runs of the loop\<close>

text \<open>The connection a selection saw, and the result of a handshake it reported.\<close>

fun sel_seen :: "('i, 'c, 'x) SelectOutputConn outcome poll \<Rightarrow> 'i list" where
  "sel_seen (Ready (Return (NewIncoming i))) = [i]"
| "sel_seen _ = []"

fun sel_out :: "('i, 'c, 'x) SelectOutputConn outcome poll \<Rightarrow> ('x + 'c) list" where
  "sel_out (Ready (Return (NewConn c))) = [Ok c]"
| "sel_out (Ready (Return (ConnErr e))) = [Err e]"
| "sel_out _ = []"

text \<open>
  \<open>accept_run ops s seen outs t\<close>: any number of turns, over any number of polls and calls of \<open>accept\<close>,
  led from \<open>s\<close> to \<open>t\<close>, saw the incoming connections \<open>seen\<close> and reported the results \<open>outs\<close>.
\<close>

inductive accept_run ::
  "('ep, 'i, 'js, 'c, 'x, 'g) accept_ops \<Rightarrow> ('ep, 'js, 'g) H3QuinnAcceptor \<Rightarrow> 'i list \<Rightarrow> ('x + 'c) list \<Rightarrow>
   ('ep, 'js, 'g) H3QuinnAcceptor \<Rightarrow> bool" for ops where
  run_nil: "accept_run ops s [] [] s"
| run_turn: "accept_run ops s seen outs t \<Longrightarrow> select_conn ops t = (sel, t1) \<Longrightarrow>
     quinn_accept_turn ops t = (r, t') \<Longrightarrow> accept_run ops s (seen @ sel_seen sel) (outs @ sel_out sel) t'"

lemma turn_effect:
  assumes ok: "joinset_ok ops run tasks" and sel: "select_conn ops t = (sel, t1)"
    and turn: "quinn_accept_turn ops t = (r, t')"
  shows "\<exists>is. tasks (qa_tasks t) + mset (sel_seen sel) = mset is + tasks (qa_tasks t') \<and>
    list_all2 (\<lambda>i out. case out of Ok c \<Rightarrow> run i = Ok c | Err e \<Rightarrow> True) is (sel_out sel)"
proof -
  note eff = select_conn_effect [OF ok sel]
  have t': "t' = (case sel of
      Ready (Return (NewIncoming i)) \<Rightarrow> t1\<lparr>qa_tasks := ao_spawn ops i (qa_tasks t1)\<rparr> | _ \<Rightarrow> t1)"
    using turn sel by (auto simp: quinn_accept_turn_def split: poll.splits outcome.splits SelectOutputConn.splits)
  show ?thesis
  proof (cases "sel_out sel = []")
    case True
    with eff t' joinset_spawn [OF ok] show ?thesis
      by (auto simp: select_effect_def split: poll.splits outcome.splits SelectOutputConn.splits intro: exI [of _ "[]"])
  next
    case False
    then obtain x where x: "sel = Ready (Return x)" by (cases sel rule: sel_out.cases) auto
    with False eff t' obtain i where "tasks (qa_tasks t) = add_mset i (tasks (qa_tasks t'))"
      "\<And>c. x = NewConn c \<Longrightarrow> run i = Ok c"
      by (cases x) (auto simp: select_effect_def)
    with x False show ?thesis by (intro exI [of _ "[i]"]) (cases x; simp)
  qed
qed

lemma accept_run_conserves:
  assumes "accept_run ops s seen outs t" "joinset_ok ops run tasks"
  shows "\<exists>is. tasks (qa_tasks s) + mset seen = mset is + tasks (qa_tasks t) \<and>
    list_all2 (\<lambda>i out. case out of Ok c \<Rightarrow> run i = Ok c | Err e \<Rightarrow> True) is outs"
  using assms
proof (induction rule: accept_run.induct)
  case (run_nil s)
  show ?case by (rule exI [of _ "[]"]) simp
next
  case (run_turn s seen outs t sel t1 r t')
  then obtain js where 1: "tasks (qa_tasks s) + mset seen = mset js + tasks (qa_tasks t)"
    "list_all2 (\<lambda>i out. case out of Ok c \<Rightarrow> run i = Ok c | Err e \<Rightarrow> True) js outs" by blast
  obtain ks where 2: "tasks (qa_tasks t) + mset (sel_seen sel) = mset ks + tasks (qa_tasks t')"
    "list_all2 (\<lambda>i out. case out of Ok c \<Rightarrow> run i = Ok c | Err e \<Rightarrow> True) ks (sel_out sel)"
    using turn_effect [OF run_turn.prems run_turn.hyps(2,3)] by blast
  have "tasks (qa_tasks s) + mset (seen @ sel_seen sel) = mset (js @ ks) + tasks (qa_tasks t')"
    using 1(1) 2(1) by (metis add.assoc mset_append)
  with 1(2) 2(2) show ?case by (blast intro: list_all2_appendI)
qed

text \<open>A single poll of \<open>accept\<close> ends when the endpoint holds finitely many connections.\<close>

definition accept_measure where
  "accept_measure pending tasks s = 2 * pending (qa_ep s) + size (tasks (qa_tasks s))"

definition endpoint_ok where
  "endpoint_ok ops pending \<longleftrightarrow> (\<forall>ep. case ao_poll_accept ops ep of
       (Ready (Some i), ep') \<Rightarrow> pending ep' < (pending ep :: nat)
     | (_, ep') \<Rightarrow> pending ep' \<le> pending ep)"

lemma select_incoming_pending:
  assumes "endpoint_ok ops pending" "select_incoming ops s = (out, s')"
  shows "pending (qa_ep s') \<le> pending (qa_ep s) \<and>
    (sel_seen out \<noteq> [] \<longrightarrow> pending (qa_ep s') < pending (qa_ep s))"
proof -
  obtain r ep where r: "ao_poll_accept ops (qa_ep s) = (r, ep)" by fastforce
  show ?thesis
    using spec [OF assms(1) [unfolded endpoint_ok_def], of "qa_ep s"] assms(2) r
    by (auto simp: select_incoming_def split: poll.splits option.splits)
qed

lemma select_join_pending:
  "select_join ops s = (out, s') \<Longrightarrow> qa_ep s' = qa_ep s \<and> sel_seen out = []"
  by (auto simp: select_join_def split: prod.splits poll.splits option.splits sum.splits)

lemma select_conn_pending:
  assumes "endpoint_ok ops pending" "select_conn ops s = (out, s')"
  shows "pending (qa_ep s') \<le> pending (qa_ep s) \<and>
    (sel_seen out \<noteq> [] \<longrightarrow> pending (qa_ep s') < pending (qa_ep s))"
proof -
  note inc = select_incoming_pending [OF assms(1)]
  show ?thesis
    using assms(2)
    by (auto simp: select_conn_def Let_def split: if_splits prod.splits poll.splits
        dest!: inc select_join_pending)
qed

lemma turn_again_decreases:
  assumes ok: "joinset_ok ops run tasks" "endpoint_ok ops pending" and t: "quinn_accept_turn ops s = (None, s')"
  shows "accept_measure pending tasks s' < accept_measure pending tasks s"
proof -
  obtain sel s1 where sel: "select_conn ops s = (sel, s1)" by fastforce
  note p = select_conn_pending [OF ok(2) sel] and e = conjunct1 [OF select_conn_effect [OF ok(1) sel]]
  from t sel consider i where "sel = Ready (Return (NewIncoming i))" "s' = s1\<lparr>qa_tasks := ao_spawn ops i (qa_tasks s1)\<rparr>"
    | x where "sel = Ready (Return (ConnErr x))" "s' = s1"
    by (auto simp: quinn_accept_turn_def split: poll.splits outcome.splits SelectOutputConn.splits)
  then show ?thesis
  proof cases
    case 1
    with p e joinset_spawn [OF ok(1)] show ?thesis by (simp add: accept_measure_def select_effect_def)
  next
    case 2
    with p e show ?thesis by (auto simp: accept_measure_def select_effect_def)
  qed
qed

lemma quinn_accept_unfold:
  "quinn_accept ops s =
     (case quinn_accept_turn ops s of (Some res, s') \<Rightarrow> Some (res, s') | (None, s') \<Rightarrow> quinn_accept ops s')"
  by (rule quinn_accept.simps)

lemma turn_result:
  assumes "joinset_ok ops run tasks" "quinn_accept_turn ops s = (Some res, s')"
  shows "\<exists>r. res = Return r \<and> (\<forall>e. r \<noteq> Ready (Err e))"
proof -
  obtain sel s1 where sel: "select_conn ops s = (sel, s1)" by fastforce
  from select_conn_effect [OF assms(1) sel] assms(2) sel show ?thesis
    by (auto simp: quinn_accept_turn_def split: poll.splits outcome.splits SelectOutputConn.splits)
qed

section \<open>The other backends\<close>

record 'ep H3S2nAcceptor =
  sa_ep :: 'ep

definition H3S2nAcceptor_new :: "'ep \<Rightarrow> 'ep H3S2nAcceptor" where
  "H3S2nAcceptor_new ep = \<lparr>sa_ep = ep\<rparr>"

definition s2n_accept ::
  "('ep \<Rightarrow> 'q option poll \<times> 'ep) \<Rightarrow> ('q \<Rightarrow> 'c) \<Rightarrow> 'ep H3S2nAcceptor \<Rightarrow> ('x + 'c option) poll \<times> 'ep H3S2nAcceptor" where
  "s2n_accept poll_accept conn_new s =
     (case poll_accept (sa_ep s) of
        (Pending, ep) \<Rightarrow> (Pending, s\<lparr>sa_ep := ep\<rparr>)
      | (Ready None, ep) \<Rightarrow> (Ready (Ok None), s\<lparr>sa_ep := ep\<rparr>)
      | (Ready (Some conn), ep) \<Rightarrow> (Ready (Ok (Some (conn_new conn))), s\<lparr>sa_ep := ep\<rparr>))"

record 'ka H3QuicheAcceptor =
  ka_inner :: 'ka

text \<open>\<open>bind\<close> gives one acceptor per socket; the last one is popped.\<close>

definition H3QuicheAcceptor_new ::
  "('sock list \<Rightarrow> 'cfg \<Rightarrow> 'x + 'ka list) \<Rightarrow> 'sock \<Rightarrow> 'cfg \<Rightarrow> ('se, 'x) error + 'ka H3QuicheAcceptor" where
  "H3QuicheAcceptor_new bind socket config =
     (case bind [socket] config of
        Err e \<Rightarrow> Err (Foreign e)
      | Ok acceptors \<Rightarrow>
          (if acceptors = [] then Err (Msg ''quiche_h3::H3QuicheAcceptor::bind returned no acceptor'')
           else Ok \<lparr>ka_inner = last acceptors\<rparr>))"

definition quiche_endpoint :: "('ka \<Rightarrow> 'kep) \<Rightarrow> 'ka H3QuicheAcceptor \<Rightarrow> 'kep" where
  "quiche_endpoint endpoint s = endpoint (ka_inner s)"

definition quiche_accept ::
  "('ka \<Rightarrow> ('x + 'c option) poll \<times> 'ka) \<Rightarrow> 'ka H3QuicheAcceptor \<Rightarrow> ('x + 'c option) poll \<times> 'ka H3QuicheAcceptor" where
  "quiche_accept inner_accept s =
     (case inner_accept (ka_inner s) of (r, inner) \<Rightarrow> (r, s\<lparr>ka_inner := inner\<rparr>))"

text \<open>
  The msquic listener is shared behind a mutex, here an address in a store of listeners, so that a
  clone of the acceptor can shut it down. A lock that is held makes the poll pending.
\<close>

record H3MsQuicAcceptor =
  ma_ep :: nat

record 'l mutex_store =
  mx_value :: "nat \<Rightarrow> 'l"
  mx_held :: "nat \<Rightarrow> bool"
  mx_next :: nat

definition H3MsQuicAcceptor_new :: "'l \<Rightarrow> 'l mutex_store \<Rightarrow> H3MsQuicAcceptor \<times> 'l mutex_store" where
  "H3MsQuicAcceptor_new inner m =
     (\<lparr>ma_ep = mx_next m\<rparr>,
      m\<lparr>mx_value := (mx_value m)(mx_next m := inner), mx_held := (mx_held m)(mx_next m := False),
        mx_next := Suc (mx_next m)\<rparr>)"

text \<open>
  A poll of \<open>lock().await\<close> followed by a poll of the operation under the lock; \<open>mine\<close> tells that this
  future already holds the lock. The guard is dropped when the operation completes.
\<close>

definition locked ::
  "('l \<Rightarrow> 'a poll \<times> 'l) \<Rightarrow> nat \<Rightarrow> bool \<Rightarrow> 'l mutex_store \<Rightarrow> 'a poll \<times> bool \<times> 'l mutex_store" where
  "locked oper a mine m =
     (if mx_held m a \<and> \<not> mine then (Pending, False, m)
      else
        (case oper (mx_value m a) of
           (Pending, l) \<Rightarrow> (Pending, True, m\<lparr>mx_value := (mx_value m)(a := l), mx_held := (mx_held m)(a := True)\<rparr>)
         | (Ready r, l) \<Rightarrow> (Ready r, False, m\<lparr>mx_value := (mx_value m)(a := l), mx_held := (mx_held m)(a := False)\<rparr>)))"

definition msquic_shutdown where
  "msquic_shutdown listener_shutdown s mine m = locked listener_shutdown (ma_ep s) mine m"

definition msquic_accept where
  "msquic_accept from listener_accept s mine m =
     (case locked listener_accept (ma_ep s) mine m of
        (Pending, mine', m') \<Rightarrow> (Pending, mine', m')
      | (Ready (Err e), mine', m') \<Rightarrow> (Ready (Err (from e)), mine', m')
      | (Ready (Ok conn), mine', m') \<Rightarrow> (Ready (Ok conn), mine', m'))"

text \<open>Dropping the future drops the guard.\<close>

definition unlock :: "nat \<Rightarrow> bool \<Rightarrow> 'l mutex_store \<Rightarrow> 'l mutex_store" where
  "unlock a mine m = (if mine then m\<lparr>mx_held := (mx_held m)(a := False)\<rparr> else m)"

section \<open>The contract of an acceptor\<close>

text \<open>
  What the server relies on of an \<open>H3Acceptor\<close>: \<open>offered\<close> are the connections it will hand out, in
  order. It hands each out once, reports its end only when none is left, and keeps them otherwise.
\<close>

locale h3_acceptor =
  fixes accept :: "'a \<Rightarrow> ('x + 'c option) poll \<times> 'a"
    and inv :: "'a \<Rightarrow> bool"
    and offered :: "'a \<Rightarrow> 'c list"
  assumes accept_pending: "inv a \<Longrightarrow> accept a = (Pending, a') \<Longrightarrow> inv a' \<and> offered a' = offered a"
    and accept_conn: "inv a \<Longrightarrow> accept a = (Ready (Ok (Some c)), a') \<Longrightarrow> inv a' \<and> offered a = c # offered a'"
    and accept_end: "inv a \<Longrightarrow> accept a = (Ready (Ok None), a') \<Longrightarrow> offered a = [] \<and> offered a' = []"
    and accept_error: "inv a \<Longrightarrow> accept a = (Ready (Err e), a') \<Longrightarrow> offered a' = offered a"

text \<open>What s2n-quic promises of its server endpoint, and the bridge crate of its acceptor.\<close>

definition s2n_endpoint_ok :: "('ep \<Rightarrow> 'q option poll \<times> 'ep) \<Rightarrow> ('ep \<Rightarrow> 'q list) \<Rightarrow> bool" where
  "s2n_endpoint_ok poll_accept conns \<longleftrightarrow> (\<forall>ep. case poll_accept ep of
       (Pending, ep') \<Rightarrow> conns ep' = conns ep
     | (Ready (Some q), ep') \<Rightarrow> conns ep = q # conns ep'
     | (Ready None, ep') \<Rightarrow> conns ep = [] \<and> conns ep' = [])"

definition quiche_acceptor_ok :: "('ka \<Rightarrow> ('x + 'c option) poll \<times> 'ka) \<Rightarrow> ('ka \<Rightarrow> 'c list) \<Rightarrow> bool" where
  "quiche_acceptor_ok inner_accept conns \<longleftrightarrow> (\<forall>k. case inner_accept k of
       (Pending, k') \<Rightarrow> conns k' = conns k
     | (Ready (Ok (Some c)), k') \<Rightarrow> conns k = c # conns k'
     | (Ready (Ok None), k') \<Rightarrow> conns k = [] \<and> conns k' = []
     | (Ready (Err e), k') \<Rightarrow> conns k' = conns k)"

lemma s2n_accept_facts:
  assumes "s2n_endpoint_ok poll_accept conns" "s2n_accept poll_accept conn_new a = (r, a')"
  shows "case r of
       Pending \<Rightarrow> conns (sa_ep a') = conns (sa_ep a)
     | Ready (Ok (Some c)) \<Rightarrow> map conn_new (conns (sa_ep a)) = c # map conn_new (conns (sa_ep a'))
     | Ready (Ok None) \<Rightarrow> conns (sa_ep a) = [] \<and> conns (sa_ep a') = []
     | Ready (Err e) \<Rightarrow> conns (sa_ep a') = conns (sa_ep a)"
proof -
  obtain x ep where x: "poll_accept (sa_ep a) = (x, ep)" by fastforce
  show ?thesis
    using spec [OF assms(1) [unfolded s2n_endpoint_ok_def], of "sa_ep a"] assms(2) x
    by (auto simp: s2n_accept_def split: poll.splits option.splits)
qed

interpretation s2a: h3_acceptor "s2n_accept poll_accept conn_new"
  "\<lambda>a. s2n_endpoint_ok poll_accept conns" "\<lambda>a. map conn_new (conns (sa_ep a))"
  for poll_accept :: "'ep \<Rightarrow> 'q option poll \<times> 'ep" and conn_new :: "'q \<Rightarrow> 'c" and conns
  by unfold_locales (auto dest: s2n_accept_facts [of poll_accept conns conn_new])

lemma quiche_accept_facts:
  assumes "quiche_acceptor_ok inner_accept conns" "quiche_accept inner_accept a = (r, a')"
  shows "case r of
       Pending \<Rightarrow> conns (ka_inner a') = conns (ka_inner a)
     | Ready (Ok (Some c)) \<Rightarrow> conns (ka_inner a) = c # conns (ka_inner a')
     | Ready (Ok None) \<Rightarrow> conns (ka_inner a) = [] \<and> conns (ka_inner a') = []
     | Ready (Err e) \<Rightarrow> conns (ka_inner a') = conns (ka_inner a)"
proof -
  obtain x k where x: "inner_accept (ka_inner a) = (x, k)" by fastforce
  show ?thesis
    using spec [OF assms(1) [unfolded quiche_acceptor_ok_def], of "ka_inner a"] assms(2) x
    by (auto simp: quiche_accept_def split: poll.splits option.splits sum.splits)
qed

interpretation kaa: h3_acceptor "quiche_accept inner_accept"
  "\<lambda>a. quiche_acceptor_ok inner_accept conns" "\<lambda>a. conns (ka_inner a)"
  for inner_accept :: "'ka \<Rightarrow> ('x + 'c option) poll \<times> 'ka" and conns
  by unfold_locales (auto dest: quiche_accept_facts [of inner_accept conns])

section \<open>Properties\<close>

text \<open>Incoming connections are numbers; the handshake of 0 fails.\<close>

definition sample_accept :: "(nat list, nat, nat list, nat, nat, bool) accept_ops" where
  "sample_accept = \<lparr>ao_poll_accept = (\<lambda>ep. case ep of [] \<Rightarrow> (Pending, []) | i # is \<Rightarrow> (Ready (Some i), is)),
     ao_is_empty = (\<lambda>js. js = []), ao_spawn = (\<lambda>i js. js @ [i]),
     ao_poll_join = (\<lambda>js. case js of [] \<Rightarrow> (Ready None, [])
        | i # is \<Rightarrow> (Ready (Some (Ok (if i = 0 then Err 1 else Ok i))), is)),
     ao_flip = (\<lambda>b. (b, \<not> b))\<rparr>"

definition sample_run :: "nat \<Rightarrow> nat + nat" where
  "sample_run i = (if i = 0 then Err 1 else Ok i)"

lemma sample_joinset: "joinset_ok sample_accept sample_run mset"
  by (auto simp: joinset_ok_def sample_accept_def sample_run_def split: list.splits)

lemma sample_endpoint: "endpoint_ok sample_accept length"
  by (auto simp: endpoint_ok_def sample_accept_def split: list.splits)

text \<open>
  C28: the quinn accept loop ends its poll, never panics and never fails. When the endpoint holds
  finitely many incoming connections, a poll of \<open>accept\<close> comes to a result; the expectation that a
  non-empty task set has a next task holds; and no handshake failure is ever passed on as an error,
  so one bad client cannot stop the server.
\<close>

theorem quinn_accept_total:
  assumes "joinset_ok ops run tasks" "endpoint_ok ops pending"
  shows "\<exists>r s'. quinn_accept ops s = Some (Return r, s') \<and> (\<forall>e. r \<noteq> Ready (Err e))"
proof (induction "accept_measure pending tasks s" arbitrary: s rule: less_induct)
  case less
  obtain o' s' where t: "quinn_accept_turn ops s = (o', s')" by fastforce
  show ?case
  proof (cases o')
    case None
    with t less turn_again_decreases [OF assms] show ?thesis by (subst quinn_accept_unfold) simp
  next
    case (Some res)
    with t turn_result [OF assms(1)] show ?thesis by (subst quinn_accept_unfold) fastforce
  qed
qed

theorem quinn_accept_total_witness:
  "\<exists>r s'. quinn_accept sample_accept (H3QuinnAcceptor_new [0, 4] [] True) = Some (Return r, s') \<and>
     (\<forall>e. r \<noteq> Ready (Err e))"
  by (rule quinn_accept_total [OF sample_joinset sample_endpoint])





end
