(* ===== verification/Serve.thy ===== *)
theory Serve
  imports ServerBody ServerIncoming Client Accept
begin

text \<open>
  The server: \<open>is_benign_connection_close\<close> of \<open>h3-util/src/server.rs\<close>, \<open>axum-h3/src/lib.rs\<close> (the
  accept loop, the task of a connection, the task of a request) and the router of
  \<open>tonic-h3/src/server.rs\<close>.
\<close>

section \<open>Benign ends of a connection\<close>

text \<open>
  h3's \<open>ConnectionError\<close> as far as the function looks: whether \<open>is_h3_no_error\<close> holds, and for a
  remote error of undefined kind, the quinn error found by the downcast, if any. A quinn error is
  \<open>ConnectionClosed\<close> with a transport code, or something else.
\<close>

datatype quinn_error = ConnectionClosed "64 word" | QuinnOther

datatype connection_error = Remote_undefined bool "quinn_error option" | ConnOther bool

fun is_h3_no_error :: "connection_error \<Rightarrow> bool" where
  "is_h3_no_error (Remote_undefined b _) = b"
| "is_h3_no_error (ConnOther b) = b"

definition TransportErrorCode_NO_ERROR :: "64 word" where
  "TransportErrorCode_NO_ERROR = 0"

text \<open>\<open>quinn\<close> tells whether the feature is compiled in.\<close>

definition is_benign_connection_close :: "bool \<Rightarrow> connection_error \<Rightarrow> bool" where
  "is_benign_connection_close quinn e =
     (if is_h3_no_error e then True
      else
        (case (quinn, e) of
           (True, Remote_undefined _ (Some quinn_error)) \<Rightarrow>
             (case quinn_error of
                ConnectionClosed code \<Rightarrow> code = TransportErrorCode_NO_ERROR
              | QuinnOther \<Rightarrow> False)
         | _ \<Rightarrow> False))"

section \<open>Serving a request\<close>

text \<open>
  The external operations of a request: the resolver, splitting the stream, the service, sending
  the response head, and the operations of the body sender on the send half.
\<close>

record ('rs, 'rq, 'st, 's, 'r, 'sf, 'hd, 'b, 'h, 'se, 'x) serve_ops =
  vo_poll_resolve :: "'rs \<Rightarrow> ('se + 'rq \<times> 'st) poll \<times> 'rs"
  vo_split :: "'st \<Rightarrow> 's \<times> 'r"
  vo_service_call :: "'rq \<Rightarrow> 'r H3IncomingServer \<Rightarrow> 'sf"
  vo_poll_service :: "'sf \<Rightarrow> ('hd \<times> 'b) poll \<times> 'sf"
  vo_poll_send_response :: "'hd \<Rightarrow> 's \<Rightarrow> ('se + unit) poll \<times> 's"
  vo_body :: "('b, 'h, 's, 'se, 'x) body_ops"

text \<open>
  The suspension points of the task of a request: resolving it; in \<open>serve_request\<close>, waiting for the
  service (the error type is \<open>Infallible\<close>), for the head to be sent, and for the body sender. A task
  that is over has dropped the send half if it had one.
\<close>

datatype ('rs, 's, 'sf, 'hd, 'b, 'h, 'se, 'x) serve_fut =
    SR_resolve 'rs
  | SR_call 's 'sf
  | SR_head 's 'hd 'b
  | SR_body "('b, 'h, 's, 'se, 'x) server_body_fut"
  | SR_done "'s option" "('se, 'x) error + unit"

definition serve_exit where
  "serve_exit ops w res = (Complete, SR_done (Some (bo_drop_stream (vo_body ops) w)) res)"

text \<open>A step is a poll of the awaited future, with what follows it up to the next one.\<close>

fun serve_step ::
  "('rs, 'rq, 'st, 's, 'r, 'sf, 'hd, 'b, 'h, 'se, 'x) serve_ops \<Rightarrow>
   ('rs, 's, 'sf, 'hd, 'b, 'h, 'se, 'x) serve_fut \<Rightarrow>
   flow \<times> ('rs, 's, 'sf, 'hd, 'b, 'h, 'se, 'x) serve_fut" where
  "serve_step ops (SR_resolve rs) =
     (case vo_poll_resolve ops rs of
        (Pending, rs') \<Rightarrow> (Yield, SR_resolve rs')
      | (Ready (Err e), rs') \<Rightarrow> (Complete, SR_done None (Err (StreamErr e)))
      | (Ready (Ok (parts, stream)), rs') \<Rightarrow>
          (case vo_split ops stream of
             (w, r) \<Rightarrow> (Again, SR_call w (vo_service_call ops parts (H3IncomingServer_new r)))))"
| "serve_step ops (SR_call w fut) =
     (case vo_poll_service ops fut of
        (Pending, fut') \<Rightarrow> (Yield, SR_call w fut')
      | (Ready (res_h, res_b), fut') \<Rightarrow> (Again, SR_head w res_h res_b))"
| "serve_step ops (SR_head w res_h res_b) =
     (case vo_poll_send_response ops res_h w of
        (Pending, w') \<Rightarrow> (Yield, SR_head w' res_h res_b)
      | (Ready (Err e), w') \<Rightarrow> serve_exit ops w' (Err (StreamErr e))
      | (Ready (Ok _), w') \<Rightarrow> (Again, SR_body (send_h3_server_body w' res_b)))"
| "serve_step ops (SR_body f) =
     (case server_body_step (vo_body ops) f of
        (Again, f') \<Rightarrow> (Again, SR_body f')
      | (Yield, f') \<Rightarrow> (Yield, SR_body f')
      | (Complete, SB_done w res) \<Rightarrow> serve_exit ops w res
      | (Complete, SB_running g b pc) \<Rightarrow> (Again, SR_body (SB_running g b pc)))"
| "serve_step ops (SR_done w res) = (Complete, SR_done w res)"

text \<open>Dropping the task at any moment drops the body sender, then the send half.\<close>

fun serve_drop where
  "serve_drop ops (SR_resolve rs) = None"
| "serve_drop ops (SR_call w fut) = Some (bo_drop_stream (vo_body ops) w)"
| "serve_drop ops (SR_head w res_h res_b) = Some (bo_drop_stream (vo_body ops) w)"
| "serve_drop ops (SR_body f) = Some (bo_drop_stream (vo_body ops) (server_body_drop (vo_body ops) f))"
| "serve_drop ops (SR_done w res) = w"

section \<open>A response is complete or visibly broken\<close>

text \<open>
  What is relied on beside the contract of the body sender: splitting gives a send half with no
  FIN and no body frame on it, and sending the head neither ends the stream nor counts as one.
\<close>

definition serve_ok where
  "serve_ok ops status sent frames \<longleftrightarrow>
     ops_ok (vo_body ops) status sent frames \<and>
     (\<forall>st w r. vo_split ops st = (w, r) \<longrightarrow> status w \<noteq> Send_fin \<and> sent w = []) \<and>
     (\<forall>rh w r w'. vo_poll_send_response ops rh w = (r, w') \<longrightarrow>
        (status w \<noteq> Send_fin \<longrightarrow> status w' \<noteq> Send_fin) \<and> sent w' = sent w)"

lemma serve_ok_split: "serve_ok ops status sent frames \<Longrightarrow> vo_split ops st = (w, r) \<Longrightarrow> status w \<noteq> Send_fin \<and> sent w = []"
  and serve_ok_head: "serve_ok ops status sent frames \<Longrightarrow> vo_poll_send_response ops rh w = (x, w') \<Longrightarrow>
    (status w \<noteq> Send_fin \<longrightarrow> status w' \<noteq> Send_fin) \<and> sent w' = sent w"
  and serve_ok_body: "serve_ok ops status sent frames \<Longrightarrow> ops_ok (vo_body ops) status sent frames"
  unfolding serve_ok_def by blast+

text \<open>A run of the task, with the response whose head was sent, once there is one.\<close>

fun head_sent where
  "head_sent (SR_head w rh b) (SR_body f) h = Some (rh, b)"
| "head_sent f f' h = h"

inductive serve_run ::
  "('rs, 'rq, 'st, 's, 'r, 'sf, 'hd, 'b, 'h, 'se, 'x) serve_ops \<Rightarrow> 'rs \<Rightarrow> ('hd \<times> 'b) option \<Rightarrow>
   ('rs, 's, 'sf, 'hd, 'b, 'h, 'se, 'x) serve_fut \<Rightarrow> bool" for ops rs where
  sv_start: "serve_run ops rs None (SR_resolve rs)"
| sv_step: "serve_run ops rs h f \<Longrightarrow> serve_step ops f = (fl, f') \<Longrightarrow> serve_run ops rs (head_sent f f' h) f'"

fun serve_inv where
  "serve_inv ops status sent frames h (SR_resolve rs) \<longleftrightarrow> h = None"
| "serve_inv ops status sent frames h (SR_call w fut) \<longleftrightarrow> h = None \<and> status w \<noteq> Send_fin \<and> sent w = []"
| "serve_inv ops status sent frames h (SR_head w rh b) \<longleftrightarrow> h = None \<and> status w \<noteq> Send_fin \<and> sent w = []"
| "serve_inv ops status sent frames h (SR_body f) \<longleftrightarrow>
     (\<exists>rh b. h = Some (rh, b) \<and> server_body_inv (vo_body ops) status sent frames (wire_frames (frames b)) f)"
| "serve_inv ops status sent frames h (SR_done w res) \<longleftrightarrow>
     (\<forall>v rh b. w = Some v \<and> h = Some (rh, b) \<and> status v = Send_fin \<longrightarrow>
        res = Ok () \<and> sent v = wire_frames (frames b))"

lemma server_inv_done:
  assumes "server_body_inv ops status sent frames goal (SB_done w res)"
    and "status (bo_drop_stream ops w) = Send_fin"
  shows "res = Ok () \<and> sent (bo_drop_stream ops w) = goal"
  using assms by (cases res) (auto simp: server_body_inv_def)

lemma serve_inv_body:
  assumes ok: "serve_ok ops status sent frames"
    and inv: "server_body_inv (vo_body ops) status sent frames (wire_frames (frames b)) g"
    and st: "serve_step ops (SR_body g) = (fl, f')"
  shows "serve_inv ops status sent frames (Some (rh, b)) f'"
proof -
  obtain fl1 g' where g: "server_body_step (vo_body ops) g = (fl1, g')" by fastforce
  have k: "server_body_inv (vo_body ops) status sent frames (wire_frames (frames b)) g'"
  proof (cases g)
    case (SB_running gd bd pc)
    with g have "server_body_moves (vo_body ops) g g'" by (auto intro: server_body_moves.intros)
    with inv show ?thesis by (rule sb.inv_step)
  next
    case (SB_done w res)
    with g inv show ?thesis by simp
  qed
  show ?thesis
  proof (cases fl1)
    case Complete
    with g st k show ?thesis
      by (cases g') (auto simp: serve_exit_def dest: server_inv_done)
  qed (use g st k in auto)
qed

lemma serve_inv_step:
  assumes ok: "serve_ok ops status sent frames" and inv: "serve_inv ops status sent frames h f"
    and st: "serve_step ops f = (fl, f')"
  shows "serve_inv ops status sent frames (head_sent f f' h) f'"
proof (cases f)
  case (SR_resolve rs)
  with inv st serve_ok_split [OF ok] show ?thesis
    by (auto split: prod.splits poll.splits sum.splits)
next
  case (SR_call w fut)
  with inv st show ?thesis by (auto split: prod.splits poll.splits)
next
  case (SR_head w rh b)
  obtain r w' where r: "vo_poll_send_response ops rh w = (r, w')" by fastforce
  have w: "status w' \<noteq> Send_fin" "sent w' = []" using serve_ok_head [OF ok r] inv SR_head by simp_all
  show ?thesis
  proof (cases "r = Ready (Ok ())")
    case True
    with st r SR_head have f': "f' = SR_body (send_h3_server_body w' b)" by simp
    have "server_body_inv (vo_body ops) status sent frames (wire_frames (frames b)) (send_h3_server_body w' b)"
      by (rule sb.inv_init) (use w serve_ok_body [OF ok] in \<open>auto simp: server_body_init_def\<close>)
    with f' SR_head show ?thesis by simp
  next
    case False
    with st r SR_head w inv show ?thesis by (auto simp: serve_exit_def split: poll.splits sum.splits)
  qed
next
  case (SR_body g)
  with inv obtain rh b where h: "h = Some (rh, b)"
    and k: "server_body_inv (vo_body ops) status sent frames (wire_frames (frames b)) g" by auto
  from serve_inv_body [OF ok k st [unfolded SR_body]] SR_body h show ?thesis by simp
next
  case (SR_done w res)
  with inv st show ?thesis by auto
qed

lemma serve_run_inv:
  assumes "serve_run ops rs h f" "serve_ok ops status sent frames"
  shows "serve_inv ops status sent frames h f"
  using assms by (induction rule: serve_run.induct) (auto intro: serve_inv_step)

lemma serve_run_complete:
  assumes "serve_run ops rs (Some (rh, b)) f" "serve_ok ops status sent frames"
    and "serve_drop ops f = Some w" "status w = Send_fin"
  shows "sent w = wire_frames (frames b)"
proof -
  note inv = serve_run_inv [OF assms(1,2)]
  show ?thesis
  proof (cases f)
    case (SR_body g)
    with inv have k: "server_body_inv (vo_body ops) status sent frames (wire_frames (frames b)) g" by simp
    with SR_body assms(3,4) have fin: "status (bo_drop_stream (vo_body ops) (server_body_drop (vo_body ops) g)) = Send_fin"
      "w = bo_drop_stream (vo_body ops) (server_body_drop (vo_body ops) g)" by simp_all
    show ?thesis
    proof (cases g)
      case (SB_done v res)
      with k have "server_body_inv (vo_body ops) status sent frames (wire_frames (frames b)) (SB_done v res)" by simp
      from server_inv_done [OF this] fin SB_done show ?thesis by simp
    next
      case (SB_running gd bd pc)
      then have "client_body_held (as_client_fut (vo_body ops) g) = Some (guard_w gd)" by simp
      from sb.running_left [OF k this] fin show ?thesis by (auto split: if_splits)
    qed
  qed (use inv assms(3,4) in auto)
qed

section \<open>The task of a connection\<close>

text \<open>
  The HTTP/3 handshake, then a loop that spawns a task for every request. Log lines are kept, since
  the kind of a connection's end decides only how it is logged.
\<close>

record ('nf, 'hc, 'rs) conn_task_ops =
  to_poll_new :: "'nf \<Rightarrow> (connection_error + 'hc) poll \<times> 'nf"
  to_poll_accept :: "'hc \<Rightarrow> (connection_error + 'rs option) poll \<times> 'hc"
  to_quinn :: bool

datatype ('nf, 'hc) conn_task = CT_new 'nf | CT_accept 'hc | CT_done

datatype 'rs conn_effect = Spawn_request 'rs | Log_warn | Log_trace

fun conn_task_step ::
  "('nf, 'hc, 'rs) conn_task_ops \<Rightarrow> ('nf, 'hc) conn_task \<Rightarrow> flow \<times> ('nf, 'hc) conn_task \<times> 'rs conn_effect list" where
  "conn_task_step ops (CT_new nf) =
     (case to_poll_new ops nf of
        (Pending, nf') \<Rightarrow> (Yield, CT_new nf', [])
      | (Ready (Err e), nf') \<Rightarrow> (Complete, CT_done, [Log_warn])
      | (Ready (Ok c), nf') \<Rightarrow> (Again, CT_accept c, []))"
| "conn_task_step ops (CT_accept conn) =
     (case to_poll_accept ops conn of
        (Pending, conn') \<Rightarrow> (Yield, CT_accept conn', [])
      | (Ready (Ok (Some r)), conn') \<Rightarrow> (Again, CT_accept conn', [Spawn_request r])
      | (Ready (Ok None), conn') \<Rightarrow> (Complete, CT_done, [Log_trace])
      | (Ready (Err e), conn') \<Rightarrow>
          (Complete, CT_done, [if is_benign_connection_close (to_quinn ops) e then Log_trace else Log_warn]))"
| "conn_task_step ops CT_done = (Complete, CT_done, [])"

text \<open>The task as it is spawned for an accepted connection: \<open>h3::server::Connection::new(conn)\<close>.\<close>

definition conn_task_start :: "('c \<Rightarrow> 'nf) \<Rightarrow> 'c \<Rightarrow> ('nf, 'hc) conn_task" where
  "conn_task_start h3_server_new conn = CT_new (h3_server_new conn)"

section \<open>The accept loop\<close>

record ('ac, 'c, 'sig, 'g, 'x) loop_ops =
  lo_accept :: "'ac \<Rightarrow> ('x + 'c option) poll \<times> 'ac"
  lo_poll_signal :: "'sig \<Rightarrow> bool \<times> 'sig"
  lo_flip :: "'g \<Rightarrow> bool \<times> 'g"

datatype ('c, 'x) loop_event = Accepted "'x + 'c option" | Signalled

record ('ac, 'sig, 'g) serve_loop =
  sl_acceptor :: 'ac
  sl_sig :: 'sig
  sl_rng :: 'g

definition loop_accept ::
  "('ac, 'c, 'sig, 'g, 'x) loop_ops \<Rightarrow> ('ac, 'sig, 'g) serve_loop \<Rightarrow> ('c, 'x) loop_event poll \<times> ('ac, 'sig, 'g) serve_loop" where
  "loop_accept ops s =
     (case lo_accept ops (sl_acceptor s) of
        (Pending, ac) \<Rightarrow> (Pending, s\<lparr>sl_acceptor := ac\<rparr>)
      | (Ready r, ac) \<Rightarrow> (Ready (Accepted r), s\<lparr>sl_acceptor := ac\<rparr>))"

definition loop_signal ::
  "('ac, 'c, 'sig, 'g, 'x) loop_ops \<Rightarrow> ('ac, 'sig, 'g) serve_loop \<Rightarrow> ('c, 'x) loop_event poll \<times> ('ac, 'sig, 'g) serve_loop" where
  "loop_signal ops s =
     (case lo_poll_signal ops (sl_sig s) of
        (False, sg) \<Rightarrow> (Pending, s\<lparr>sl_sig := sg\<rparr>)
      | (True, sg) \<Rightarrow> (Ready Signalled, s\<lparr>sl_sig := sg\<rparr>))"

definition loop_select ::
  "('ac, 'c, 'sig, 'g, 'x) loop_ops \<Rightarrow> ('ac, 'sig, 'g) serve_loop \<Rightarrow> ('c, 'x) loop_event poll \<times> ('ac, 'sig, 'g) serve_loop" where
  "loop_select ops s =
     (case lo_flip ops (sl_rng s) of (accept_first, g) \<Rightarrow>
        let s = s\<lparr>sl_rng := g\<rparr>;
            a = (if accept_first then loop_accept else loop_signal);
            b = (if accept_first then loop_signal else loop_accept) in
        (case a ops s of
           (Ready ev, s') \<Rightarrow> (Ready ev, s')
         | (Pending, s') \<Rightarrow> b ops s'))"

text \<open>
  One turn of the loop of \<open>serve_inner\<close>: the result when the function returns or the poll is pending,
  and the connection for which a task was handed to the executor.
\<close>

definition serve_inner_turn ::
  "('ac, 'c, 'sig, 'g, 'x) loop_ops \<Rightarrow> ('ac, 'sig, 'g) serve_loop \<Rightarrow>
   ('x + unit) poll option \<times> 'c list \<times> ('ac, 'sig, 'g) serve_loop" where
  "serve_inner_turn ops s =
     (case loop_select ops s of
        (Pending, s') \<Rightarrow> (Some Pending, [], s')
      | (Ready (Accepted (Err e)), s') \<Rightarrow> (Some (Ready (Err e)), [], s')
      | (Ready Signalled, s') \<Rightarrow> (Some (Ready (Ok ())), [], s')
      | (Ready (Accepted (Ok None)), s') \<Rightarrow> (Some (Ready (Ok ())), [], s')
      | (Ready (Accepted (Ok (Some conn))), s') \<Rightarrow> (None, [conn], s'))"

partial_function (option) serve_inner ::
  "('ac, 'c, 'sig, 'g, 'x) loop_ops \<Rightarrow> ('ac, 'sig, 'g) serve_loop \<Rightarrow> 'c list \<Rightarrow>
   (('x + unit) poll \<times> 'c list \<times> ('ac, 'sig, 'g) serve_loop) option" where
  "serve_inner ops s spawned =
     (case serve_inner_turn ops s of
        (Some res, cs, s') \<Rightarrow> Some (res, spawned @ cs, s')
      | (None, cs, s') \<Rightarrow> serve_inner ops s' (spawned @ cs))"

section \<open>The routers\<close>

text \<open>
  \<open>axum_h3::H3Router\<close>. Serving starts \<open>serve_inner\<close> on the acceptor and the signal; \<open>serve\<close> passes a
  signal that is forever pending.
\<close>

record ('app, 'ex) H3Router =
  hr_inner :: 'app
  hr_executor :: "'ex SharedExec"

definition H3Router_new :: "'ex \<Rightarrow> 'app \<Rightarrow> ('app, 'ex) H3Router" where
  "H3Router_new tokio inner = \<lparr>hr_inner = inner, hr_executor = SharedExec_tokio tokio\<rparr>"

definition H3Router_from :: "'ex \<Rightarrow> 'app \<Rightarrow> ('app, 'ex) H3Router" where
  "H3Router_from tokio app = H3Router_new tokio app"

record ('app, 'ex, 'ac, 'sig, 'g) serving =
  sv_svc :: 'app
  sv_executor :: "'ex SharedExec"
  sv_loop :: "('ac, 'sig, 'g) serve_loop"

definition serve_with_shutdown ::
  "('app, 'ex) H3Router \<Rightarrow> 'ac \<Rightarrow> 'sig \<Rightarrow> 'g \<Rightarrow> ('app, 'ex, 'ac, 'sig, 'g) serving" where
  "serve_with_shutdown self acceptor sig g =
     \<lparr>sv_svc = hr_inner self, sv_executor = hr_executor self,
      sv_loop = \<lparr>sl_acceptor = acceptor, sl_sig = sig, sl_rng = g\<rparr>\<rparr>"

definition never_signal :: "unit \<Rightarrow> bool \<times> unit" where
  "never_signal s = (False, s)"

definition serve :: "('app, 'ex) H3Router \<Rightarrow> 'ac \<Rightarrow> 'g \<Rightarrow> ('app, 'ex, 'ac, unit, 'g) serving" where
  "serve self acceptor g = serve_with_shutdown self acceptor () g"

text \<open>\<open>tonic_h3::server::H3Router\<close> wraps the routes of tonic and serves them through axum.\<close>

record 'routes TonicH3Router =
  tr_routes :: 'routes

definition TonicH3Router_new :: "'routes \<Rightarrow> 'routes TonicH3Router" where
  "TonicH3Router_new routes = \<lparr>tr_routes = routes\<rparr>"

definition tonic_serve_with_shutdown ::
  "('routes \<Rightarrow> 'app) \<Rightarrow> 'ex \<Rightarrow> 'routes TonicH3Router \<Rightarrow> 'ac \<Rightarrow> 'sig \<Rightarrow> 'g \<Rightarrow> ('app, 'ex, 'ac, 'sig, 'g) serving" where
  "tonic_serve_with_shutdown into_axum_router tokio self acceptor sig g =
     (let axum_router = H3Router_from tokio (into_axum_router (tr_routes self)) in
      serve_with_shutdown axum_router acceptor sig g)"

definition tonic_serve ::
  "('routes \<Rightarrow> 'app) \<Rightarrow> 'ex \<Rightarrow> 'routes TonicH3Router \<Rightarrow> 'ac \<Rightarrow> 'g \<Rightarrow> ('app, 'ex, 'ac, unit, 'g) serving" where
  "tonic_serve into_axum_router tokio self acceptor g =
     tonic_serve_with_shutdown into_axum_router tokio self acceptor () g"

section \<open>The loop over an acceptor\<close>

lemma serve_inner_unfold:
  "serve_inner ops s sp =
     (case serve_inner_turn ops s of
        (Some res, cs, s') \<Rightarrow> Some (res, sp @ cs, s')
      | (None, cs, s') \<Rightarrow> serve_inner ops s' (sp @ cs))"
  by (rule serve_inner.simps)

text \<open>A signal fires when one of the polls of it, in a row, is ready.\<close>

definition fires :: "('sig \<Rightarrow> bool \<times> 'sig) \<Rightarrow> 'sig \<Rightarrow> bool" where
  "fires poll_signal g \<longleftrightarrow> (\<exists>n. fst (poll_signal (((\<lambda>g. snd (poll_signal g)) ^^ n) g)))"

lemma fires_now: "poll_signal g = (True, g') \<Longrightarrow> fires poll_signal g"
  unfolding fires_def by (rule exI [of _ 0]) simp

lemma fires_later:
  assumes "poll_signal g = (b, g')" "fires poll_signal g'"
  shows "fires poll_signal g"
proof -
  from assms(2) obtain n where "fst (poll_signal (((\<lambda>g. snd (poll_signal g)) ^^ n) g'))" by (auto simp: fires_def)
  then have "fst (poll_signal (((\<lambda>g. snd (poll_signal g)) ^^ Suc n) g))"
    using assms(1) by (simp add: funpow_Suc_right del: funpow.simps)
  then show ?thesis unfolding fires_def by blast
qed

lemma never_signal_never_fires: "\<not> fires never_signal g"
  by (simp add: fires_def never_signal_def)

lemma loop_signal_fires:
  "loop_signal ops s = (r, s') \<Longrightarrow> (r = Pending \<or> r = Ready Signalled \<and> fires (lo_poll_signal ops) (sl_sig s)) \<and>
     sl_acceptor s' = sl_acceptor s \<and>
     (fires (lo_poll_signal ops) (sl_sig s') \<longrightarrow> fires (lo_poll_signal ops) (sl_sig s))"
  by (auto simp: loop_signal_def split: prod.splits bool.splits intro: fires_now fires_later)

lemma loop_accept_sig: "loop_accept ops s = (r, s') \<Longrightarrow> sl_sig s' = sl_sig s \<and> r \<noteq> Ready Signalled"
  by (auto simp: loop_accept_def split: prod.splits poll.splits)

lemma loop_select_fires:
  assumes "loop_select ops s = (r, s')"
  shows "(r = Ready Signalled \<longrightarrow> fires (lo_poll_signal ops) (sl_sig s)) \<and>
     (fires (lo_poll_signal ops) (sl_sig s') \<longrightarrow> fires (lo_poll_signal ops) (sl_sig s))"
  using assms
  by (fastforce simp: loop_select_def Let_def split: prod.splits poll.splits if_splits
      dest: loop_signal_fires loop_accept_sig)

context h3_acceptor
begin

text \<open>What a selection leaves of the acceptor.\<close>

lemma loop_select_facts:
  assumes inv: "inv (sl_acceptor s)" and ac: "lo_accept ops = accept" and sel: "loop_select ops s = (r, s')"
  shows "case r of
       Pending \<Rightarrow> inv (sl_acceptor s') \<and> offered (sl_acceptor s') = offered (sl_acceptor s)
     | Ready (Accepted (Ok (Some c))) \<Rightarrow> inv (sl_acceptor s') \<and> offered (sl_acceptor s) = c # offered (sl_acceptor s')
     | Ready (Accepted (Ok None)) \<Rightarrow> offered (sl_acceptor s) = [] \<and> offered (sl_acceptor s') = []
     | Ready (Accepted (Err e)) \<Rightarrow> offered (sl_acceptor s') = offered (sl_acceptor s)
     | Ready Signalled \<Rightarrow> offered (sl_acceptor s') = offered (sl_acceptor s)"
proof -
  have acc: "case r of
       Pending \<Rightarrow> inv (sl_acceptor t') \<and> offered (sl_acceptor t') = offered (sl_acceptor t)
     | Ready (Accepted (Ok (Some c))) \<Rightarrow> inv (sl_acceptor t') \<and> offered (sl_acceptor t) = c # offered (sl_acceptor t')
     | Ready (Accepted (Ok None)) \<Rightarrow> offered (sl_acceptor t) = [] \<and> offered (sl_acceptor t') = []
     | Ready (Accepted (Err e)) \<Rightarrow> offered (sl_acceptor t') = offered (sl_acceptor t)
     | Ready Signalled \<Rightarrow> False"
    if "inv (sl_acceptor t)" "loop_accept ops t = (r, t')" for t r t'
    using that accept_pending [OF that(1)] accept_conn [OF that(1)] accept_end [OF that(1)] accept_error [OF that(1)]
    by (auto simp: loop_accept_def ac split: prod.splits poll.splits sum.splits option.splits)
  have sig: "sl_acceptor t' = sl_acceptor t \<and> (r = Pending \<or> r = Ready Signalled)"
    if "loop_signal ops t = (r, t')" for t r t'
    using loop_signal_fires [OF that] by auto
  obtain b g where g: "lo_flip ops (sl_rng s) = (b, g)" by fastforce
  let ?s = "s\<lparr>sl_rng := g\<rparr>"
  have i: "inv (sl_acceptor ?s)" using inv by simp
  show ?thesis
  proof (cases b)
    case True
    obtain r1 s1 where 1: "loop_accept ops ?s = (r1, s1)" by fastforce
    show ?thesis
    proof (cases r1)
      case Pending
      with True g sel 1 have "loop_signal ops s1 = (r, s')" by (simp add: loop_select_def)
      with sig acc [OF i 1] Pending show ?thesis by fastforce
    next
      case (Ready x)
      with True g sel 1 have "r = r1" "s' = s1" by (simp_all add: loop_select_def)
      with acc [OF i 1] Ready show ?thesis by (auto split: loop_event.splits sum.splits option.splits)
    qed
  next
    case False
    obtain r1 s1 where 1: "loop_signal ops ?s = (r1, s1)" by fastforce
    show ?thesis
    proof (cases r1)
      case Pending
      with False g sel 1 have l: "loop_accept ops s1 = (r, s')" by (simp add: loop_select_def)
      from sig [OF 1] have "sl_acceptor s1 = sl_acceptor s" by simp
      with acc [OF _ l] inv show ?thesis by (auto split: poll.splits loop_event.splits sum.splits option.splits)
    next
      case (Ready x)
      with False g sel 1 have "r = r1" "s' = s1" by (simp_all add: loop_select_def)
      with sig [OF 1] Ready show ?thesis by auto
    qed
  qed
qed

lemma serve_inner_serves:
  assumes "inv (sl_acceptor s)" "lo_accept ops = accept"
  shows "\<exists>res new s'. serve_inner ops s sp = Some (res, sp @ new, s') \<and>
    offered (sl_acceptor s) = new @ offered (sl_acceptor s') \<and>
    (res = Ready (Ok ()) \<longrightarrow> offered (sl_acceptor s') = [] \<or> fires (lo_poll_signal ops) (sl_sig s))"
  using assms(1)
proof (induction "length (offered (sl_acceptor s))" arbitrary: s sp rule: less_induct)
  case less
  obtain r s1 where sel: "loop_select ops s = (r, s1)" by fastforce
  note f = loop_select_facts [OF less.prems assms(2) sel]
  show ?case
  proof (cases "\<exists>c. r = Ready (Accepted (Ok (Some c)))")
    case True
    then obtain c where r: "r = Ready (Accepted (Ok (Some c)))" ..
    with f have k: "inv (sl_acceptor s1)" "offered (sl_acceptor s) = c # offered (sl_acceptor s1)" by simp_all
    then obtain res new s' where n: "serve_inner ops s1 (sp @ [c]) = Some (res, (sp @ [c]) @ new, s')"
      "offered (sl_acceptor s1) = new @ offered (sl_acceptor s')"
      "res = Ready (Ok ()) \<longrightarrow> offered (sl_acceptor s') = [] \<or> fires (lo_poll_signal ops) (sl_sig s1)"
      using less.hyps [of s1 "sp @ [c]"] by auto
    have "serve_inner ops s sp = serve_inner ops s1 (sp @ [c])"
      using sel r by (subst serve_inner_unfold) (simp add: serve_inner_turn_def)
    with n k loop_select_fires [OF sel] show ?thesis by (intro exI [of _ res] exI [of _ "c # new"] exI [of _ s']) auto
  next
    case False
    then have "\<exists>res. serve_inner_turn ops s = (Some res, [], s1) \<and>
        (res = Ready (Ok ()) \<longrightarrow> r = Ready Signalled \<or> r = Ready (Accepted (Ok None)))"
      using sel by (auto simp: serve_inner_turn_def split: poll.splits loop_event.splits sum.splits option.splits)
    then obtain res where res: "serve_inner_turn ops s = (Some res, [], s1)"
      "res = Ready (Ok ()) \<longrightarrow> r = Ready Signalled \<or> r = Ready (Accepted (Ok None))" by blast
    have "serve_inner ops s sp = Some (res, sp @ [], s1)"
      using res by (subst serve_inner_unfold) simp
    moreover have "offered (sl_acceptor s1) = offered (sl_acceptor s)"
      using f False by (auto split: poll.splits loop_event.splits sum.splits option.splits)
    moreover have "res = Ready (Ok ()) \<longrightarrow> offered (sl_acceptor s1) = [] \<or> fires (lo_poll_signal ops) (sl_sig s)"
      using res(2) f loop_select_fires [OF sel] by auto
    ultimately show ?thesis by (intro exI [of _ res] exI [of _ "[]"] exI [of _ s1]) simp
  qed
qed

end

section \<open>Properties\<close>

text \<open>
  A response is complete or visibly broken. Once the head of a response has gone out, the stream
  of a request ends with a FIN only if every data and trailer frame of the response body was sent,
  whether the task of the request has completed, failed or been dropped at any moment.
\<close>

theorem response_never_truncated:
  assumes "serve_ok ops status sent frames" "serve_run ops rs (Some (rh, b)) f"
    and "serve_drop ops f = Some w" "status w = Send_fin"
  shows "sent w = wire_frames (frames b)"
  by (rule serve_run_complete [OF assms(2,1,3,4)])

definition sample_serve :: "(unit, unit, unit, sample_stream, unit, unit, nat, sample_body, nat, string, nat) serve_ops" where
  "sample_serve = \<lparr>vo_poll_resolve = (\<lambda>r. (Ready (Ok ((), ())), r)), vo_split = (\<lambda>_. ((Send_open, []), ())),
     vo_service_call = (\<lambda>rq i. ()), vo_poll_service = (\<lambda>f. (Ready (200, [Ready (Ok (FData [1, 2]))]), f)),
     vo_poll_send_response = (\<lambda>rh w. (Ready (Ok ()), w)), vo_body = sample_ops\<rparr>"

lemma sample_serve_ok: "serve_ok sample_serve fst snd sample_frames"
  using sample_ops_ok by (simp add: serve_ok_def sample_serve_def)

abbreviation sample_response :: sample_body where
  "sample_response \<equiv> [Ready (Ok (FData [1, 2]))]"

lemma sample_serve_run:
  "serve_run sample_serve () (Some (200, sample_response)) (SR_done (Some (Send_fin, [FData [1, 2]])) (Ok ()))"
proof -
  let ?b = "\<lambda>sent b pc. SR_body (SB_running (SendResetGuard_new (Send_open, sent)) b pc)"
  let ?d = "SR_done (Some (Send_fin, [FData [1, 2]])) (Ok ())"
  note defs = sample_serve_def sample_ops_def serve_exit_def server_body_next_def server_body_send_def
    server_body_exit_def send_h3_server_body_def guard_defs
  have st: "serve_step sample_serve (SR_resolve ()) = (Again, SR_call (Send_open, []) ())"
    "serve_step sample_serve (SR_call (Send_open, []) ()) = (Again, SR_head (Send_open, []) 200 sample_response)"
    "serve_step sample_serve (SR_head (Send_open, []) 200 sample_response) = (Again, ?b [] sample_response At_select)"
    "serve_step sample_serve (?b [] sample_response At_select) = (Again, ?b [] [] (At_send (Op_data [1, 2])))"
    "serve_step sample_serve (?b [] [] (At_send (Op_data [1, 2]))) = (Again, ?b [FData [1, 2]] [] At_select)"
    "serve_step sample_serve (?b [FData [1, 2]] [] At_select) = (Again, ?b [FData [1, 2]] [] (At_send Op_finish))"
    "serve_step sample_serve (?b [FData [1, 2]] [] (At_send Op_finish)) = (Complete, ?d)"
    by (simp_all add: defs)
  have "serve_run sample_serve () (Some (200, sample_response)) (?b [] sample_response At_select)"
    using sv_step [OF sv_step [OF sv_step [OF sv_start st(1)] st(2)] st(3)] by simp
  from sv_step [OF sv_step [OF sv_step [OF sv_step [OF this st(4)] st(5)] st(6)] st(7)] show ?thesis by simp
qed

theorem response_never_truncated_witness:
  "\<exists>f w. serve_run sample_serve () (Some (200, sample_response)) f \<and> serve_drop sample_serve f = Some w \<and>
     fst w = Send_fin \<and> snd w = wire_frames (sample_frames sample_response)"
  using response_never_truncated [OF sample_serve_ok sample_serve_run, of "(Send_fin, [FData [1, 2]])"] sample_serve_run
  by (intro exI [of _ "SR_done (Some (Send_fin, [FData [1, 2]])) (Ok ())"] exI [of _ "(Send_fin, [FData [1, 2]])"]) simp

text \<open>
  C27: the server takes every connection and stops for a reason. For an acceptor that keeps its
  contract, a poll of \<open>serve_inner\<close> comes to an end, has handed exactly the connections it accepted to
  the executor, in order and each once, and returns \<open>Ok\<close> only after the acceptor has ended with no
  connection left or the shutdown signal has fired.
\<close>

theorem server_takes_every_connection:
  assumes "h3_acceptor (lo_accept ops) keeps offered" "keeps (sl_acceptor s)"
  shows "\<exists>res new s'. serve_inner ops s [] = Some (res, new, s') \<and>
    offered (sl_acceptor s) = new @ offered (sl_acceptor s') \<and>
    (res = Ready (Ok ()) \<longrightarrow> offered (sl_acceptor s') = [] \<or> fires (lo_poll_signal ops) (sl_sig s))"
  using h3_acceptor.serve_inner_serves [OF assms(1,2) refl, of "[]"] by simp

definition sample_server :: "nat list \<Rightarrow> nat option poll \<times> nat list" where
  "sample_server ep = (case ep of [] \<Rightarrow> (Ready None, []) | q # qs \<Rightarrow> (Ready (Some q), qs))"

definition sample_s2n_accept :: "nat list H3S2nAcceptor \<Rightarrow> (nat + nat option) poll \<times> nat list H3S2nAcceptor" where
  "sample_s2n_accept = s2n_accept sample_server (\<lambda>q. q)"

definition sample_loop :: "(nat list H3S2nAcceptor, nat, unit, bool, nat) loop_ops" where
  "sample_loop = \<lparr>lo_accept = sample_s2n_accept, lo_poll_signal = never_signal, lo_flip = (\<lambda>b. (b, \<not> b))\<rparr>"

theorem server_takes_every_connection_witness:
  "\<exists>res new s'. serve_inner sample_loop (sv_loop (serve (H3Router_new () ()) (H3S2nAcceptor_new [5, 6]) True)) [] =
      Some (res, new, s') \<and> [5, 6] = new @ map (\<lambda>q. q) (sa_ep (sl_acceptor s')) \<and>
      (res = Ready (Ok ()) \<longrightarrow> new = [5, 6])"
proof -
  have ok: "s2n_endpoint_ok sample_server (\<lambda>ep. ep)"
    by (auto simp: s2n_endpoint_ok_def sample_server_def split: list.splits)
  have "h3_acceptor (lo_accept sample_loop) (\<lambda>a. s2n_endpoint_ok sample_server (\<lambda>ep. ep)) (\<lambda>a. map (\<lambda>q. q) (sa_ep a))"
    unfolding sample_loop_def sample_s2n_accept_def loop_ops.simps
    by (rule s2a.h3_acceptor_axioms [where conns = "\<lambda>ep. ep"])
  from server_takes_every_connection [OF this ok, of "sv_loop (serve (H3Router_new () ()) (H3S2nAcceptor_new [5, 6]) True)"]
  show ?thesis
    by (simp add: serve_def serve_with_shutdown_def H3S2nAcceptor_new_def sample_loop_def never_signal_never_fires) fastforce
qed

text \<open>
  A connection's end is logged as a warning only when it is an error: a close with
  \<open>H3_NO_ERROR\<close>, or with the transport's \<open>NO_ERROR\<close> under quinn, is benign; every other one is not.
\<close>

lemma benign_close_iff:
  "is_benign_connection_close quinn e \<longleftrightarrow>
     is_h3_no_error e \<or> (quinn \<and> (\<exists>b. e = Remote_undefined b (Some (ConnectionClosed 0))))"
  by (auto simp: is_benign_connection_close_def TransportErrorCode_NO_ERROR_def
      split: connection_error.splits option.splits quinn_error.splits bool.splits)

end
