(* ===== verification/Connect.thy ===== *)
theory Connect
  imports RequestSender
begin

text \<open>
  Name resolution (\<open>dns_resolve\<close> of \<open>h3-util/src/client.rs\<close>) and the connectors of the four
  backends: \<open>quinn/client.rs\<close>, \<open>s2n/client.rs\<close>, \<open>quiche_h3/client.rs\<close> and \<open>msquic/client.rs\<close>. The
  functions are straight-line \<open>async\<close> code over values they own, so an awaited future stands for
  its output. The loops over the resolved addresses share a contract, the locale \<open>failover\<close>.
\<close>

section \<open>Name resolution\<close>

text \<open>
  \<open>parse\<close> is \<open>str::parse::<SocketAddr>\<close>, \<open>lookup\<close> is \<open>tokio::net::lookup_host\<close>. An \<open>io::Error\<close> is made
  from a kind or comes from the operating system; the callers convert it with \<open>?\<close>.
\<close>

datatype 'x io_error = Io_kind io_error_kind | Io_os 'x

fun from_io :: "'x io_error \<Rightarrow> ('se, 'x) error" where
  "from_io (Io_kind k) = Io k"
| "from_io (Io_os e) = Foreign e"

definition dns_resolve ::
  "(string \<Rightarrow> 'a option) \<Rightarrow> (string \<Rightarrow> 'x + 'a list) \<Rightarrow> uri \<Rightarrow> 'x io_error + 'a list" where
  "dns_resolve parse lookup u =
     (case uri_authority u of
        None \<Rightarrow> Err (Io_kind InvalidInput)
      | Some host_port \<Rightarrow>
          (case parse host_port of
             Some addr \<Rightarrow> Ok [addr]
           | None \<Rightarrow> (case lookup host_port of Err e \<Rightarrow> Err (Io_os e) | Ok as \<Rightarrow> Ok as)))"

section \<open>Trying addresses in turn\<close>

text \<open>
  What one address gives: an error after which the next address is tried, an error that ends the
  whole attempt, or a connection.
\<close>

datatype ('e, 'c) attempt = Retry 'e | Abort 'e | Success 'c

fun first_verdict :: "('a \<Rightarrow> ('e, 'c) attempt) \<Rightarrow> 'e \<Rightarrow> 'a list \<Rightarrow> 'e + 'c" where
  "first_verdict att err [] = Err err"
| "first_verdict att err (a # as) =
     (case att a of Retry e \<Rightarrow> first_verdict att e as | Abort e \<Rightarrow> Err e | Success c \<Rightarrow> Ok c)"

text \<open>
  The contract of a connector's loop: \<open>loop err as\<close> is the rest of the loop with \<open>conn_err = err\<close>
  and the addresses \<open>as\<close> still to be tried.
\<close>

locale failover =
  fixes att :: "'a \<Rightarrow> ('e, 'c) attempt"
    and loop :: "'e \<Rightarrow> 'a list \<Rightarrow> 'e + 'c"
  assumes loop_empty: "loop err [] = Err err"
    and loop_retry: "att a = Retry e \<Longrightarrow> loop err (a # as) = loop e as"
    and loop_abort: "att a = Abort e \<Longrightarrow> loop err (a # as) = Err e"
    and loop_success: "att a = Success c \<Longrightarrow> loop err (a # as) = Ok c"
begin

lemma loop_spec: "loop err as = first_verdict att err as"
proof (induction as arbitrary: err)
  case (Cons a as)
  then show ?case by (cases "att a") (simp_all add: loop_retry loop_abort loop_success)
qed (simp add: loop_empty)

text \<open>The connection is that of the first address that does not ask for the next one.\<close>

lemma loop_ok_iff:
  "loop err as = Ok c \<longleftrightarrow>
     (\<exists>pre a post. as = pre @ a # post \<and> (\<forall>p\<in>set pre. \<exists>e. att p = Retry e) \<and> att a = Success c)"
proof (induction as arbitrary: err)
  case Nil
  then show ?case by (simp add: loop_empty)
next
  case (Cons a as)
  show ?case
  proof (cases "att a")
    case (Retry e)
    have "loop err (a # as) = Ok c \<longleftrightarrow> loop e as = Ok c" using Retry by (simp add: loop_retry)
    also have "\<dots> \<longleftrightarrow> (\<exists>pre b post. a # as = pre @ b # post \<and> (\<forall>p\<in>set pre. \<exists>e. att p = Retry e) \<and> att b = Success c)"
      (is "_ \<longleftrightarrow> ?R")
    proof
      assume "loop e as = Ok c"
      then obtain pre b post where "as = pre @ b # post" "\<forall>p\<in>set pre. \<exists>e. att p = Retry e" "att b = Success c"
        using Cons.IH by blast
      with Retry show ?R by (intro exI [of _ "a # pre"] exI [of _ b] exI [of _ post]) simp
    next
      assume ?R
      then obtain pre b post where r: "a # as = pre @ b # post" "\<forall>p\<in>set pre. \<exists>e. att p = Retry e" "att b = Success c"
        by blast
      with Retry obtain pre' where "pre = a # pre'" by (cases pre) auto
      with r have "as = pre' @ b # post" "\<forall>p\<in>set pre'. \<exists>e. att p = Retry e" by simp_all
      with r(3) show "loop e as = Ok c" using Cons.IH by blast
    qed
    finally show ?thesis .
  next
    case (Abort e)
    then show ?thesis by (auto simp: loop_abort Cons_eq_append_conv)
  next
    case (Success d)
    then show ?thesis by (auto simp: loop_success Cons_eq_append_conv intro: exI [of _ "[]"])
  qed
qed

end

text \<open>A connector that never gives up while addresses are left.\<close>

locale persistent_failover = failover att loop
  for att :: "'a \<Rightarrow> ('e, 'c) attempt" and loop :: "'e \<Rightarrow> 'a list \<Rightarrow> 'e + 'c" +
  assumes never_aborts: "att a \<noteq> Abort e"
begin

lemma loop_reaches_all: "(\<exists>c. loop err as = Ok c) \<longleftrightarrow> (\<exists>a\<in>set as. \<exists>c. att a = Success c)"
proof (induction as arbitrary: err)
  case (Cons a as)
  then show ?case using never_aborts by (cases "att a") (auto simp: loop_retry loop_success)
qed (simp add: loop_empty)

lemma loop_last_error:
  assumes "loop err as = Err e"
  shows "(as = [] \<and> e = err) \<or> (as \<noteq> [] \<and> att (last as) = Retry e)"
  using assms
proof (induction as arbitrary: err)
  case (Cons a as)
  then show ?case using never_aborts by (cases "att a") (auto simp: loop_retry loop_success split: if_splits)
qed (simp add: loop_empty)

end

section \<open>quinn\<close>

record 'ep H3QuinnConnector =
  qc_uri :: uri
  qc_server_name :: string
  qc_ep :: 'ep

definition H3QuinnConnector_new :: "uri \<Rightarrow> string \<Rightarrow> 'ep \<Rightarrow> 'ep H3QuinnConnector" where
  "H3QuinnConnector_new u server_name ep = \<lparr>qc_uri = u, qc_server_name = server_name, qc_ep = ep\<rparr>"

text \<open>\<open>Endpoint::connect\<close>, the handshake it returns, and \<open>h3_quinn::Connection::new\<close>.\<close>

record ('ep, 'a, 'hs, 'q, 'c, 'x) quinn_ops =
  qo_parse :: "string \<Rightarrow> 'a option"
  qo_lookup :: "string \<Rightarrow> 'x + 'a list"
  qo_connect :: "'ep \<Rightarrow> 'a \<Rightarrow> string \<Rightarrow> 'x + 'hs"
  qo_handshake :: "'hs \<Rightarrow> 'x + 'q"
  qo_conn_new :: "'q \<Rightarrow> 'c"

fun quinn_connect_loop ::
  "('ep, 'a, 'hs, 'q, 'c, 'x) quinn_ops \<Rightarrow> 'ep H3QuinnConnector \<Rightarrow> ('se, 'x) error \<Rightarrow> 'a list \<Rightarrow>
   ('se, 'x) error + 'c" where
  "quinn_connect_loop ops self conn_err [] = Err conn_err"
| "quinn_connect_loop ops self conn_err (addr # addrs) =
     (case qo_connect ops (qc_ep self) addr (qc_server_name self) of
        Ok conn \<Rightarrow>
          (case qo_handshake ops conn of
             Ok x \<Rightarrow> Ok (qo_conn_new ops x)
           | Err e \<Rightarrow> quinn_connect_loop ops self (Foreign e) addrs)
      | Err e \<Rightarrow> quinn_connect_loop ops self (Foreign e) addrs)"

definition quinn_connect ::
  "('ep, 'a, 'hs, 'q, 'c, 'x) quinn_ops \<Rightarrow> 'ep H3QuinnConnector \<Rightarrow> ('se, 'x) error + 'c" where
  "quinn_connect ops self =
     (case dns_resolve (qo_parse ops) (qo_lookup ops) (qc_uri self) of
        Err e \<Rightarrow> Err (from_io e)
      | Ok addrs \<Rightarrow> quinn_connect_loop ops self (Io AddrNotAvailable) addrs)"

definition quinn_attempt ::
  "('ep, 'a, 'hs, 'q, 'c, 'x) quinn_ops \<Rightarrow> 'ep H3QuinnConnector \<Rightarrow> 'a \<Rightarrow> (('se, 'x) error, 'c) attempt" where
  "quinn_attempt ops self addr =
     (case qo_connect ops (qc_ep self) addr (qc_server_name self) of
        Err e \<Rightarrow> Retry (Foreign e)
      | Ok conn \<Rightarrow> (case qo_handshake ops conn of Err e \<Rightarrow> Retry (Foreign e) | Ok x \<Rightarrow> Success (qo_conn_new ops x)))"

lemma quinn_attempt_success:
  "(\<exists>c. quinn_attempt ops self a = Success c) \<longleftrightarrow>
     (\<exists>hs x. qo_connect ops (qc_ep self) a (qc_server_name self) = Ok hs \<and> qo_handshake ops hs = Ok x)"
  by (auto simp: quinn_attempt_def split: sum.splits)

interpretation qf: persistent_failover "quinn_attempt ops self" "quinn_connect_loop ops self"
  for ops :: "('ep, 'a, 'hs, 'q, 'c, 'x) quinn_ops" and self
  by unfold_locales (auto simp: quinn_attempt_def split: sum.splits)

section \<open>s2n\<close>

record 'ep H3S2nConnector =
  sc_uri :: uri
  sc_server_name :: string
  sc_ep :: 'ep

definition H3S2nConnector_new :: "uri \<Rightarrow> string \<Rightarrow> 'ep \<Rightarrow> 'ep H3S2nConnector" where
  "H3S2nConnector_new u server_name ep = \<lparr>sc_uri = u, sc_server_name = server_name, sc_ep = ep\<rparr>"

text \<open>\<open>Connect::new(addr).with_server_name\<close>, \<open>Client::connect\<close>, \<open>keep_alive\<close> and the wrapper.\<close>

record ('ep, 'a, 'cn, 'q, 'c, 'x) s2n_ops =
  s2_parse :: "string \<Rightarrow> 'a option"
  s2_lookup :: "string \<Rightarrow> 'x + 'a list"
  s2_request :: "'a \<Rightarrow> string \<Rightarrow> 'cn"
  s2_connect :: "'ep \<Rightarrow> 'cn \<Rightarrow> 'x + 'q"
  s2_keep_alive :: "'q \<Rightarrow> bool \<Rightarrow> 'x + 'q"
  s2_conn_new :: "'q \<Rightarrow> 'c"

text \<open>The \<open>?\<close> behind \<open>keep_alive\<close> leaves the function.\<close>

fun s2n_connect_loop ::
  "('ep, 'a, 'cn, 'q, 'c, 'x) s2n_ops \<Rightarrow> 'ep H3S2nConnector \<Rightarrow> ('se, 'x) error \<Rightarrow> 'a list \<Rightarrow>
   ('se, 'x) error + 'c" where
  "s2n_connect_loop ops self conn_err [] = Err conn_err"
| "s2n_connect_loop ops self conn_err (addr # addrs) =
     (let connect = s2_request ops addr (sc_server_name self) in
      case s2_connect ops (sc_ep self) connect of
        Ok conn \<Rightarrow>
          (case s2_keep_alive ops conn True of
             Err e \<Rightarrow> Err (Foreign e)
           | Ok conn' \<Rightarrow> Ok (s2_conn_new ops conn'))
      | Err e \<Rightarrow> s2n_connect_loop ops self (Foreign e) addrs)"

definition s2n_connect ::
  "('ep, 'a, 'cn, 'q, 'c, 'x) s2n_ops \<Rightarrow> 'ep H3S2nConnector \<Rightarrow> ('se, 'x) error + 'c" where
  "s2n_connect ops self =
     (case dns_resolve (s2_parse ops) (s2_lookup ops) (sc_uri self) of
        Err e \<Rightarrow> Err (from_io e)
      | Ok addrs \<Rightarrow> s2n_connect_loop ops self (Io AddrNotAvailable) addrs)"

definition s2n_attempt ::
  "('ep, 'a, 'cn, 'q, 'c, 'x) s2n_ops \<Rightarrow> 'ep H3S2nConnector \<Rightarrow> 'a \<Rightarrow> (('se, 'x) error, 'c) attempt" where
  "s2n_attempt ops self addr =
     (case s2_connect ops (sc_ep self) (s2_request ops addr (sc_server_name self)) of
        Err e \<Rightarrow> Retry (Foreign e)
      | Ok conn \<Rightarrow>
          (case s2_keep_alive ops conn True of Err e \<Rightarrow> Abort (Foreign e) | Ok conn' \<Rightarrow> Success (s2_conn_new ops conn')))"

interpretation sf: failover "s2n_attempt ops self" "s2n_connect_loop ops self"
  for ops :: "('ep, 'a, 'cn, 'q, 'c, 'x) s2n_ops" and self
  by unfold_locales (auto simp: s2n_attempt_def Let_def split: sum.splits)

section \<open>quiche\<close>

record 'cfg H3QuicheConnector =
  kc_uri :: uri
  kc_server_name :: string
  kc_config :: 'cfg

definition H3QuicheConnector_new :: "uri \<Rightarrow> string \<Rightarrow> 'cfg \<Rightarrow> 'cfg H3QuicheConnector" where
  "H3QuicheConnector_new u server_name config = \<lparr>kc_uri = u, kc_server_name = server_name, kc_config = config\<rparr>"

record ('cfg, 'a, 'k, 'c, 'x) quiche_ops =
  ko_parse :: "string \<Rightarrow> 'a option"
  ko_lookup :: "string \<Rightarrow> 'x + 'a list"
  ko_inner_new :: "'a \<Rightarrow> string \<Rightarrow> 'cfg \<Rightarrow> 'x + 'k"
  ko_connect :: "'k \<Rightarrow> 'x + 'c"

fun quiche_connect_loop ::
  "('cfg, 'a, 'k, 'c, 'x) quiche_ops \<Rightarrow> 'cfg H3QuicheConnector \<Rightarrow> ('se, 'x) error \<Rightarrow> 'a list \<Rightarrow>
   ('se, 'x) error + 'c" where
  "quiche_connect_loop ops self conn_err [] = Err conn_err"
| "quiche_connect_loop ops self conn_err (addr # addrs) =
     (case ko_inner_new ops addr (kc_server_name self) (kc_config self) of
        Err e \<Rightarrow> quiche_connect_loop ops self (Foreign e) addrs
      | Ok connector \<Rightarrow>
          (case ko_connect ops connector of
             Ok conn \<Rightarrow> Ok conn
           | Err e \<Rightarrow> quiche_connect_loop ops self (Foreign e) addrs))"

definition quiche_connect ::
  "('cfg, 'a, 'k, 'c, 'x) quiche_ops \<Rightarrow> 'cfg H3QuicheConnector \<Rightarrow> ('se, 'x) error + 'c" where
  "quiche_connect ops self =
     (case dns_resolve (ko_parse ops) (ko_lookup ops) (kc_uri self) of
        Err e \<Rightarrow> Err (from_io e)
      | Ok addrs \<Rightarrow> quiche_connect_loop ops self (Io AddrNotAvailable) addrs)"

definition quiche_attempt ::
  "('cfg, 'a, 'k, 'c, 'x) quiche_ops \<Rightarrow> 'cfg H3QuicheConnector \<Rightarrow> 'a \<Rightarrow> (('se, 'x) error, 'c) attempt" where
  "quiche_attempt ops self addr =
     (case ko_inner_new ops addr (kc_server_name self) (kc_config self) of
        Err e \<Rightarrow> Retry (Foreign e)
      | Ok k \<Rightarrow> (case ko_connect ops k of Err e \<Rightarrow> Retry (Foreign e) | Ok conn \<Rightarrow> Success conn))"

lemma quiche_attempt_success:
  "(\<exists>c. quiche_attempt ops self a = Success c) \<longleftrightarrow>
     (\<exists>k c. ko_inner_new ops a (kc_server_name self) (kc_config self) = Ok k \<and> ko_connect ops k = Ok c)"
  by (auto simp: quiche_attempt_def split: sum.splits)

interpretation kf: persistent_failover "quiche_attempt ops self" "quiche_connect_loop ops self"
  for ops :: "('cfg, 'a, 'k, 'c, 'x) quiche_ops" and self
  by unfold_locales (auto simp: quiche_attempt_def split: sum.splits)

section \<open>msquic\<close>

record ('cfg, 'reg) H3MsQuicConnector =
  mc_config :: 'cfg
  mc_reg :: 'reg
  mc_uri :: uri

definition H3MsQuicConnector_new :: "'cfg \<Rightarrow> 'reg \<Rightarrow> uri \<Rightarrow> ('cfg, 'reg) H3MsQuicConnector" where
  "H3MsQuicConnector_new config reg u = \<lparr>mc_config = config, mc_reg = reg, mc_uri = u\<rparr>"

text \<open>\<open>Uri::host\<close> and \<open>Uri::port_u16\<close> are unwrapped before the connection is attempted.\<close>

definition msquic_connect ::
  "(uri \<Rightarrow> string option) \<Rightarrow> (uri \<Rightarrow> 16 word option) \<Rightarrow>
   ('reg \<Rightarrow> 'cfg \<Rightarrow> string \<Rightarrow> 16 word \<Rightarrow> 'x + 'c) \<Rightarrow> ('cfg, 'reg) H3MsQuicConnector \<Rightarrow>
   (('se, 'x) error + 'c) outcome" where
  "msquic_connect host port_u16 connect self =
     (case host (mc_uri self) of
        None \<Rightarrow> Panic ''called `Option::unwrap()` on a `None` value''
      | Some h \<Rightarrow>
          (case port_u16 (mc_uri self) of
             None \<Rightarrow> Panic ''called `Option::unwrap()` on a `None` value''
           | Some p \<Rightarrow>
               (case connect (mc_reg self) (mc_config self) h p of
                  Err e \<Rightarrow> Return (Err (Foreign e))
                | Ok conn \<Rightarrow> Return (Ok conn))))"

section \<open>Properties\<close>

text \<open>A network with three addresses: the first is refused, the second fails its handshake.\<close>

definition sample_quinn :: "(unit, nat, nat, nat, nat, nat) quinn_ops" where
  "sample_quinn = \<lparr>qo_parse = (\<lambda>_. None), qo_lookup = (\<lambda>_. Ok [1, 2, 3]),
     qo_connect = (\<lambda>ep a n. if a = 1 then Err 11 else Ok a),
     qo_handshake = (\<lambda>a. if a = 2 then Err 12 else Ok a), qo_conn_new = (\<lambda>a. a)\<rparr>"

definition sample_quinn_connector :: "unit H3QuinnConnector" where
  "sample_quinn_connector = H3QuinnConnector_new
     \<lparr>uri_scheme = Some ''https'', uri_authority = Some ''h:1'', uri_path_and_query = None\<rparr> ''h'' ()"

text \<open>
  C32: the quinn connector tries every resolved address. It connects if and only if some address
  accepts the connection and completes the handshake; otherwise it reports the error of the last
  address, or \<open>AddrNotAvailable\<close> when the name resolved to none.
\<close>

theorem quinn_tries_all_addresses:
  assumes "dns_resolve (qo_parse ops) (qo_lookup ops) (qc_uri self) = Ok addrs"
  shows "((\<exists>c. quinn_connect ops self = Ok c) \<longleftrightarrow>
      (\<exists>a\<in>set addrs. \<exists>hs x. qo_connect ops (qc_ep self) a (qc_server_name self) = Ok hs \<and> qo_handshake ops hs = Ok x)) \<and>
    (quinn_connect ops self = Err e \<longrightarrow>
      (addrs = [] \<and> e = Io AddrNotAvailable) \<or> (addrs \<noteq> [] \<and> quinn_attempt ops self (last addrs) = Retry e))"
proof -
  have q: "quinn_connect ops self = quinn_connect_loop ops self (Io AddrNotAvailable) addrs"
    using assms by (simp add: quinn_connect_def)
  from qf.loop_reaches_all [of ops self "Io AddrNotAvailable" addrs]
    qf.loop_last_error [of ops self "Io AddrNotAvailable" addrs e]
  show ?thesis unfolding q quinn_attempt_success by blast
qed

theorem quinn_tries_all_addresses_witness:
  "\<exists>c. (quinn_connect sample_quinn sample_quinn_connector :: (unit, nat) error + nat) = Ok c"
proof -
  have d: "dns_resolve (qo_parse sample_quinn) (qo_lookup sample_quinn) (qc_uri sample_quinn_connector) = Ok [1, 2, 3]"
    by (simp add: dns_resolve_def sample_quinn_def sample_quinn_connector_def H3QuinnConnector_new_def)
  have "\<exists>a\<in>set [1, 2, 3]. \<exists>hs x. qo_connect sample_quinn (qc_ep sample_quinn_connector) a
      (qc_server_name sample_quinn_connector) = Ok hs \<and> qo_handshake sample_quinn hs = Ok x"
    by (simp add: sample_quinn_def)
  with quinn_tries_all_addresses [OF d] show ?thesis by blast
qed

text \<open>
  C33: the s2n connector is the first verdict of its addresses, and a connection whose \<open>keep_alive\<close>
  fails ends the whole attempt: the addresses behind it are not tried, whatever they would give.
\<close>

theorem s2n_keep_alive_aborts:
  assumes "\<forall>p\<in>set pre. \<exists>e. s2n_attempt ops self p = (Retry e :: (('se, 'x) error, 'c) attempt)"
    and "s2_connect ops (sc_ep self) (s2_request ops a (sc_server_name self)) = Ok conn"
    and "s2_keep_alive ops conn True = Err e"
    and "dns_resolve (s2_parse ops) (s2_lookup ops) (sc_uri self) = Ok (pre @ a # post)"
  shows "s2n_connect ops self = (Err (Foreign e) :: ('se, 'x) error + 'c)"
proof -
  have a: "s2n_attempt ops self a = (Abort (Foreign e) :: (('se, 'x) error, 'c) attempt)" using assms(2,3) by (simp add: s2n_attempt_def)
  have "s2n_connect_loop ops self err (pre @ a # post) = Err (Foreign e)" for err :: "('se, 'x) error"
    using assms(1)
  proof (induction pre arbitrary: err)
    case Nil
    show ?case using sf.loop_abort [OF a] by simp
  next
    case (Cons p pre)
    then obtain e' where "s2n_attempt ops self p = (Retry e' :: (('se, 'x) error, 'c) attempt)" by auto
    from sf.loop_retry [OF this, of err "pre @ a # post"] Cons show ?case by simp
  qed
  with assms(4) show ?thesis by (simp add: s2n_connect_def)
qed

definition sample_s2n :: "(unit, nat, nat, nat, nat, nat) s2n_ops" where
  "sample_s2n = \<lparr>s2_parse = (\<lambda>_. None), s2_lookup = (\<lambda>_. Ok [1, 2, 3]), s2_request = (\<lambda>a n. a),
     s2_connect = (\<lambda>ep a. if a = 1 then Err 11 else Ok a),
     s2_keep_alive = (\<lambda>q b. if q = 2 then Err 12 else Ok q), s2_conn_new = (\<lambda>a. a)\<rparr>"

theorem s2n_keep_alive_aborts_witness:
  "s2n_connect sample_s2n (H3S2nConnector_new
     \<lparr>uri_scheme = Some ''https'', uri_authority = Some ''h:1'', uri_path_and_query = None\<rparr> ''h'' ()) =
     (Err (Foreign 12) :: (unit, nat) error + nat)"
  by (rule s2n_keep_alive_aborts [of "[1]" _ _ 2 2 12 "[3]"])
    (simp_all add: sample_s2n_def s2n_attempt_def H3S2nConnector_new_def dns_resolve_def)

text \<open>
  The quiche connector tries every resolved address, whether the inner connector cannot be made
  or does not connect, and fails only when every address failed.
\<close>

theorem quiche_tries_all_addresses:
  assumes "dns_resolve (ko_parse ops) (ko_lookup ops) (kc_uri self) = Ok addrs"
  shows "(\<exists>c. quiche_connect ops self = Ok c) \<longleftrightarrow>
    (\<exists>a\<in>set addrs. \<exists>k c. ko_inner_new ops a (kc_server_name self) (kc_config self) = Ok k \<and> ko_connect ops k = Ok c)"
proof -
  have q: "quiche_connect ops self = quiche_connect_loop ops self (Io AddrNotAvailable) addrs"
    using assms by (simp add: quiche_connect_def)
  from kf.loop_reaches_all [of ops self "Io AddrNotAvailable" addrs] show ?thesis
    unfolding q quiche_attempt_success .
qed

definition sample_quiche :: "(unit, nat, nat, nat, nat) quiche_ops" where
  "sample_quiche = \<lparr>ko_parse = (\<lambda>_. Some 4), ko_lookup = (\<lambda>_. Ok []), ko_inner_new = (\<lambda>a n c. Ok a),
     ko_connect = (\<lambda>k. if k = 4 then Ok 4 else Err 1)\<rparr>"

theorem quiche_tries_all_addresses_witness:
  "\<exists>c. (quiche_connect sample_quiche (H3QuicheConnector_new
     \<lparr>uri_scheme = Some ''https'', uri_authority = Some ''1.2.3.4:1'', uri_path_and_query = None\<rparr> ''h'' ())
     :: (unit, nat) error + nat) = Ok c"
proof -
  let ?k = "H3QuicheConnector_new
     \<lparr>uri_scheme = Some ''https'', uri_authority = Some ''1.2.3.4:1'', uri_path_and_query = None\<rparr> ''h'' ()"
  have d: "dns_resolve (ko_parse sample_quiche) (ko_lookup sample_quiche) (kc_uri ?k) = Ok [4]"
    by (simp add: dns_resolve_def sample_quiche_def H3QuicheConnector_new_def)
  from quiche_tries_all_addresses [OF d] show ?thesis by (simp add: sample_quiche_def)
qed

text \<open>
  The msquic connector panics exactly when its URI has no host or no explicit port, for
  instance on \<open>https://host/\<close>; otherwise it returns what the library returns.
\<close>

theorem msquic_connect_panics_iff:
  "panics (msquic_connect host port_u16 connect self) \<longleftrightarrow>
     host (mc_uri self) = None \<or> port_u16 (mc_uri self) = None"
  by (auto simp: msquic_connect_def split: option.splits sum.splits)

end
