(* ===== verification/S2nStream.thy ===== *)
theory S2nStream
  imports H3Prelude
begin

text \<open>
  \<open>h3-util/src/s2n/s2n_quic_h3/s2n_quic.rs\<close>: the adapter that gives an s2n-quic connection the
  interface h3 expects. Error conversion, accepting and opening streams, error codes at their width
  of 64 bits, and the send stream, whose flush loop implements a queue of bytes.
\<close>

section \<open>Errors\<close>

text \<open>The error types of s2n-quic and of h3, as far as the adapter tells them apart.\<close>

datatype 'o s2n_connection_error = SE_Application "64 word" | SE_IdleTimerExpired | SE_Closed | SE_other 'o

datatype 'o s2n_stream_error =
    SS_StreamReset "64 word" | SS_ConnectionError "'o s2n_connection_error" | SS_other 'o

datatype 'o ConnectionErrorIncoming =
    CI_ApplicationClose "64 word" | CI_Timeout | CI_InternalError string | CI_Undefined "'o s2n_connection_error"

datatype 'o StreamErrorIncoming =
    SI_ConnectionErrorIncoming "'o ConnectionErrorIncoming"
  | SI_StreamTerminated "64 word"
  | SI_Unknown "'o s2n_stream_error"

fun convert_connection_error :: "'o s2n_connection_error \<Rightarrow> 'o ConnectionErrorIncoming" where
  "convert_connection_error (SE_Application error_code) = CI_ApplicationClose error_code"
| "convert_connection_error SE_IdleTimerExpired = CI_Timeout"
| "convert_connection_error SE_Closed = CI_InternalError ''connection closed''"
| "convert_connection_error error = CI_Undefined error"

fun convert_stream_error :: "'o s2n_stream_error \<Rightarrow> 'o StreamErrorIncoming" where
  "convert_stream_error (SS_StreamReset error_code) = SI_StreamTerminated error_code"
| "convert_stream_error (SS_ConnectionError error) = SI_ConnectionErrorIncoming (convert_connection_error error)"
| "convert_stream_error error = SI_Unknown error"

section \<open>Operations of s2n-quic\<close>

text \<open>
  \<open>xo_app_error\<close> is the conversion of a \<open>u64\<close> to an application error and \<open>xo_stream_id\<close> the one to
  h3's \<open>StreamId\<close>; both are refused outside the range of a QUIC variable-length integer. \<open>xo_chunk_len\<close>
  and \<open>xo_copy_to_bytes\<close> are \<open>chunk().len()\<close> and \<open>copy_to_bytes\<close> of h3's \<open>WriteBuf\<close>. \<open>xo_debug\<close> tells
  whether \<open>debug_assert!\<close> is compiled in.
\<close>

record ('hd, 'ba, 'ra, 'bi, 'r, 's, 'wb, 'ae, 'sid, 'o) s2n_quic_ops =
  xo_poll_accept_recv :: "'ra \<Rightarrow> ('o s2n_connection_error + 'r option) poll \<times> 'ra"
  xo_poll_accept_bidi :: "'ba \<Rightarrow> ('o s2n_connection_error + 'bi option) poll \<times> 'ba"
  xo_poll_open_bidi :: "'hd \<Rightarrow> ('o s2n_connection_error + 'bi) poll \<times> 'hd"
  xo_poll_open_send :: "'hd \<Rightarrow> ('o s2n_connection_error + 's) poll \<times> 'hd"
  xo_close :: "'ae \<Rightarrow> 'hd \<Rightarrow> 'hd"
  xo_split :: "'bi \<Rightarrow> 'r \<times> 's"
  xo_poll_receive :: "'r \<Rightarrow> ('o s2n_stream_error + bytes option) poll \<times> 'r"
  xo_stop_sending :: "'ae \<Rightarrow> 'r \<Rightarrow> 'r"
  xo_poll_send :: "bytes \<Rightarrow> 's \<Rightarrow> ('o s2n_stream_error + unit) poll \<times> bytes \<times> 's"
  xo_finish :: "'s \<Rightarrow> ('o s2n_stream_error + unit) \<times> 's"
  xo_reset :: "'ae \<Rightarrow> 's \<Rightarrow> 's"
  xo_recv_id :: "'r \<Rightarrow> 64 word"
  xo_send_id :: "'s \<Rightarrow> 64 word"
  xo_chunk_len :: "'wb \<Rightarrow> nat"
  xo_copy_to_bytes :: "nat \<Rightarrow> 'wb \<Rightarrow> bytes \<times> 'wb"
  xo_app_error :: "64 word \<Rightarrow> 'ae option"
  xo_stream_id :: "64 word \<Rightarrow> 'sid option"
  xo_unknown :: 'ae
  xo_debug :: bool

section \<open>The receive stream\<close>

record 'r RecvStream =
  rc_stream :: 'r

definition RecvStream_new :: "'r \<Rightarrow> 'r RecvStream" where
  "RecvStream_new stream = \<lparr>rc_stream = stream\<rparr>"

definition poll_conv :: "('e \<Rightarrow> 'e2) \<Rightarrow> ('e + 'a) poll \<Rightarrow> ('e2 + 'a) poll" where
  "poll_conv f = map_poll (map_sum f id)"

definition recv_poll_data where
  "recv_poll_data ops s =
     (case xo_poll_receive ops (rc_stream s) of
        (x, r) \<Rightarrow> (poll_conv convert_stream_error x, s\<lparr>rc_stream := r\<rparr>))"

definition recv_stop_sending where
  "recv_stop_sending ops error_code s =
     (case xo_app_error ops error_code of
        None \<Rightarrow> Panic ''s2n-quic supports error codes up to 2^62-1''
      | Some e \<Rightarrow> Return (s\<lparr>rc_stream := xo_stop_sending ops e (rc_stream s)\<rparr>))"

definition recv_id where
  "recv_id ops s =
     (case xo_stream_id ops (xo_recv_id ops (rc_stream s)) of
        None \<Rightarrow> Panic ''invalid stream id'' | Some i \<Rightarrow> Return i)"

section \<open>The send stream\<close>

record ('s, 'wb) SendStream =
  sd_stream :: 's
  sd_chunk :: "bytes option"
  sd_buf :: "'wb option"

definition SendStream_new :: "'s \<Rightarrow> ('s, 'wb) SendStream" where
  "SendStream_new stream = \<lparr>sd_stream = stream, sd_chunk = None, sd_buf = None\<rparr>"

type_synonym ('s, 'wb, 'o) send_result = "('o StreamErrorIncoming + unit) poll outcome \<times> ('s, 'wb) SendStream"

text \<open>The first half of a turn of the loop: flush the chunk, if there is one.\<close>

definition flush_chunk ::
  "('hd, 'ba, 'ra, 'bi, 'r, 's, 'wb, 'ae, 'sid, 'o) s2n_quic_ops \<Rightarrow> ('s, 'wb) SendStream \<Rightarrow>
   ('o StreamErrorIncoming + unit) poll outcome option \<times> ('s, 'wb) SendStream" where
  "flush_chunk ops s =
     (case sd_chunk s of
        None \<Rightarrow> (None, s)
      | Some chunk \<Rightarrow>
          (case xo_poll_send ops chunk (sd_stream s) of
             (Pending, chunk', st) \<Rightarrow> (Some (Return Pending), s\<lparr>sd_chunk := Some chunk', sd_stream := st\<rparr>)
           | (Ready (Err e), chunk', st) \<Rightarrow>
               (Some (Return (Ready (Err (convert_stream_error e)))), s\<lparr>sd_chunk := Some chunk', sd_stream := st\<rparr>)
           | (Ready (Ok _), chunk', st) \<Rightarrow>
               (if xo_debug ops \<and> chunk' \<noteq> []
                then (Some (Panic ''assertion failed: chunk.is_empty()''), s\<lparr>sd_chunk := Some chunk', sd_stream := st\<rparr>)
                else (None, s\<lparr>sd_chunk := None, sd_stream := st\<rparr>))))"

text \<open>The second half: take the next chunk of the buffer, or be done.\<close>

definition take_chunk ::
  "('hd, 'ba, 'ra, 'bi, 'r, 's, 'wb, 'ae, 'sid, 'o) s2n_quic_ops \<Rightarrow> ('s, 'wb) SendStream \<Rightarrow>
   bool \<times> ('s, 'wb) SendStream" where
  "take_chunk ops s =
     (case sd_buf s of
        Some data \<Rightarrow>
          (let len = xo_chunk_len ops data in
           if len = 0 then (True, s\<lparr>sd_buf := None\<rparr>)
           else (case xo_copy_to_bytes ops len data of
                   (chunk, data') \<Rightarrow> (False, s\<lparr>sd_chunk := Some chunk, sd_buf := Some data'\<rparr>)))
      | None \<Rightarrow> (True, s))"

partial_function (option) send_poll_ready ::
  "('hd, 'ba, 'ra, 'bi, 'r, 's, 'wb, 'ae, 'sid, 'o) s2n_quic_ops \<Rightarrow> ('s, 'wb) SendStream \<Rightarrow>
   ('s, 'wb, 'o) send_result option" where
  "send_poll_ready ops s =
     (case flush_chunk ops s of
        (Some res, s1) \<Rightarrow> Some (res, s1)
      | (None, s1) \<Rightarrow>
          (case take_chunk ops s1 of
             (finished, s2) \<Rightarrow> if finished then Some (Return (Ready (Ok ())), s2) else send_poll_ready ops s2))"

definition send_send_data ::
  "'wb \<Rightarrow> ('s, 'wb) SendStream \<Rightarrow> ('o StreamErrorIncoming + unit) \<times> ('s, 'wb) SendStream" where
  "send_send_data data s =
     (if sd_buf s \<noteq> None
      then (Err (SI_ConnectionErrorIncoming (CI_InternalError ''internal error in the http stack'')), s)
      else (Ok (), s\<lparr>sd_buf := Some data\<rparr>))"

definition send_poll_finish ::
  "('hd, 'ba, 'ra, 'bi, 'r, 's, 'wb, 'ae, 'sid, 'o) s2n_quic_ops \<Rightarrow> ('s, 'wb) SendStream \<Rightarrow>
   ('s, 'wb, 'o) send_result option" where
  "send_poll_finish ops s =
     (case send_poll_ready ops s of
        Some (Return (Ready (Ok _)), s1) \<Rightarrow>
          (case xo_finish ops (sd_stream s1) of
             (Err e, st) \<Rightarrow> Some (Return (Ready (Err (convert_stream_error e))), s1\<lparr>sd_stream := st\<rparr>)
           | (Ok _, st) \<Rightarrow> Some (Return (Ready (Ok ())), s1\<lparr>sd_stream := st\<rparr>))
      | other \<Rightarrow> other)"

definition send_reset where
  "send_reset ops reset_code s =
     s\<lparr>sd_stream := xo_reset ops
       (case xo_app_error ops reset_code of None \<Rightarrow> xo_unknown ops | Some e \<Rightarrow> e) (sd_stream s)\<rparr>"

definition send_id where
  "send_id ops s =
     (case xo_stream_id ops (xo_send_id ops (sd_stream s)) of
        None \<Rightarrow> Panic ''invalid stream id'' | Some i \<Rightarrow> Return i)"

section \<open>The bidirectional stream\<close>

record ('s, 'wb, 'r) BidiStream =
  bd_send :: "('s, 'wb) SendStream"
  bd_recv :: "'r RecvStream"

definition BidiStream_from where
  "BidiStream_from ops bidi =
     (case xo_split ops bidi of (recv, send) \<Rightarrow> \<lparr>bd_send = SendStream_new send, bd_recv = RecvStream_new recv\<rparr>)"

definition bidi_split :: "('s, 'wb, 'r) BidiStream \<Rightarrow> ('s, 'wb) SendStream \<times> 'r RecvStream" where
  "bidi_split s = (bd_send s, bd_recv s)"

definition bidi_poll_data where
  "bidi_poll_data ops s = (case recv_poll_data ops (bd_recv s) of (x, r) \<Rightarrow> (x, s\<lparr>bd_recv := r\<rparr>))"

definition bidi_stop_sending where
  "bidi_stop_sending ops error_code s =
     (case recv_stop_sending ops error_code (bd_recv s) of
        Panic msg \<Rightarrow> Panic msg | Return r \<Rightarrow> Return (s\<lparr>bd_recv := r\<rparr>))"

definition bidi_recv_id where
  "bidi_recv_id ops s = recv_id ops (bd_recv s)"

definition bidi_poll_ready where
  "bidi_poll_ready ops s = map_option (map_prod id (\<lambda>w. s\<lparr>bd_send := w\<rparr>)) (send_poll_ready ops (bd_send s))"

definition bidi_poll_finish where
  "bidi_poll_finish ops s = map_option (map_prod id (\<lambda>w. s\<lparr>bd_send := w\<rparr>)) (send_poll_finish ops (bd_send s))"

definition bidi_reset where
  "bidi_reset ops reset_code s = s\<lparr>bd_send := send_reset ops reset_code (bd_send s)\<rparr>"

definition bidi_send_data where
  "bidi_send_data data s = (case send_send_data data (bd_send s) of (r, w) \<Rightarrow> (r, s\<lparr>bd_send := w\<rparr>))"

definition bidi_send_id where
  "bidi_send_id ops s = send_id ops (bd_send s)"

section \<open>The connection\<close>

record ('hd, 'ba, 'ra) Connection =
  cn_conn :: 'hd
  cn_bidi_acceptor :: 'ba
  cn_recv_acceptor :: 'ra

definition Connection_new :: "('q \<Rightarrow> 'hd \<times> 'ac) \<Rightarrow> ('ac \<Rightarrow> 'ba \<times> 'ra) \<Rightarrow> 'q \<Rightarrow> ('hd, 'ba, 'ra) Connection" where
  "Connection_new split_conn split_acceptor new_conn =
     (case split_conn new_conn of (handle, acceptor) \<Rightarrow>
      case split_acceptor acceptor of (bidi, recv) \<Rightarrow>
        \<lparr>cn_conn = handle, cn_bidi_acceptor = bidi, cn_recv_acceptor = recv\<rparr>)"

definition poll_accept_recv where
  "poll_accept_recv ops c =
     (case xo_poll_accept_recv ops (cn_recv_acceptor c) of
        (Pending, ra) \<Rightarrow> (Pending, c\<lparr>cn_recv_acceptor := ra\<rparr>)
      | (Ready (Ok (Some x)), ra) \<Rightarrow> (Ready (Ok (RecvStream_new x)), c\<lparr>cn_recv_acceptor := ra\<rparr>)
      | (Ready (Ok None), ra) \<Rightarrow> (Ready (Err (CI_InternalError ''connection closed'')), c\<lparr>cn_recv_acceptor := ra\<rparr>)
      | (Ready (Err e), ra) \<Rightarrow> (Ready (Err (convert_connection_error e)), c\<lparr>cn_recv_acceptor := ra\<rparr>))"

definition poll_accept_bidi where
  "poll_accept_bidi ops c =
     (case xo_poll_accept_bidi ops (cn_bidi_acceptor c) of
        (Pending, ba) \<Rightarrow> (Pending, c\<lparr>cn_bidi_acceptor := ba\<rparr>)
      | (Ready (Ok (Some x)), ba) \<Rightarrow>
          (case xo_split ops x of
             (recv, send) \<Rightarrow>
               (Ready (Ok \<lparr>bd_send = SendStream_new send, bd_recv = RecvStream_new recv\<rparr>), c\<lparr>cn_bidi_acceptor := ba\<rparr>))
      | (Ready (Ok None), ba) \<Rightarrow> (Ready (Err (CI_InternalError ''connection closed'')), c\<lparr>cn_bidi_acceptor := ba\<rparr>)
      | (Ready (Err e), ba) \<Rightarrow> (Ready (Err (convert_connection_error e)), c\<lparr>cn_bidi_acceptor := ba\<rparr>))"

record 'hd OpenStreams =
  op_conn :: 'hd

definition opener :: "('hd, 'ba, 'ra) Connection \<Rightarrow> 'hd OpenStreams" where
  "opener c = \<lparr>op_conn = cn_conn c\<rparr>"

definition OpenStreams_clone :: "'hd OpenStreams \<Rightarrow> 'hd OpenStreams" where
  "OpenStreams_clone o' = \<lparr>op_conn = op_conn o'\<rparr>"

text \<open>Opening streams, on the connection and on its opener: the code is the same on the handle.\<close>

definition handle_open_bidi where
  "handle_open_bidi ops h =
     (case xo_poll_open_bidi ops h of
        (x, h') \<Rightarrow> (map_poll (map_sum (\<lambda>e. SI_ConnectionErrorIncoming (convert_connection_error e)) (BidiStream_from ops)) x, h'))"

definition handle_open_send where
  "handle_open_send ops h =
     (case xo_poll_open_send ops h of
        (x, h') \<Rightarrow> (map_poll (map_sum (\<lambda>e. SI_ConnectionErrorIncoming (convert_connection_error e)) SendStream_new) x, h'))"

definition conn_poll_open_bidi where
  "conn_poll_open_bidi ops c = (case handle_open_bidi ops (cn_conn c) of (x, h) \<Rightarrow> (x, c\<lparr>cn_conn := h\<rparr>))"

definition conn_poll_open_send where
  "conn_poll_open_send ops c = (case handle_open_send ops (cn_conn c) of (x, h) \<Rightarrow> (x, c\<lparr>cn_conn := h\<rparr>))"

definition opener_poll_open_bidi where
  "opener_poll_open_bidi ops c = (case handle_open_bidi ops (op_conn c) of (x, h) \<Rightarrow> (x, c\<lparr>op_conn := h\<rparr>))"

definition opener_poll_open_send where
  "opener_poll_open_send ops c = (case handle_open_send ops (op_conn c) of (x, h) \<Rightarrow> (x, c\<lparr>op_conn := h\<rparr>))"

text \<open>Closing: the connection expects a code in range, the opener falls back to \<open>UNKNOWN\<close>.\<close>

definition conn_close where
  "conn_close ops code c =
     (case xo_app_error ops code of
        None \<Rightarrow> Panic ''s2n-quic supports error codes up to 2^62-1''
      | Some e \<Rightarrow> Return (c\<lparr>cn_conn := xo_close ops e (cn_conn c)\<rparr>))"

definition opener_close where
  "opener_close ops code c =
     c\<lparr>op_conn := xo_close ops (case xo_app_error ops code of None \<Rightarrow> xo_unknown ops | Some e \<Rightarrow> e) (op_conn c)\<rparr>"

section \<open>The send stream as a queue of bytes\<close>

text \<open>
  What is relied on: \<open>poll_send\<close> takes a chunk whole when it is ready and any part of it when it is
  pending (\<open>written\<close> is what the stream has taken); the first chunk of a \<open>WriteBuf\<close> is empty only when
  nothing is left (\<open>content\<close>), and copying a chunk takes it off the front.
\<close>

definition send_stream_ok where
  "send_stream_ok ops written content \<longleftrightarrow>
     (\<forall>c st x c' st'. xo_poll_send ops c st = (x, c', st') \<longrightarrow>
        (x = Pending \<longrightarrow> written st' @ c' = written st @ c) \<and>
        (x = Ready (Ok ()) \<longrightarrow> c' = [] \<and> written st' = written st @ c)) \<and>
     (\<forall>b. xo_chunk_len ops b = 0 \<longleftrightarrow> content b = []) \<and>
     (\<forall>b n d b'. n \<le> xo_chunk_len ops b \<longrightarrow> xo_copy_to_bytes ops n b = (d, b') \<longrightarrow>
        length d = n \<and> content b = d @ content b')"

lemma send_ok_pending: "send_stream_ok ops written content \<Longrightarrow> xo_poll_send ops c st = (Pending, c', st') \<Longrightarrow>
    written st' @ c' = written st @ c"
  and send_ok_taken: "send_stream_ok ops written content \<Longrightarrow> xo_poll_send ops c st = (Ready (Ok ()), c', st') \<Longrightarrow>
    c' = [] \<and> written st' = written st @ c"
  and send_ok_empty: "send_stream_ok ops written content \<Longrightarrow> xo_chunk_len ops b = 0 \<longleftrightarrow> content b = []"
  and send_ok_copy: "send_stream_ok ops written content \<Longrightarrow> n \<le> xo_chunk_len ops b \<Longrightarrow>
    xo_copy_to_bytes ops n b = (d, b') \<Longrightarrow> length d = n \<and> content b = d @ content b'"
  unfolding send_stream_ok_def by blast+

text \<open>The bytes accepted by \<open>send_data\<close> that the QUIC stream has not taken yet.\<close>

definition queued :: "('wb \<Rightarrow> bytes) \<Rightarrow> ('s, 'wb) SendStream \<Rightarrow> bytes" where
  "queued content s =
     (case sd_chunk s of None \<Rightarrow> [] | Some c \<Rightarrow> c) @ (case sd_buf s of None \<Rightarrow> [] | Some b \<Rightarrow> content b)"

lemma flush_chunk_facts:
  assumes ok: "send_stream_ok ops written content" and f: "flush_chunk ops s = (r, s')"
  shows "sd_buf s' = sd_buf s \<and>
    (case r of
       None \<Rightarrow> sd_chunk s' = None \<and> written (sd_stream s') @ queued content s' = written (sd_stream s) @ queued content s
     | Some (Return Pending) \<Rightarrow> written (sd_stream s') @ queued content s' = written (sd_stream s) @ queued content s
     | Some (Return (Ready (Err e))) \<Rightarrow> True
     | _ \<Rightarrow> False)"
proof (cases "sd_chunk s")
  case None
  with f show ?thesis by (auto simp: flush_chunk_def)
next
  case (Some c)
  obtain x c' st' where p: "xo_poll_send ops c (sd_stream s) = (x, c', st')" by (metis prod_cases3)
  show ?thesis
  proof (cases x)
    case Pending
    with send_ok_pending [OF ok] p Some f show ?thesis
      by (auto simp: flush_chunk_def queued_def simp flip: append_assoc)
  next
    case (Ready y)
    with send_ok_taken [OF ok] p Some f show ?thesis
      by (auto simp: flush_chunk_def queued_def split: sum.splits)
  qed
qed

lemma take_chunk_facts:
  assumes ok: "send_stream_ok ops written content" and t: "take_chunk ops s = (fin, s')" and c: "sd_chunk s = None"
  shows "sd_stream s' = sd_stream s \<and> queued content s' = queued content s \<and>
    (if fin then sd_buf s' = None \<and> sd_chunk s' = None
     else (\<exists>d b b'. d \<noteq> [] \<and> sd_chunk s' = Some d \<and> sd_buf s = Some b \<and> sd_buf s' = Some b' \<and> content b = d @ content b'))"
proof (cases "sd_buf s")
  case None
  with t c show ?thesis by (auto simp: take_chunk_def)
next
  case (Some b)
  obtain d b' where d: "xo_copy_to_bytes ops (xo_chunk_len ops b) b = (d, b')" by fastforce
  note k = send_ok_copy [OF ok order_refl d]
  show ?thesis
  proof (cases "xo_chunk_len ops b = 0")
    case True
    with send_ok_empty [OF ok] Some t c show ?thesis by (auto simp: take_chunk_def queued_def)
  next
    case False
    with k Some t c d show ?thesis by (auto simp: take_chunk_def queued_def Let_def)
  qed
qed

text \<open>
  One poll of the flush loop: it ends, without panic; what the stream has taken, followed by what is
  still queued, is unchanged unless the stream failed; and it is ready only with an empty queue.
\<close>

lemma send_poll_ready_spec:
  assumes ok: "send_stream_ok ops written content"
  shows "\<exists>r s'. send_poll_ready ops s = Some (Return r, s') \<and>
    ((\<forall>e. r \<noteq> Ready (Err e)) \<longrightarrow>
       written (sd_stream s') @ queued content s' = written (sd_stream s) @ queued content s) \<and>
    (r = Ready (Ok ()) \<longrightarrow> sd_chunk s' = None \<and> sd_buf s' = None)"
proof (induction "case sd_buf s of None \<Rightarrow> 0 | Some b \<Rightarrow> length (content b)" arbitrary: s rule: less_induct)
  case less
  obtain r1 s1 where f: "flush_chunk ops s = (r1, s1)" by fastforce
  note ff = flush_chunk_facts [OF ok f]
  show ?case
  proof (cases r1)
    case (Some res)
    with ff f show ?thesis
      by (subst send_poll_ready.simps) (auto split: outcome.splits poll.splits sum.splits)
  next
    case None
    with ff have c: "sd_chunk s1 = None" by simp
    obtain fin s2 where t: "take_chunk ops s1 = (fin, s2)" by fastforce
    note tf = take_chunk_facts [OF ok t c]
    have step: "send_poll_ready ops s = (if fin then Some (Return (Ready (Ok ())), s2) else send_poll_ready ops s2)"
      using f None t by (subst send_poll_ready.simps) simp
    show ?thesis
    proof (cases fin)
      case True
      with step tf ff None show ?thesis by simp
    next
      case False
      with tf obtain d b b' where d: "d \<noteq> []" "sd_buf s1 = Some b" "sd_buf s2 = Some b'" "content b = d @ content b'"
        by auto
      with ff have "sd_buf s = Some b" by simp
      with d have "(case sd_buf s2 of None \<Rightarrow> 0 | Some b \<Rightarrow> length (content b)) <
          (case sd_buf s of None \<Rightarrow> 0 | Some b \<Rightarrow> length (content b))" by simp
      from less.hyps [OF this] step False tf ff None show ?thesis by auto
    qed
  qed
qed

section \<open>The contract of a send stream\<close>

text \<open>A user of the stream: poll until ready, hand over data, poll again, any number of times.\<close>

inductive sends ::
  "('t \<Rightarrow> (('e + unit) poll outcome \<times> 't) option) \<Rightarrow> ('d \<Rightarrow> 't \<Rightarrow> ('e + unit) \<times> 't) \<Rightarrow> 't \<Rightarrow> 'd list \<Rightarrow> 't \<Rightarrow> bool"
  for rdy put where
  sends_nil: "sends rdy put t [] t"
| sends_wait: "sends rdy put t ds u \<Longrightarrow> rdy u = Some (Return r, u') \<Longrightarrow> (\<forall>e. r \<noteq> Ready (Err e)) \<Longrightarrow>
    sends rdy put t ds u'"
| sends_data: "sends rdy put t ds u \<Longrightarrow> rdy u = Some (Return (Ready (Ok ())), u1) \<Longrightarrow> put d u1 = (res, u2) \<Longrightarrow>
    sends rdy put t (ds @ [d]) u2"

locale quic_send_stream =
  fixes rdy :: "'t \<Rightarrow> (('e + unit) poll outcome \<times> 't) option"
    and put :: "'d \<Rightarrow> 't \<Rightarrow> ('e + unit) \<times> 't"
    and good :: "'t \<Rightarrow> bool"
    and idle :: "'t \<Rightarrow> bool"
    and taken :: "'t \<Rightarrow> bytes"
    and waiting :: "'t \<Rightarrow> bytes"
    and bytes_of :: "'d \<Rightarrow> bytes"
  assumes rdy_returns: "good t \<Longrightarrow> \<exists>r t'. rdy t = Some (Return r, t') \<and> good t' \<and>
      ((\<forall>e. r \<noteq> Ready (Err e)) \<longrightarrow> taken t' @ waiting t' = taken t @ waiting t) \<and>
      (r = Ready (Ok ()) \<longrightarrow> idle t')"
    and idle_waiting: "idle t \<Longrightarrow> waiting t = []"
    and put_idle: "good t \<Longrightarrow> idle t \<Longrightarrow> \<exists>t'. put d t = (Ok (), t') \<and> good t' \<and> taken t' = taken t \<and> waiting t' = bytes_of d"
begin

lemma sends_in_order:
  assumes "sends rdy put t ds u" "good t"
  shows "good u \<and> taken u @ waiting u = taken t @ waiting t @ concat (map bytes_of ds)"
  using assms
proof (induction rule: sends.induct)
  case (sends_nil t)
  then show ?case by simp
next
  case (sends_wait t ds u r u')
  with rdy_returns [of u] show ?case by auto
next
  case (sends_data t ds u u1 d res u2)
  then have g: "good u" and e: "taken u @ waiting u = taken t @ waiting t @ concat (map bytes_of ds)" by auto
  from rdy_returns [OF g] sends_data.hyps(2)
  have u1: "good u1" "idle u1" "taken u1 @ waiting u1 = taken u @ waiting u" by auto
  from put_idle [OF u1(1,2), of d] sends_data.hyps(3)
  have "good u2" "taken u2 = taken u1" "waiting u2 = bytes_of d" by auto
  with u1 e idle_waiting [OF u1(2)] show ?case by simp
qed

end

definition send_idle :: "('s, 'wb) SendStream \<Rightarrow> bool" where
  "send_idle s \<longleftrightarrow> sd_chunk s = None \<and> sd_buf s = None"

interpretation ss: quic_send_stream "send_poll_ready ops" send_send_data
  "\<lambda>s. send_stream_ok ops written content" send_idle "\<lambda>s. written (sd_stream s)" "queued content" content
  for ops :: "('hd, 'ba, 'ra, 'bi, 'r, 's, 'wb, 'ae, 'sid, 'o) s2n_quic_ops" and written content
proof (unfold_locales, goal_cases)
  case (1 t)
  then show ?case using send_poll_ready_spec [of ops written content t] by (auto simp: send_idle_def)
next
  case (2 t)
  then show ?case by (simp add: send_idle_def queued_def)
next
  case (3 t d)
  then show ?case by (simp add: send_idle_def send_send_data_def queued_def)
qed

text \<open>The bidirectional stream forwards to its send half.\<close>

interpretation bs: quic_send_stream "bidi_poll_ready ops" bidi_send_data
  "\<lambda>s. send_stream_ok ops written content" "\<lambda>s. send_idle (bd_send s)" "\<lambda>s. written (sd_stream (bd_send s))"
  "\<lambda>s. queued content (bd_send s)" content
  for ops :: "('hd, 'ba, 'ra, 'bi, 'r, 's, 'wb, 'ae, 'sid, 'o) s2n_quic_ops" and written content
proof (unfold_locales, goal_cases)
  case (1 t)
  then show ?case using ss.rdy_returns [OF 1, of "bd_send t"] by (fastforce simp: bidi_poll_ready_def)
next
  case (2 t)
  then show ?case by (rule ss.idle_waiting)
next
  case (3 t d)
  then show ?case using ss.put_idle [of ops written content "bd_send t" d] by (auto simp: bidi_send_data_def)
qed

section \<open>Properties\<close>

text \<open>
  A stream that takes one byte a poll, and is pending while more are left; a buffer is a list of
  chunks.
\<close>

fun sample_send :: "bytes \<Rightarrow> bytes \<Rightarrow> (nat s2n_stream_error + unit) poll \<times> bytes \<times> bytes" where
  "sample_send [] st = (Ready (Ok ()), [], st)"
| "sample_send [b] st = (Ready (Ok ()), [], st @ [b])"
| "sample_send (b # bs) st = (Pending, bs, st @ [b])"

definition sample_quic :: "(unit, unit, unit, bytes, unit, bytes, bytes, 64 word, 64 word, nat) s2n_quic_ops" where
  "sample_quic = \<lparr>xo_poll_accept_recv = (\<lambda>a. (Ready (Ok (Some ())), a)), xo_poll_accept_bidi = (\<lambda>a. (Pending, a)),
     xo_poll_open_bidi = (\<lambda>h. (Ready (Ok []), h)), xo_poll_open_send = (\<lambda>h. (Ready (Ok []), h)),
     xo_close = (\<lambda>e h. h), xo_split = (\<lambda>b. ((), b)), xo_poll_receive = (\<lambda>r. (Ready (Ok None), r)),
     xo_stop_sending = (\<lambda>e r. r), xo_poll_send = sample_send, xo_finish = (\<lambda>s. (Ok (), s)), xo_reset = (\<lambda>e s. s),
     xo_recv_id = (\<lambda>_. 3), xo_send_id = (\<lambda>_. 3), xo_chunk_len = (\<lambda>b. min 2 (length b)),
     xo_copy_to_bytes = (\<lambda>n b. (take n b, drop n b)),
     xo_app_error = (\<lambda>c. if unat c < 2 ^ 62 then Some c else None),
     xo_stream_id = (\<lambda>c. if unat c < 2 ^ 62 then Some c else None), xo_unknown = 0, xo_debug = True\<rparr>"

lemma sample_send_ok: "send_stream_ok sample_quic (\<lambda>st. st) (\<lambda>b. b)"
proof -
  have "(x = Pending \<longrightarrow> st' @ c' = st @ c) \<and> (x = Ready (Ok ()) \<longrightarrow> c' = [] \<and> st' = st @ c)"
    if "sample_send c st = (x, c', st')" for c st x c' st'
    using that by (cases "(c, st)" rule: sample_send.cases) auto
  then show ?thesis unfolding send_stream_ok_def by (auto simp: sample_quic_def min_def split: if_splits)
qed

text \<open>
  C34: the s2n send stream delivers bytes in order, none lost and none twice. Whatever a user hands
  over when the stream is ready, what the QUIC stream has taken followed by what is still queued is
  what it had taken before followed by the data, in the order it was handed over.
\<close>

theorem s2n_send_in_order:
  assumes "send_stream_ok ops written content"
    and "sends (send_poll_ready ops) send_send_data (SendStream_new st) ds u"
  shows "written (sd_stream u) @ queued content u = written st @ concat (map content ds)"
  using ss.sends_in_order [OF assms(2,1)] by (simp add: SendStream_new_def queued_def)

theorem s2n_send_in_order_witness:
  "\<exists>u. sends (send_poll_ready sample_quic) send_send_data (SendStream_new []) [[1, 2, 3]] u \<and>
     sd_stream u @ queued (\<lambda>b. b) u = [1, 2, 3]"
proof -
  let ?u = "\<lparr>sd_stream = [], sd_chunk = None, sd_buf = Some [1, 2, 3]\<rparr>"
  have r: "send_poll_ready sample_quic (SendStream_new []) = Some (Return (Ready (Ok ())), SendStream_new [])"
    by (simp add: send_poll_ready.simps flush_chunk_def take_chunk_def SendStream_new_def)
  have p: "send_send_data [1, 2, 3] (SendStream_new []) = (Ok (), ?u)"
    by (simp add: send_send_data_def SendStream_new_def)
  have "sends (send_poll_ready sample_quic) send_send_data (SendStream_new []) ([] @ [[1, 2, 3]]) ?u"
    by (rule sends_data, rule sends_nil, rule r, rule p)
  then have m: "sends (send_poll_ready sample_quic) send_send_data (SendStream_new []) [[1, 2, 3]] ?u" by simp
  from s2n_send_in_order [OF sample_send_ok m] m show ?thesis by auto
qed

text \<open>
  One poll of the flush loop of the s2n send stream ends without a failed assertion, and a ready
  stream has flushed everything, so that the data handed over next is accepted.
\<close>

theorem s2n_flush_total:
  assumes "send_stream_ok ops written content"
  shows "\<exists>r s'. send_poll_ready ops s = Some (Return r, s') \<and>
    (r = Ready (Ok ()) \<longrightarrow> written (sd_stream s') = written (sd_stream s) @ queued content s \<and>
       (\<forall>d. \<exists>s''. send_send_data d s' = (Ok (), s'')))"
proof -
  obtain r s' where "send_poll_ready ops s = Some (Return r, s')"
    "(\<forall>e. r \<noteq> Ready (Err e)) \<longrightarrow> written (sd_stream s') @ queued content s' = written (sd_stream s) @ queued content s"
    "r = Ready (Ok ()) \<longrightarrow> sd_chunk s' = None \<and> sd_buf s' = None"
    using send_poll_ready_spec [OF assms] by blast
  then show ?thesis by (intro exI [of _ r] exI [of _ s']) (auto simp: queued_def send_send_data_def)
qed

theorem s2n_flush_total_witness:
  "\<exists>r s'. send_poll_ready sample_quic \<lparr>sd_stream = [], sd_chunk = Some [1], sd_buf = Some [2]\<rparr> = Some (Return r, s') \<and>
     (r = Ready (Ok ()) \<longrightarrow> sd_stream s' = [1, 2])"
  using s2n_flush_total [OF sample_send_ok, of "\<lparr>sd_stream = [], sd_chunk = Some [1], sd_buf = Some [2]\<rparr>"]
  by (auto simp: queued_def)

text \<open>
  The s2n send stream finishes behind its data only. When \<open>poll_finish\<close> succeeds, the QUIC stream
  had taken every queued byte before its \<open>finish\<close> was called.
\<close>

theorem s2n_finish_after_flush:
  assumes "send_stream_ok ops written content" "send_poll_finish ops s = Some (Return (Ready (Ok ())), s')"
  shows "\<exists>st. written st = written (sd_stream s) @ queued content s \<and> xo_finish ops st = (Ok (), sd_stream s')"
proof -
  obtain r s1 where p: "send_poll_ready ops s = Some (Return r, s1)"
    and w: "(\<forall>e. r \<noteq> Ready (Err e)) \<longrightarrow> written (sd_stream s1) @ queued content s1 = written (sd_stream s) @ queued content s"
    and i: "r = Ready (Ok ()) \<longrightarrow> sd_chunk s1 = None \<and> sd_buf s1 = None"
    using send_poll_ready_spec [OF assms(1)] by blast
  have r: "r = Ready (Ok ())" using assms(2) p by (auto simp: send_poll_finish_def split: poll.splits sum.splits)
  with assms(2) p have "xo_finish ops (sd_stream s1) = (Ok (), sd_stream s')"
    by (auto simp: send_poll_finish_def split: prod.splits sum.splits)
  with w i r show ?thesis by (auto simp: queued_def)
qed

theorem s2n_finish_after_flush_witness:
  "\<exists>st. st = [1] \<and> xo_finish sample_quic st = (Ok (), [1])"
proof -
  have "send_poll_finish sample_quic \<lparr>sd_stream = [], sd_chunk = Some [1], sd_buf = None\<rparr> =
      Some (Return (Ready (Ok ())), SendStream_new [1])"
    by (simp add: send_poll_finish_def send_poll_ready.simps flush_chunk_def take_chunk_def SendStream_new_def sample_quic_def)
  from s2n_finish_after_flush [OF sample_send_ok this] show ?thesis
    by (auto simp: queued_def SendStream_new_def)
qed



text \<open>
  Error codes of the peer reach h3 unchanged, and the scope of an error is kept. A reset of the
  stream becomes a termination with the same code, an application close a close with the same code,
  a connection error stays a connection error; nothing else becomes either of the two.
\<close>

theorem s2n_errors_keep_scope:
  "(convert_stream_error e = SI_StreamTerminated code \<longleftrightarrow> e = SS_StreamReset code) \<and>
   (convert_stream_error e = SI_ConnectionErrorIncoming ce \<longleftrightarrow>
      (\<exists>c. e = SS_ConnectionError c \<and> ce = convert_connection_error c)) \<and>
   (convert_connection_error c = CI_ApplicationClose code \<longleftrightarrow> c = SE_Application code) \<and>
   (convert_connection_error c = CI_Timeout \<longleftrightarrow> c = SE_IdleTimerExpired)"
  by (cases e; cases c) auto

end
