(* ===== verification/Uploads.thy ===== *)
theory Uploads
  imports ServerIncoming ClientBody
begin

text \<open>
  The upload scenarios of \<open>tonic-h3-tests/src/cancel_reset.rs\<close> and \<open>goaway_reconnect.rs\<close>: request bodies
  that fail or never end, and the server handlers that read a request body and report how it ended. What the
  tests observe on one schedule is proved here for every schedule.
\<close>

lemma wire_frames_content [simp]:
  "body_bytes (wire_frames fs) = body_bytes fs" "body_trailers (wire_frames fs) = body_trailers fs"
  by (induction fs rule: body_bytes.induct; simp)+

section \<open>Bodies that do not end\<close>

text \<open>
  \<open>sleep\<close> makes a timer for a number of milliseconds and \<open>poll_delay\<close> polls it.
\<close>

record 'd FailAfterOneFrame =
  fa_sent :: bool
  fa_delay :: "'d option"

definition FailAfterOneFrame_poll_frame ::
  "(nat \<Rightarrow> 'd) \<Rightarrow> ('d \<Rightarrow> unit poll \<times> 'd) \<Rightarrow> 'd FailAfterOneFrame \<Rightarrow>
   (string + 'h frame) option poll outcome \<times> 'd FailAfterOneFrame" where
  "FailAfterOneFrame_poll_frame sleep poll_delay b =
     (if \<not> fa_sent b then
        (Return (Ready (Some (Ok (FData (replicate 512 0))))), b\<lparr>fa_sent := True, fa_delay := Some (sleep 300)\<rparr>)
      else
        (case fa_delay b of
           None \<Rightarrow> (Panic ''delay armed after first frame'', b)
         | Some delay \<Rightarrow>
             (case poll_delay delay of
                (Ready _, delay') \<Rightarrow>
                  (Return (Ready (Some (Err ''simulated client body-source failure''))), b\<lparr>fa_delay := Some delay'\<rparr>)
              | (Pending, delay') \<Rightarrow> (Return Pending, b\<lparr>fa_delay := Some delay'\<rparr>))))"

record OneFrameThenPending =
  op_sent :: bool

definition OneFrameThenPending_poll_frame ::
  "OneFrameThenPending \<Rightarrow> ('x + 'h frame) option poll \<times> OneFrameThenPending" where
  "OneFrameThenPending_poll_frame b =
     (if \<not> op_sent b then (Ready (Some (Ok (FData (replicate 512 7)))), b\<lparr>op_sent := True\<rparr>) else (Pending, b))"

record 'd BodyErrsAfterOneFrame =
  be_sent :: bool
  be_delay :: "'d option"

definition BodyErrsAfterOneFrame_poll_frame ::
  "(nat \<Rightarrow> 'd) \<Rightarrow> ('d \<Rightarrow> unit poll \<times> 'd) \<Rightarrow> 'd BodyErrsAfterOneFrame \<Rightarrow>
   (string + 'h frame) option poll outcome \<times> 'd BodyErrsAfterOneFrame" where
  "BodyErrsAfterOneFrame_poll_frame sleep poll_delay b =
     (if \<not> be_sent b then
        (Return (Ready (Some (Ok (FData (replicate 512 0))))), b\<lparr>be_sent := True, be_delay := Some (sleep 300)\<rparr>)
      else
        (case be_delay b of
           None \<Rightarrow> (Panic ''delay armed after first frame'', b)
         | Some delay \<Rightarrow>
             (case poll_delay delay of
                (Ready _, delay') \<Rightarrow>
                  (Return (Ready (Some (Err ''simulated client body-source failure''))), b\<lparr>be_delay := Some delay'\<rparr>)
              | (Pending, delay') \<Rightarrow> (Return Pending, b\<lparr>be_delay := Some delay'\<rparr>))))"

text \<open>
  A source whose poll may panic, as the body of a sender: a panic unwinds the task, so that the poll yields
  nothing. The bodies above do not get there: their timer is armed with the first frame.
\<close>

definition as_source :: "('b \<Rightarrow> 'a poll outcome \<times> 'b) \<Rightarrow> 'b \<Rightarrow> 'a poll \<times> 'b" where
  "as_source pf b = (case pf b of (Return r, b') \<Rightarrow> (r, b') | (Panic m, b') \<Rightarrow> (Pending, b'))"

definition fail_armed :: "'d FailAfterOneFrame \<Rightarrow> bool" where
  "fail_armed b \<longleftrightarrow> (fa_sent b \<longrightarrow> fa_delay b \<noteq> None)"

definition errs_armed :: "'d BodyErrsAfterOneFrame \<Rightarrow> bool" where
  "errs_armed b \<longleftrightarrow> (be_sent b \<longrightarrow> be_delay b \<noteq> None)"

text \<open>
  The contract of a source that never ends: from a body that satisfies \<open>good\<close> no poll reports the end, and
  every poll leaves such a body.
\<close>

locale endless_source =
  fixes poll_frame :: "'b \<Rightarrow> ('x + 'h frame) option poll \<times> 'b"
    and good :: "'b \<Rightarrow> bool"
  assumes no_end: "good b \<Longrightarrow> poll_frame b = (r, b') \<Longrightarrow> r \<noteq> Ready None"
    and stays_good: "good b \<Longrightarrow> poll_frame b = (r, b') \<Longrightarrow> good b'"
begin

text \<open>
  A sender over such a source never comes to \<open>finish\<close>, and a stream it has left was not ended by a FIN.
\<close>

fun unfinished :: "('s \<Rightarrow> send_status) \<Rightarrow> ('b, 'h, 's, 'se, 'x, 'c) client_body_fut \<Rightarrow> bool" where
  "unfinished status (CB_running g b c pc) \<longleftrightarrow> good b \<and> pc \<noteq> At_send Op_finish"
| "unfinished status (CB_done w res) \<longleftrightarrow> status w \<noteq> Send_fin"

lemma unfinished_exit:
  assumes "ops_ok ops status sent frames" "guard_armed g" "status (guard_w g) \<noteq> Send_fin"
  shows "unfinished status (snd (client_body_exit ops g res))"
  using armed_drop_never_fin [of "bo_poll_send ops" "bo_stop_stream ops" "bo_drop_stream ops" status sent g] assms
  by (simp add: client_body_exit_def guard_drop_def client_stop_send_stream_def)

lemma unfinished_step:
  assumes src: "bo_poll_frame ops = poll_frame" and inv: "client_body_inv ops status sent frames goal f"
    and u: "unfinished status f"
  shows "unfinished status (snd (client_body_step ops f))"
proof (cases "(ops, f)" rule: client_body_step.cases)
  case (1 ops' g b c)
  have ex: "unfinished status (snd (client_body_exit ops g' res))"
    if "g' = g \<or> g' = set_error_code H3_INTERNAL_ERROR g" for g' res
    by (rule unfinished_exit [of ops status sent frames]) (use 1 inv that in \<open>auto simp: guard_defs\<close>)
  obtain r b' where r: "poll_frame b = (r, b')" by fastforce
  have "good b" using u 1 by simp
  with no_end [OF _ r] stays_good [OF _ r] have "r \<noteq> Ready None" "good b'" by simp_all
  with 1 r src ex [of g] ex [of "set_error_code H3_INTERNAL_ERROR g"] show ?thesis
    by (auto simp: client_body_select_def split: prod.splits bool.splits poll.splits option.splits sum.splits frame.splits)
next
  case (2 ops' g b c op)
  have half: "send_half_ok (bo_poll_send ops) (bo_stop_stream ops) (bo_drop_stream ops) status sent" using 2 inv by simp
  obtain r w' where r: "bo_poll_send ops op (guard_w g) = (r, w')" by fastforce
  have op: "op \<noteq> Op_finish" using u 2 by simp
  then have "status w' \<noteq> Send_fin" using send_half_write [OF half r] 2 inv by simp
  with unfinished_exit [of ops status sent frames "set_error_code H3_INTERNAL_ERROR (g\<lparr>guard_w := w'\<rparr>)"] 2 inv
  have ex: "unfinished status (snd (client_body_exit ops (set_error_code H3_INTERNAL_ERROR (g\<lparr>guard_w := w'\<rparr>)) res))" for res
    by (simp add: guard_defs)
  from 2 r op u ex show ?thesis
    by (auto simp: client_body_send_def deref_mut_def split: poll.splits sum.splits send_op.splits)
next
  case (3 ops' w res)
  with u show ?thesis by simp
qed

lemma never_fin:
  assumes src: "bo_poll_frame ops = poll_frame" and "good bd"
    and ok: "ops_ok ops status sent frames" "status w \<noteq> Send_fin" "sent w = []"
    and moves: "(client_body_moves ops)\<^sup>*\<^sup>* (send_h3_client_body w bd cancel) f"
  shows "status (client_body_drop ops f) \<noteq> Send_fin"
proof -
  have u: "unfinished status f"
    using moves
  proof (induction rule: rtranclp_induct)
    case base
    with \<open>good bd\<close> show ?case by (simp add: send_h3_client_body_def)
  next
    case (step f f')
    from step(2) have f': "f' = snd (client_body_step ops f)" by (auto elim!: client_body_movesE)
    from cb.reach_inv [OF client_body_reach [OF ok step(1)]] f' step(3) src show ?case
      by (auto intro: unfinished_step simp del: client_body_inv.simps)
  qed
  show ?thesis
  proof (cases f)
    case (CB_running g b c pc)
    with cb.running_left [OF cb.reach_inv [OF client_body_reach [OF ok moves]], of "guard_w g"] show ?thesis
      by (auto split: if_splits)
  qed (use u in simp)
qed

end

interpretation fa: endless_source "as_source (FailAfterOneFrame_poll_frame sleep poll_delay)" fail_armed
  for sleep :: "nat \<Rightarrow> 'd" and poll_delay
  by unfold_locales
    (auto simp: as_source_def FailAfterOneFrame_poll_frame_def fail_armed_def split: if_splits option.splits prod.splits poll.splits)

interpretation be: endless_source "as_source (BodyErrsAfterOneFrame_poll_frame sleep poll_delay)" errs_armed
  for sleep :: "nat \<Rightarrow> 'd" and poll_delay
  by unfold_locales
    (auto simp: as_source_def BodyErrsAfterOneFrame_poll_frame_def errs_armed_def split: if_splits option.splits prod.splits poll.splits)

interpretation op: endless_source OneFrameThenPending_poll_frame "\<lambda>b. True"
  by unfold_locales (auto simp: OneFrameThenPending_poll_frame_def split: if_splits)

text \<open>The expectation of the timer never fails.\<close>

lemma fail_after_no_panic:
  "fail_armed b \<Longrightarrow> FailAfterOneFrame_poll_frame sleep poll_delay b = (out, b') \<Longrightarrow> \<not> panics out"
  by (auto simp: FailAfterOneFrame_poll_frame_def fail_armed_def split: if_splits option.splits prod.splits poll.splits)

section \<open>Reading a body and reporting its end\<close>

text \<open>An error as \<open>std::error::Error\<close> shows it: its \<open>Display\<close> and \<open>Debug\<close> texts and its \<open>source\<close>.\<close>

datatype err_chain = ErrNode string string "err_chain option"

fun stringify_sources :: "err_chain option \<Rightarrow> string" where
  "stringify_sources None = []"
| "stringify_sources (Some (ErrNode display debug source)) =
     '' -> '' @ display @ '' | '' @ debug @ stringify_sources source"

fun stringify_err :: "err_chain \<Rightarrow> string" where
  "stringify_err (ErrNode display debug source) = display @ '' | '' @ debug @ stringify_sources source"

datatype ReadOutcome = CleanEof nat | Error string

datatype DrainOutcome = Drain_CleanEof nat | Drain_StreamError string

text \<open>
  An unbounded channel: what was sent and not received yet, and whether the receiver is still there. Sending to
  a channel without a receiver is an error, which the handlers ignore.
\<close>

record 'o outcome_chan =
  oc_queue :: "'o list"
  oc_open :: bool

definition send_outcome :: "'o \<Rightarrow> 'o outcome_chan \<Rightarrow> 'o outcome_chan" where
  "send_outcome x ch = (if oc_open ch then ch\<lparr>oc_queue := oc_queue ch @ [x]\<rparr> else ch)"

text \<open>
  The loop of all three handlers: \<open>body.frame().await\<close> until the body is pending (suspended with the count so far),
  fails or ends.
\<close>

partial_function (option) frame_loop ::
  "('i \<Rightarrow> ('se + 'h frame) option poll \<times> bool \<times> 'i) \<Rightarrow> ('se \<Rightarrow> err_chain) \<Rightarrow> 'i \<Rightarrow> nat \<Rightarrow>
   ((string + nat) poll \<times> 'i \<times> nat) option" where
  "frame_loop poll_frame describe body frames =
     (case poll_frame body of
        (Pending, _, body') \<Rightarrow> Some (Pending, body', frames)
      | (Ready (Some (Ok f)), _, body') \<Rightarrow> frame_loop poll_frame describe body' (frames + 1)
      | (Ready (Some (Err e)), _, body') \<Rightarrow> Some (Ready (Err (stringify_err (describe e))), body', frames)
      | (Ready None, _, body') \<Rightarrow> Some (Ready (Ok frames), body', frames))"

text \<open>A reader suspended at \<open>frame().await\<close>, or done, when its body has been dropped.\<close>

datatype ('i, 'r) read_fut = Reading 'i nat | Read_done 'r

datatype status_code = OK | INTERNAL_SERVER_ERROR

fun read_handler_poll ::
  "('i \<Rightarrow> ('se + 'h frame) option poll \<times> bool \<times> 'i) \<Rightarrow> ('i \<Rightarrow> 'r) \<Rightarrow> ('se \<Rightarrow> err_chain) \<Rightarrow>
   ('i, 'r) read_fut \<Rightarrow> ReadOutcome outcome_chan \<Rightarrow>
   (status_code poll \<times> ('i, 'r) read_fut \<times> ReadOutcome outcome_chan) option" where
  "read_handler_poll poll_frame drop_body describe (Reading body frames) tx =
     (case frame_loop poll_frame describe body frames of
        None \<Rightarrow> None
      | Some (Pending, body', frames') \<Rightarrow> Some (Pending, Reading body' frames', tx)
      | Some (Ready (Err s), body', _) \<Rightarrow>
          Some (Ready INTERNAL_SERVER_ERROR, Read_done (drop_body body'), send_outcome (Error s) tx)
      | Some (Ready (Ok n), body', _) \<Rightarrow> Some (Ready OK, Read_done (drop_body body'), send_outcome (CleanEof n) tx))"
| "read_handler_poll poll_frame drop_body describe (Read_done r) tx = None"

text \<open>
  The other two answer at once and hand the loop to a task. The task of \<open>spawn_read_handler\<close> reports a
  \<open>ReadOutcome\<close>, the one of \<open>drain_handler\<close> a \<open>DrainOutcome\<close>.
\<close>

definition spawn_read_handler :: "'i \<Rightarrow> status_code \<times> ('i, 'r) read_fut" where
  "spawn_read_handler body = (OK, Reading body 0)"

fun read_task_poll ::
  "('i \<Rightarrow> ('se + 'h frame) option poll \<times> bool \<times> 'i) \<Rightarrow> ('i \<Rightarrow> 'r) \<Rightarrow> ('se \<Rightarrow> err_chain) \<Rightarrow>
   ('i, 'r) read_fut \<Rightarrow> ReadOutcome outcome_chan \<Rightarrow>
   (unit poll \<times> ('i, 'r) read_fut \<times> ReadOutcome outcome_chan) option" where
  "read_task_poll poll_frame drop_body describe (Reading body frames) tx =
     (case frame_loop poll_frame describe body frames of
        None \<Rightarrow> None
      | Some (Pending, body', frames') \<Rightarrow> Some (Pending, Reading body' frames', tx)
      | Some (Ready (Err s), body', _) \<Rightarrow> Some (Ready (), Read_done (drop_body body'), send_outcome (Error s) tx)
      | Some (Ready (Ok n), body', _) \<Rightarrow> Some (Ready (), Read_done (drop_body body'), send_outcome (CleanEof n) tx))"
| "read_task_poll poll_frame drop_body describe (Read_done r) tx = None"

definition drain_handler :: "'i \<Rightarrow> status_code \<times> ('i, 'r) read_fut" where
  "drain_handler body = (OK, Reading body 0)"

fun drain_task_poll ::
  "('i \<Rightarrow> ('se + 'h frame) option poll \<times> bool \<times> 'i) \<Rightarrow> ('i \<Rightarrow> 'r) \<Rightarrow> ('se \<Rightarrow> err_chain) \<Rightarrow>
   ('i, 'r) read_fut \<Rightarrow> DrainOutcome outcome_chan \<Rightarrow>
   (unit poll \<times> ('i, 'r) read_fut \<times> DrainOutcome outcome_chan) option" where
  "drain_task_poll poll_frame drop_body describe (Reading body frames) tx =
     (case frame_loop poll_frame describe body frames of
        None \<Rightarrow> None
      | Some (Pending, body', frames') \<Rightarrow> Some (Pending, Reading body' frames', tx)
      | Some (Ready (Err s), body', _) \<Rightarrow>
          Some (Ready (), Read_done (drop_body body'), send_outcome (Drain_StreamError s) tx)
      | Some (Ready (Ok n), body', _) \<Rightarrow> Some (Ready (), Read_done (drop_body body'), send_outcome (Drain_CleanEof n) tx))"
| "drain_task_poll poll_frame drop_body describe (Read_done r) tx = None"

text \<open>The text reported for an error contains the texts of every error in its chain.\<close>

fun chain_texts :: "err_chain \<Rightarrow> string set" where
  "chain_texts (ErrNode display debug None) = {display, debug}"
| "chain_texts (ErrNode display debug (Some e)) = {display, debug} \<union> chain_texts e"

lemma stringify_sources_Some: "stringify_sources (Some e) = '' -> '' @ stringify_err e"
  by (cases e) simp

lemma stringify_head_texts: "t \<in> {display, debug} \<Longrightarrow> sublist t (stringify_err (ErrNode display debug source))"
  using sublist_appendI [of display "[]" "'' | '' @ debug @ stringify_sources source"]
    sublist_appendI [of debug "display @ '' | ''" "stringify_sources source"]
  by auto

lemma stringify_err_texts: "t \<in> chain_texts e \<Longrightarrow> sublist t (stringify_err e)"
proof (induction e rule: chain_texts.induct)
  case (1 display debug)
  then show ?case by (intro stringify_head_texts) simp
next
  case (2 display debug e)
  show ?case
  proof (cases "t \<in> chain_texts e")
    case True
    with 2(1) have "sublist t (stringify_err e)" .
    then have "sublist t ((display @ '' | '' @ debug @ '' -> '') @ stringify_err e)"
      by (simp only: sublist_append) simp
    then show ?thesis by (simp add: stringify_sources_Some del: stringify_sources.simps)
  next
    case False
    with 2(2) show ?thesis by (intro stringify_head_texts) simp
  qed
qed

section \<open>Runs of a reading task\<close>

text \<open>
  A task is polled any number of times, and the channel is what all polls have sent. The body it reads came
  with the request.
\<close>

inductive read_task_step for poll_frame drop_body describe where
  rt_poll: "read_task_poll poll_frame drop_body describe f tx = Some (r, f', tx') \<Longrightarrow>
     read_task_step poll_frame drop_body describe (f, tx) (f', tx')"

inductive_cases read_task_stepE: "read_task_step poll_frame drop_body describe s s'"

text \<open>What the loop may return after the frames \<open>fs\<close> of a body \<open>i\<close> were counted.\<close>

fun loop_result where
  "loop_result poll_frame describe i (Pending, j, n) \<longleftrightarrow> (\<exists>fs. reads poll_frame i fs j \<and> length fs = n)"
| "loop_result poll_frame describe i (Ready (Ok m), j, n) \<longleftrightarrow>
     (\<exists>fs j1 k. reads poll_frame i fs j1 \<and> length fs = m \<and> poll_frame j1 = (Ready None, k, j))"
| "loop_result poll_frame describe i (Ready (Err s), j, n) \<longleftrightarrow>
     (\<exists>fs j1 k e. reads poll_frame i fs j1 \<and> poll_frame j1 = (Ready (Some (Err e)), k, j) \<and> s = stringify_err (describe e))"

lemma read_two_polls:
  assumes "read_task_poll poll_frame drop_body describe f tx = Some (q, g, ty)"
    and "read_task_poll poll_frame drop_body describe g ty = Some (q', h, tz)"
  shows "rtranclp (read_task_step poll_frame drop_body describe) (f, tx) (h, tz)"
proof -
  have "read_task_step poll_frame drop_body describe (f, tx) (g, ty)"
    "read_task_step poll_frame drop_body describe (g, ty) (h, tz)"
    using assms by (auto intro: rt_poll)
  then show ?thesis by (meson r_into_rtranclp rtranclp.rtrancl_into_rtrancl)
qed

lemma frame_loop_reads:
  assumes "frame_loop poll_frame describe j n = Some y" "reads poll_frame i fs j" "length fs = n"
  shows "loop_result poll_frame describe i y"
  using assms(2,3)
proof (induction arbitrary: fs rule: frame_loop.raw_induct [OF _ assms(1), consumes 0])
  case (1 loop poll_frame describe j n y)
  obtain r k j' where p: "poll_frame j = (r, k, j')" by (metis prod_cases3)
  show ?case
  proof (cases "\<exists>f. r = Ready (Some (Ok f))")
    case True
    then obtain f where r: "r = Ready (Some (Ok f))" ..
    with 1(2) p have "loop poll_frame describe j' (n + 1) = Some y" by simp
    from 1(1) [OF this reads_frame [OF 1(3) p [unfolded r]]] 1(4) show ?thesis by simp
  next
    case False
    show ?thesis
    proof (cases r)
      case Pending
      with p 1(2) reads_pending [OF 1(3)] 1(4) show ?thesis by auto
    next
      case (Ready x)
      show ?thesis
      proof (cases x)
        case None
        with Ready p 1(2-4) show ?thesis by (auto intro!: exI [of _ fs] exI [of _ j])
      next
        case (Some v)
        with False Ready obtain e where "v = Err e" by (cases v) auto
        with Some Ready p 1(2,3) show ?thesis by (auto intro!: exI [of _ fs] exI [of _ j])
      qed
    qed
  qed
qed

text \<open>
  The invariant of a reading task: while it reads, it has counted the frames read and reported nothing; once it
  is done it has reported one outcome, and a clean end was the end of the body.
\<close>

definition read_task_inv where
  "read_task_inv poll_frame drop_body describe i tx0 s \<longleftrightarrow>
     (case s of
        (Reading j n, tx) \<Rightarrow> tx = tx0 \<and> (\<exists>fs. reads poll_frame i fs j \<and> length fs = n)
      | (Read_done x, tx) \<Rightarrow>
          (\<exists>out. tx = send_outcome out tx0 \<and>
             (case out of
                CleanEof m \<Rightarrow> \<exists>j n. loop_result poll_frame describe i (Ready (Ok m), j, n) \<and> x = drop_body j
              | Error e \<Rightarrow> \<exists>j n. loop_result poll_frame describe i (Ready (Err e), j, n) \<and> x = drop_body j)))"

lemma read_task_inv_step:
  assumes inv: "read_task_inv poll_frame drop_body describe i tx0 s"
    and step: "read_task_step poll_frame drop_body describe s s'"
  shows "read_task_inv poll_frame drop_body describe i tx0 s'"
  using step
proof cases
  case (rt_poll f tx r f' tx')
  then obtain j n where f: "f = Reading j n" by (cases f) auto
  with inv rt_poll(1) obtain fs where rd: "reads poll_frame i fs j" "length fs = n" and tx: "tx = tx0"
    by (auto simp: read_task_inv_def)
  with f rt_poll(3) obtain y where y: "frame_loop poll_frame describe j n = Some y"
    by (cases "frame_loop poll_frame describe j n") auto
  note lr = frame_loop_reads [OF y rd]
  obtain q j' n' where yy: "y = (q, j', n')" by (metis prod_cases3)
  show ?thesis
  proof (cases q)
    case Pending
    with rt_poll f tx y yy lr show ?thesis by (auto simp: read_task_inv_def)
  next
    case (Ready x)
    show ?thesis
    proof (cases x)
      case (Inl e)
      with Ready rt_poll f tx y yy lr show ?thesis
        by (auto simp: read_task_inv_def simp del: loop_result.simps intro!: exI [of _ "Error e"] exI [of _ j'] exI [of _ n'])
    next
      case (Inr m)
      with Ready rt_poll f tx y yy lr show ?thesis
        by (auto simp: read_task_inv_def simp del: loop_result.simps intro!: exI [of _ "CleanEof m"] exI [of _ j'] exI [of _ n'])
    qed
  qed
qed

lemma read_task_inv_reported:
  assumes "read_task_inv poll_frame drop_body describe i tx0 (f, tx)"
  shows "tx = tx0 \<or> (\<exists>out. tx = send_outcome out tx0 \<and>
    (\<forall>m. out = CleanEof m \<longrightarrow> (\<exists>j n. loop_result poll_frame describe i (Ready (Ok m), j, n))))"
proof (cases f)
  case (Read_done x)
  with assms obtain out where o: "tx = send_outcome out tx0"
    and "case out of CleanEof m \<Rightarrow> \<exists>j n. loop_result poll_frame describe i (Ready (Ok m), j, n) \<and> x = drop_body j
         | Error e \<Rightarrow> \<exists>j n. loop_result poll_frame describe i (Ready (Err e), j, n) \<and> x = drop_body j"
    by (auto simp: read_task_inv_def simp del: loop_result.simps)
  then have "\<forall>m. out = CleanEof m \<longrightarrow> (\<exists>j n. loop_result poll_frame describe i (Ready (Ok m), j, n))"
    by (cases out) (simp_all del: loop_result.simps, iprover)
  with o show ?thesis by blast
qed (use assms in \<open>simp add: read_task_inv_def\<close>)

interpretation rt: invariant_system "\<lambda>s. s = (Reading i 0, tx0)" "read_task_step poll_frame drop_body describe"
  "read_task_inv poll_frame drop_body describe i tx0"
  for poll_frame :: "'i \<Rightarrow> ('se + 'h frame) option poll \<times> bool \<times> 'i" and drop_body :: "'i \<Rightarrow> 'r" and describe i tx0
  by unfold_locales (auto simp: read_task_inv_def [where s = "(Reading i 0, tx0)"] intro: reads_nil read_task_inv_step)

section \<open>Properties\<close>

text \<open>What a clean end that was reported tells of the stream.\<close>

lemma reported_clean_end:
  assumes "recv_ok rops rbytes rtrailers rfin"
    and "rtranclp (read_task_step (server_poll_frame rops) drop_body describe) (Reading (H3IncomingServer_new r) 0, tx) s"
    and "CleanEof n \<in> set (oc_queue (snd s))" "CleanEof n \<notin> set (oc_queue tx)"
  shows "\<exists>fs. length fs = n \<and> body_bytes fs = rbytes r \<and> body_trailers fs = rtrailers r \<and> rfin r"
proof -
  let ?i = "H3IncomingServer_new r"
  have i: "server_incoming_inv rops rbytes rtrailers rfin ?i" and r: "is_s ?i = r"
    using assms(1) by (simp_all add: server_incoming_inv_def H3IncomingServer_new_def)
  have "read_task_inv (server_poll_frame rops) drop_body describe ?i tx (fst s, snd s)"
    unfolding prod.collapse by (rule rt.reach_inv, rule reach_rtranclp [OF _ assms(2)]) simp
  from read_task_inv_reported [OF this] assms(3,4)
  obtain j m where "loop_result (server_poll_frame rops) describe ?i (Ready (Ok n), j, m)"
    by (auto simp: send_outcome_def simp del: loop_result.simps split: if_splits)
  then obtain fs j1 k where "reads (server_poll_frame rops) ?i fs j1" "length fs = n"
    "server_poll_frame rops j1 = (Ready None, k, j)" by auto
  with si.clean_end_is_complete [OF _ i] r show ?thesis by metis
qed

lemma drain_as_read:
  "drain_task_poll poll_frame drop_body describe f tx =
     (case read_task_poll poll_frame drop_body describe f \<lparr>oc_queue = [], oc_open = True\<rparr> of
        None \<Rightarrow> None
      | Some (r, f', ch) \<Rightarrow>
          Some (r, f', fold send_outcome (map (\<lambda>out. case out of CleanEof n \<Rightarrow> Drain_CleanEof n | Error s \<Rightarrow> Drain_StreamError s)
            (oc_queue ch)) tx))"
  by (cases f) (auto simp: send_outcome_def split: option.splits prod.splits poll.splits sum.splits)

lemma endless_upload_never_clean:
  assumes "endless_source (bo_poll_frame ops) good" "good bd"
    and "ops_ok ops status sent frames" "status w \<noteq> Send_fin" "sent w = []"
    and "(client_body_moves ops)\<^sup>*\<^sup>* (send_h3_client_body w bd cancel) f"
    and "recv_ok rops rbytes rtrailers rfin" "carries status sent rbytes rtrailers rfin (client_body_drop ops f) r"
    and "rtranclp (read_task_step (server_poll_frame rops) drop_body describe) (Reading (H3IncomingServer_new r) 0, tx) s"
    and "CleanEof n \<notin> set (oc_queue tx)"
  shows "CleanEof n \<notin> set (oc_queue (snd s))"
proof
  assume "CleanEof n \<in> set (oc_queue (snd s))"
  with reported_clean_end [OF assms(7,9) _ assms(10)] have "rfin r" by blast
  with assms(8) have "status (client_body_drop ops f) = Send_fin" by (simp add: carries_def)
  with endless_source.never_fin [OF assms(1) refl assms(2-6)] show False by simp
qed

text \<open>A concrete failing upload: a timer that counts down, over the sample stream.\<close>

definition fail_start :: "'d FailAfterOneFrame" where
  "fail_start = \<lparr>fa_sent = False, fa_delay = None\<rparr>"

fun tick :: "nat \<Rightarrow> unit poll \<times> nat" where
  "tick 0 = (Ready (), 0)"
| "tick (Suc n) = (Pending, n)"

definition fail_ops_sample :: "(nat FailAfterOneFrame, nat, sample_stream, string, string, bool) client_body_ops" where
  "fail_ops_sample = \<lparr>bo_poll_frame = as_source (FailAfterOneFrame_poll_frame (\<lambda>ms. 1) tick), bo_poll_send = sample_poll_send,
     bo_stop_stream = sample_stop, bo_drop_stream = sample_drop, cb_poll_cancel = (\<lambda>c. (c, c))\<rparr>"

definition fail_frames :: "'d FailAfterOneFrame \<Rightarrow> nat frame list" where
  "fail_frames b = (if fa_sent b then [] else [FData (replicate 512 0)])"

lemma fail_start_armed [simp]: "fail_armed fail_start"
  by (simp add: fail_armed_def fail_start_def)

lemma fail_body_ok: "body_ok (as_source (FailAfterOneFrame_poll_frame sleep poll_delay)) fail_frames"
  unfolding body_ok_def
  by (auto simp: as_source_def FailAfterOneFrame_poll_frame_def fail_frames_def split: prod.splits poll.splits option.splits)

text \<open>
  C13: an upload whose body fails is never reported as complete. With the body \<open>FailAfterOneFrame\<close>, however the
  sender and the task that \<open>spawn_read_handler\<close> starts are scheduled, and whenever the sender is dropped, the task
  never reports a clean end of the request body.
\<close>

theorem failing_upload_never_clean:
  assumes "ops_ok ops status sent frames" "status w \<noteq> Send_fin" "sent w = []"
    and "bo_poll_frame ops = as_source (FailAfterOneFrame_poll_frame sleep poll_delay)"
    and "(client_body_moves ops)\<^sup>*\<^sup>* (send_h3_client_body w fail_start cancel) f"
    and "recv_ok rops rbytes rtrailers rfin" "carries status sent rbytes rtrailers rfin (client_body_drop ops f) r"
    and "rtranclp (read_task_step (server_poll_frame rops) drop_body describe)
      (snd (spawn_read_handler (H3IncomingServer_new r)), \<lparr>oc_queue = [], oc_open = b\<rparr>) s"
  shows "CleanEof n \<notin> set (oc_queue (snd s))"
proof -
  have e: "endless_source (bo_poll_frame ops) fail_armed" unfolding assms(4) by unfold_locales
  from endless_upload_never_clean [OF e fail_start_armed assms(1-3,5-7) assms(8) [unfolded spawn_read_handler_def snd_conv]]
  show ?thesis by simp
qed

theorem failing_upload_never_clean_witness:
  "\<exists>f s. (client_body_moves fail_ops_sample)\<^sup>*\<^sup>* (send_h3_client_body (Send_open, []) fail_start False) f \<and>
    rtranclp (read_task_step (server_poll_frame sample_recv_ops) (server_incoming_drop sample_recv_ops) (\<lambda>e. ErrNode e e None))
      (snd (spawn_read_handler (H3IncomingServer_new
        \<lparr>sr_chunks = [[0, 0]], sr_trailers = [], sr_fin = False, sr_stopped = None\<rparr>)),
       \<lparr>oc_queue = [], oc_open = True\<rparr>) s \<and>
    oc_queue (snd s) = [Error ''reset | reset''] \<and> CleanEof 1 \<notin> set (oc_queue (snd s))"
proof -
  let ?r = "\<lparr>sr_chunks = [[0, 0]], sr_trailers = [], sr_fin = False, sr_stopped = None\<rparr>"
  let ?d = "\<lambda>e. ErrNode e e None" and ?ch = "\<lparr>oc_queue = [], oc_open = True\<rparr> :: ReadOutcome outcome_chan"
  let ?j = "\<lparr>is_s = ?r\<lparr>sr_chunks := []\<rparr>, is_data_done = True, is_finished = False\<rparr>"
  let ?p = "read_task_poll (server_poll_frame sample_recv_ops) (server_incoming_drop sample_recv_ops) ?d"
  let ?s = "(Read_done (?r\<lparr>sr_chunks := []\<rparr>), \<lparr>oc_queue = [Error ''reset | reset''], oc_open = True\<rparr>)"
  note d = frame_loop.simps server_poll_frame_def H3IncomingServer_new_def sample_recv_ops_def buf_bytes_def
    server_incoming_drop_def send_outcome_def
  have n: "replicate 512 (0 :: 8 word) \<noteq> [255]" by (auto dest: arg_cong [of _ _ length])
  obtain f where "client_body_poll fail_ops_sample (send_h3_client_body (Send_open, []) fail_start False) = Some (Pending, f)"
    by (simp add: client_body_poll.simps client_body_defs guard_defs fail_ops_sample_def as_source_def
        FailAfterOneFrame_poll_frame_def fail_start_def n)
  from conjunct1 [OF client_body_poll_moves [OF this]]
  have m: "(client_body_moves fail_ops_sample)\<^sup>*\<^sup>* (send_h3_client_body (Send_open, []) fail_start False) f" by simp
  have ok: "ops_ok fail_ops_sample fst snd fail_frames"
    by (simp add: fail_ops_sample_def fail_body_ok sample_half_ok)
  have c: "carries fst snd (\<lambda>r. concat (sr_chunks r)) sr_trailers sr_fin (client_body_drop fail_ops_sample f) ?r"
    by (simp add: carries_def)
  have p1: "?p (Reading (H3IncomingServer_new ?r) 0) ?ch = Some (Pending, Reading ?j 1, ?ch)" by (simp add: d)
  have p2: "?p (Reading ?j 1) ?ch = Some (Ready (), fst ?s, snd ?s)" by (simp add: d)
  have run: "rtranclp (read_task_step (server_poll_frame sample_recv_ops) (server_incoming_drop sample_recv_ops) ?d)
      (snd (spawn_read_handler (H3IncomingServer_new ?r)), ?ch) ?s"
    unfolding spawn_read_handler_def snd_conv
    using read_two_polls [OF p1 p2] by simp
  from failing_upload_never_clean [OF ok _ _ _ m sample_recv_ok c run, of "\<lambda>ms. 1" tick 1]
  have "CleanEof 1 \<notin> set (oc_queue (snd ?s))" by (simp add: fail_ops_sample_def)
  with m run show ?thesis by (intro exI [of _ f] exI [of _ ?s]) simp
qed

text \<open>The same holds of the other two bodies: one that never ends, and the one of the reconnect tests.\<close>

lemma pending_upload_never_clean:
  assumes "ops_ok ops status sent frames" "status w \<noteq> Send_fin" "sent w = []"
    and "bo_poll_frame ops = OneFrameThenPending_poll_frame"
    and "(client_body_moves ops)\<^sup>*\<^sup>* (send_h3_client_body w bd cancel) f"
    and "recv_ok rops rbytes rtrailers rfin" "carries status sent rbytes rtrailers rfin (client_body_drop ops f) r"
    and "rtranclp (read_task_step (server_poll_frame rops) drop_body describe)
      (snd (spawn_read_handler (H3IncomingServer_new r)), \<lparr>oc_queue = [], oc_open = b\<rparr>) s"
  shows "CleanEof n \<notin> set (oc_queue (snd s))"
proof -
  have e: "endless_source (bo_poll_frame ops) (\<lambda>b. True)" unfolding assms(4) by unfold_locales
  from endless_upload_never_clean [OF e TrueI assms(1-3,5-7) assms(8) [unfolded spawn_read_handler_def snd_conv]]
  show ?thesis by simp
qed

lemma erring_upload_never_fin:
  assumes "ops_ok ops status sent frames" "status w \<noteq> Send_fin" "sent w = []"
    and "bo_poll_frame ops = as_source (BodyErrsAfterOneFrame_poll_frame sleep poll_delay)"
    and "(client_body_moves ops)\<^sup>*\<^sup>* (send_h3_client_body w \<lparr>be_sent = False, be_delay = None\<rparr> cancel) f"
  shows "status (client_body_drop ops f) \<noteq> Send_fin"
  by (rule be.never_fin [OF assms(4) _ assms(1-3,5)]) (simp add: errs_armed_def)

section \<open>A complete upload\<close>

text \<open>
  A stream that takes everything at once, a body that has all its frames and a receiver to which everything was
  delivered. The measures \<open>m\<close> say that a body and a stream hold finitely much.
\<close>

definition eager_stream :: "('h send_op \<Rightarrow> 's \<Rightarrow> ('se + unit) poll \<times> 's) \<Rightarrow> ('s \<Rightarrow> send_status) \<Rightarrow> bool" where
  "eager_stream poll_send status \<longleftrightarrow>
     (\<forall>op w. status w = Send_open \<longrightarrow>
        (\<exists>w'. poll_send op w = (Ready (Ok ()), w') \<and> (op \<noteq> Op_finish \<longrightarrow> status w' = Send_open)))"

definition full_body :: "('b \<Rightarrow> ('x + 'h frame) option poll \<times> 'b) \<Rightarrow> ('b \<Rightarrow> nat) \<Rightarrow> bool" where
  "full_body poll_frame m \<longleftrightarrow>
     (\<forall>b. case poll_frame b of
        (Ready None, _) \<Rightarrow> True
      | (Ready (Some (Ok f)), b') \<Rightarrow> m b' < m b
      | _ \<Rightarrow> False)"

definition eager_recv :: "('r, 'buf, 'h, 'se) recv_ops \<Rightarrow> ('r \<Rightarrow> bool) \<Rightarrow> ('r \<Rightarrow> nat) \<Rightarrow> bool" where
  "eager_recv rops rfin m \<longleftrightarrow>
     (\<forall>r. rfin r \<longrightarrow>
        (\<exists>x r'. ro_poll_recv_data rops r = (Ready (Ok x), r') \<and> (x \<noteq> None \<longrightarrow> m r' < m r)) \<and>
        (\<exists>x r'. ro_poll_recv_trailers rops r = (Ready (Ok x), r') \<and> (x \<noteq> None \<longrightarrow> m r' < m r)))"

lemma eager_upload_send:
  assumes ok: "send_half_ok (bo_poll_send ops) (bo_stop_stream ops) (bo_drop_stream ops) status sent"
    and e: "eager_stream (bo_poll_send ops) status" "full_body (bo_poll_frame ops) m"
      "\<And>c. \<not> fst (cb_poll_cancel ops c)"
    and o: "status (guard_w g) = Send_open"
  shows "\<exists>w'. client_body_poll ops (CB_running g b c At_select) = Some (Ready (Ok ()), CB_done w' (Ok ())) \<and>
    status w' = Send_fin"
  using o
proof (induction "m b" arbitrary: b c g rule: less_induct)
  case less
  note go = e(1) [unfolded eager_stream_def, rule_format]
  from e(3) obtain c' where c: "cb_poll_cancel ops c = (False, c')" by (metis prod.collapse)
  obtain r b' where r: "bo_poll_frame ops b = (r, b')" by fastforce
  from r consider "r = Ready None" | f where "r = Ready (Some (Ok f))" "m b' < m b"
    using e(2) [unfolded full_body_def, rule_format, of b] by (auto split: poll.splits option.splits sum.splits)
  then show ?case
  proof cases
    case 1
    obtain w1 where w1: "bo_poll_send ops Op_finish (guard_w g) = (Ready (Ok ()), w1)" using go [OF less(2)] by blast
    from send_half_finish [OF ok w1] send_half_drop [OF ok] have "status (bo_drop_stream ops w1) = Send_fin" by simp
    with 1 c r w1 show ?thesis
      by (simp add: client_body_poll.simps [of ops "CB_running _ _ _ _"] client_body_poll.simps [of ops "CB_done _ _"]
          client_body_select_def client_body_send_def client_body_exit_def deref_mut_def disarm_def guard_drop_def)
  next
    case (2 f)
    have next_turn: ?thesis if "client_body_poll ops (CB_running g b c At_select) = client_body_poll ops (CB_running g' b' c' At_select)"
      "status (guard_w g') = Send_open" for g' :: "'b SendResetGuard"
      using less(1) [OF 2(2) that(2)] that(1) by simp
    have send: ?thesis if op: "op \<noteq> Op_finish" "client_body_select ops g b c = (Again, CB_running g b' c' (At_send op))" for op
    proof -
      obtain w1 where w1: "bo_poll_send ops op (guard_w g) = (Ready (Ok ()), w1)" "status w1 = Send_open"
        using go [OF less(2)] op(1) by blast
      have "client_body_send ops g b' c' op = (Again, CB_running (g\<lparr>guard_w := w1\<rparr>) b' c' At_select)"
        using w1 op(1) by (cases op) (simp_all add: client_body_send_def deref_mut_def)
      with op w1 show ?thesis
        by (intro next_turn [of "g\<lparr>guard_w := w1\<rparr>"])
          (simp_all add: client_body_poll.simps [of ops "CB_running g b c At_select"] client_body_poll.simps [of ops "CB_running g b' c' (At_send op)"])
    qed
    show ?thesis
    proof (cases f)
      case (FData d)
      with 2(1) c r show ?thesis by (intro send [of "Op_data d"]) (simp_all add: client_body_select_def)
    next
      case (FTrailers t)
      with 2(1) c r show ?thesis by (intro send [of "Op_trailers t"]) (simp_all add: client_body_select_def)
    next
      case FOther
      with 2(1) c r less(2) show ?thesis
        by (intro next_turn [of g]) (simp_all add: client_body_poll.simps [of ops "CB_running g b c At_select"] client_body_select_def)
    qed
  qed
qed

text \<open>Reading everything: the first poll ends where the data ends, the second at the end of the trailers.\<close>

lemma eager_data:
  assumes ok: "recv_ok rops rbytes rtrailers rfin" and e: "eager_recv rops rfin m" and f: "rfin (is_s i)" "\<not> is_data_done i"
  shows "\<exists>j n'. frame_loop (server_poll_frame rops) describe i n = Some (Pending, j, n') \<and> is_data_done j \<and> rfin (is_s j)"
  using f
proof (induction "m (is_s i)" arbitrary: i n rule: less_induct)
  case less
  from e less(2) obtain x r' where d: "ro_poll_recv_data rops (is_s i) = (Ready (Ok x), r')" and m: "x \<noteq> None \<longrightarrow> m r' < m (is_s i)"
    unfolding eager_recv_def by blast
  have r': "rfin r'" using recv_ok_data(1) [OF ok d] less(2) by simp
  show ?case
  proof (cases x)
    case None
    with d less(3) r' show ?thesis by (simp add: frame_loop.simps server_poll_frame_def)
  next
    case (Some c)
    with m less(3) r' less(1) [of "i\<lparr>is_s := r'\<rparr>" "n + 1"] d show ?thesis
      by (simp add: frame_loop.simps [of _ _ i] server_poll_frame_def [of _ i])
  qed
qed

lemma eager_trailers:
  assumes ok: "recv_ok rops rbytes rtrailers rfin" and e: "eager_recv rops rfin m" and f: "rfin (is_s i)" "is_data_done i"
  shows "\<exists>j n' k. frame_loop (server_poll_frame rops) describe i n = Some (Ready (Ok k), j, n')"
  using f
proof (induction "m (is_s i)" arbitrary: i n rule: less_induct)
  case less
  from e less(2) obtain x r' where d: "ro_poll_recv_trailers rops (is_s i) = (Ready (Ok x), r')" and m: "x \<noteq> None \<longrightarrow> m r' < m (is_s i)"
    unfolding eager_recv_def by blast
  have r': "rfin r'" using recv_ok_trailers(1) [OF ok d] less(2) by simp
  show ?case
  proof (cases x)
    case None
    with d less(3) r' show ?thesis by (simp add: frame_loop.simps server_poll_frame_def)
  next
    case (Some c)
    with m less(3) r' less(1) [of "i\<lparr>is_s := r'\<rparr>" "n + 1"] d show ?thesis
      by (simp add: frame_loop.simps [of _ _ i] server_poll_frame_def [of _ i])
  qed
qed

lemma eager_read:
  assumes ok: "recv_ok rops rbytes rtrailers rfin" and e: "eager_recv rops rfin m" and f: "rfin r"
  shows "\<exists>fs x. rtranclp (read_task_step (server_poll_frame rops) drop_body describe) (Reading (H3IncomingServer_new r) 0, tx)
      (Read_done x, send_outcome (CleanEof (length fs)) tx) \<and> body_bytes fs = rbytes r \<and> body_trailers fs = rtrailers r"
proof -
  let ?i = "H3IncomingServer_new r" and ?p = "server_poll_frame rops"
  have i: "rfin (is_s ?i)" "\<not> is_data_done ?i" "is_s ?i = r" "server_incoming_inv rops rbytes rtrailers rfin ?i"
    using ok f by (simp_all add: server_incoming_inv_def H3IncomingServer_new_def)
  obtain j n where p1: "frame_loop ?p describe ?i 0 = Some (Pending, j, n)" and j: "is_data_done j" "rfin (is_s j)"
    using eager_data [OF ok e i(1,2)] by blast
  obtain j2 n2 k where p2: "frame_loop ?p describe j n = Some (Ready (Ok k), j2, n2)"
    using eager_trailers [OF ok e j(2,1)] by blast
  from frame_loop_reads [OF p1 reads_nil] obtain fs0 where rd: "reads ?p ?i fs0 j" "length fs0 = n" by auto
  from frame_loop_reads [OF p2 rd] obtain fs j1 q where fs: "reads ?p ?i fs j1" "length fs = k" "?p j1 = (Ready None, q, j2)"
    by auto
  have "rtranclp (read_task_step ?p drop_body describe) (Reading ?i 0, tx) (Read_done (drop_body j2), send_outcome (CleanEof k) tx)"
    using p1 p2 by (intro read_two_polls [where q = Pending and g = "Reading j n" and ty = tx and q' = "Ready ()"]) simp_all
  with si.clean_end_is_complete [OF fs(1) i(4) fs(3)] fs(2) i(3) show ?thesis by auto
qed


text \<open>A stream without faults, a body given by its frames, and the receiver the network makes of a stream.\<close>

fun list_poll_frame :: "nat frame list \<Rightarrow> (nat + nat frame) option poll \<times> nat frame list" where
  "list_poll_frame [] = (Ready None, [])"
| "list_poll_frame (f # fs) = (Ready (Some (Ok f)), fs)"

fun plain_poll_send :: "nat send_op \<Rightarrow> sample_stream \<Rightarrow> (string + unit) poll \<times> sample_stream" where
  "plain_poll_send op (Send_open, fs) = (Ready (Ok ()), (if op = Op_finish then Send_fin else Send_open, fs @ op_frames op))"
| "plain_poll_send op (st, fs) = (Ready (Err ''closed''), (st, fs))"

definition plain_client_ops :: "(nat frame list, nat, sample_stream, string, nat, bool) client_body_ops" where
  "plain_client_ops = \<lparr>bo_poll_frame = list_poll_frame, bo_poll_send = plain_poll_send,
     bo_stop_stream = sample_stop, bo_drop_stream = sample_drop, cb_poll_cancel = (\<lambda>c. (False, c))\<rparr>"

fun plain_deliver :: "sample_stream \<Rightarrow> sample_recv" where
  "plain_deliver (st, fs) =
     \<lparr>sr_chunks = map (\<lambda>b. [b]) (body_bytes fs), sr_trailers = body_trailers fs, sr_fin = (st = Send_fin), sr_stopped = None\<rparr>"

lemma plain_half_ok: "send_half_ok plain_poll_send sample_stop sample_drop fst snd"
proof -
  have "fst w \<le> fst w' \<and>
      (fst w \<noteq> Send_fin \<and> \<not> (op = Op_finish \<and> r = Ready (Ok ())) \<longrightarrow> fst w' \<noteq> Send_fin) \<and>
      (op = Op_finish \<and> r = Ready (Ok ()) \<longrightarrow> fst w' = Send_fin) \<and>
      (r = Pending \<longrightarrow> snd w' = snd w) \<and> (r = Ready (Ok ()) \<longrightarrow> snd w' = snd w @ op_frames op)"
    if "plain_poll_send op w = (r, w')" for op w r w'
    using that by (cases "(op, w)" rule: plain_poll_send.cases) (auto split: if_splits)
  then show ?thesis using sample_half_ok unfolding send_half_ok_def by blast
qed

lemma plain_ops_ok: "ops_ok plain_client_ops fst snd (\<lambda>fs. fs)"
proof -
  have "body_ok list_poll_frame (\<lambda>fs. fs)"
    unfolding body_ok_def by (intro allI, case_tac b) simp_all
  then show ?thesis by (simp add: plain_client_ops_def plain_half_ok)
qed

lemma plain_eager:
  "eager_stream (bo_poll_send plain_client_ops) fst" "full_body (bo_poll_frame plain_client_ops) length"
  "\<And>c. \<not> fst (cb_poll_cancel plain_client_ops c)"
  "eager_recv sample_recv_ops sr_fin (\<lambda>r. length (sr_chunks r) + length (sr_trailers r))"
proof -
  show "eager_stream (bo_poll_send plain_client_ops) fst" by (auto simp: eager_stream_def plain_client_ops_def)
  have "case list_poll_frame b of (Ready None, _) \<Rightarrow> True | (Ready (Some (Ok f)), b') \<Rightarrow> length b' < length b | _ \<Rightarrow> False" for b
    by (cases b) simp_all
  then show "full_body (bo_poll_frame plain_client_ops) length" by (simp add: full_body_def plain_client_ops_def)
  show "\<not> fst (cb_poll_cancel plain_client_ops c)" for c by (simp add: plain_client_ops_def)
  have "\<exists>x r'. sample_data (sr_chunks r) r = (Ready (Ok x), r') \<and>
      (x \<noteq> None \<longrightarrow> length (sr_chunks r') + length (sr_trailers r') < length (sr_chunks r) + length (sr_trailers r))" for r
    by (cases "sr_chunks r") simp_all
  moreover have "\<exists>x r'. sample_trail (sr_trailers r) r = (Ready (Ok x), r') \<and>
      (x \<noteq> None \<longrightarrow> length (sr_chunks r') + length (sr_trailers r') < length (sr_chunks r) + length (sr_trailers r))"
    if "sr_fin r" for r
    using that by (cases "sr_trailers r") simp_all
  ultimately show "eager_recv sample_recv_ops sr_fin (\<lambda>r. length (sr_chunks r) + length (sr_trailers r))"
    by (simp add: eager_recv_def sample_recv_ops_def)
qed


end
