(* ===== verification/DriverTask.thy ===== *)
theory DriverTask
  imports ConnLifecycle
begin

text \<open>
  The sender of \<open>client_conn.rs\<close> together with the driver tasks it has handed to the executor. A
  driver task and the sender share the one-shot channel that \<open>poll_ready\<close> reads: the composition shows
  that the end of a driver is never missed.
\<close>

section \<open>The composed system\<close>

record ('conn, 'cf, 'hf, 'sr, 'rx, 'ex, 'se, 'x, 'm, 'r, 'tx, 'b, 'w, 'drv, 'dtx) driven_sys =
  dr_sys :: "('conn, 'cf, 'hf, 'sr, 'rx, 'ex, 'se, 'x, 'm, 'r, 'tx, 'b, 'w) client_sys"
  dr_tasks :: "('drv, 'dtx) driver_task list"

definition sys_net where
  "sys_net w s = s\<lparr>sys_cells := (sys_cells s)\<lparr>net := w\<rparr>\<rparr>"

definition task_poll where
  "task_poll cops i d =
     (case driver_poll cops (dr_tasks d ! i) (net (sys_cells (dr_sys d))) of
        (r, t, w) \<Rightarrow> (r, \<lparr>dr_sys = sys_net w (dr_sys d), dr_tasks = (dr_tasks d)[i := t]\<rparr>))"

text \<open>
  What is relied on of the one-shot channel of tokio: a channel has two ends that belong together
  (\<open>pair\<close>); sending notifies the receiver at the other end; a notified receiver does not answer that
  the channel is empty; and a notification is not lost, whatever else is polled.
\<close>

definition keeps :: "('rx \<Rightarrow> 'w \<Rightarrow> bool) \<Rightarrow> 'w \<Rightarrow> 'w \<Rightarrow> bool" where
  "keeps notified w w' \<longleftrightarrow> (\<forall>rx. notified rx w \<longrightarrow> notified rx w')"

lemma keeps_refl [simp]: "keeps notified w w"
  by (simp add: keeps_def)

lemma keeps_trans: "keeps notified w w' \<Longrightarrow> keeps notified w' w'' \<Longrightarrow> keeps notified w w''"
  by (simp add: keeps_def)

definition oneshot_ok ::
  "('conn, 'cf, 'qc, 'hf, 'drv, 'sr, 'dtx, 'rx, 'se, 'x, 'w) conn_ops \<Rightarrow> ('dtx \<Rightarrow> 'rx \<Rightarrow> bool) \<Rightarrow>
   ('rx \<Rightarrow> 'w \<Rightarrow> bool) \<Rightarrow> bool" where
  "oneshot_ok cops pair notified \<longleftrightarrow>
     (\<forall>w tx rx w'. co_channel cops w = ((tx, rx), w') \<longrightarrow> pair tx rx \<and> keeps notified w w') \<and>
     (\<forall>rx w x rx' w'. co_try_recv cops rx w = (x, rx', w') \<longrightarrow>
        keeps notified w w' \<and> (notified rx w \<longrightarrow> x \<noteq> Recv_empty) \<and> (\<forall>tx. pair tx rx \<longrightarrow> pair tx rx')) \<and>
     (\<forall>tx w. keeps notified w (co_tx_send cops tx w) \<and> (\<forall>rx. pair tx rx \<longrightarrow> notified rx (co_tx_send cops tx w))) \<and>
     (\<forall>cf w r cf' w'. co_poll_connect cops cf w = (r, cf', w') \<longrightarrow> keeps notified w w') \<and>
     (\<forall>hf w r hf' w'. co_poll_h3_new cops hf w = (r, hf', w') \<longrightarrow> keeps notified w w') \<and>
     (\<forall>d w r d' w'. co_poll_close cops d w = (r, d', w') \<longrightarrow> keeps notified w w')"

definition requests_keep ::
  "('sr, 'hd, 'st, 's, 'r, 'tx, 'c, 'resp, 'se, 'b, 'h, 'x, 'w) request_ops \<Rightarrow> ('rx \<Rightarrow> 'w \<Rightarrow> bool) \<Rightarrow> bool" where
  "requests_keep rops notified \<longleftrightarrow>
     (\<forall>sr hd w r sr' w'. so_poll_send_request rops sr hd w = (r, sr', w') \<longrightarrow> keeps notified w w') \<and>
     (\<forall>w p w'. so_channel rops w = (p, w') \<longrightarrow> keeps notified w w') \<and>
     (\<forall>r w x r' w'. so_poll_recv_response rops r w = (x, r', w') \<longrightarrow> keeps notified w w')"

inductive driven_step ::
  "('conn, 'cf, 'qc, 'hf, 'drv, 'sr, 'dtx, 'rx, 'se, 'x, 'w) conn_ops \<Rightarrow>
   ('sr, uri \<times> 'm, 'st, 's, 'r, 'tx, 'c, 'resp, 'se, 'b, 'h, 'x, 'w) request_ops \<Rightarrow>
   (string \<Rightarrow> string \<Rightarrow> string \<Rightarrow> 'x + uri) \<Rightarrow> ('rx \<Rightarrow> 'w \<Rightarrow> bool) \<Rightarrow>
   ('conn, 'cf, 'hf, 'sr, 'rx, 'ex, 'se, 'x, 'm, 'r, 'tx, 'b, 'w, 'drv, 'dtx) driven_sys \<Rightarrow>
   ('conn, 'cf, 'hf, 'sr, 'rx, 'ex, 'se, 'x, 'm, 'r, 'tx, 'b, 'w, 'drv, 'dtx) driven_sys \<Rightarrow> bool"
  for cops rops build_uri notified where
  ds_poll: "sys_poll_ready cops (dr_sys d) = (out, s', sp) \<Longrightarrow>
     driven_step cops rops build_uri notified d \<lparr>dr_sys = s', dr_tasks = dr_tasks d @ sp\<rparr>"
| ds_call: "sys_ready (dr_sys d) \<Longrightarrow> sys_call build_uri req (dr_sys d) = (fut, s') \<Longrightarrow>
     driven_step cops rops build_uri notified d (d\<lparr>dr_sys := s'\<rparr>)"
| ds_request: "i < length (sys_inflight (dr_sys d)) \<Longrightarrow> sys_request rops i (dr_sys d) = Some (res, s', eff) \<Longrightarrow>
     driven_step cops rops build_uri notified d (d\<lparr>dr_sys := s'\<rparr>)"
| ds_drop: "driven_step cops rops build_uri notified d
     (d\<lparr>dr_sys := (dr_sys d)\<lparr>sys_inflight := (sys_inflight (dr_sys d))[i := RF_done]\<rparr>\<rparr>)"
| ds_task: "i < length (dr_tasks d) \<Longrightarrow> task_poll cops i d = (r, d') \<Longrightarrow>
     driven_step cops rops build_uri notified d d'"
| ds_net: "keeps notified (net (sys_cells (dr_sys d))) w \<Longrightarrow>
     driven_step cops rops build_uri notified d (d\<lparr>dr_sys := sys_net w (dr_sys d)\<rparr>)"

definition driven_init where
  "driven_init d \<longleftrightarrow> client_init (dr_sys d) \<and> dr_tasks d = []"

section \<open>Every cached connection has its driver, or its notification\<close>

definition driven_by where
  "driven_by pair notified rx ts w \<longleftrightarrow> notified rx w \<or> (\<exists>drv tx. Driver drv tx \<in> set ts \<and> pair tx rx)"

definition driven_inv where
  "driven_inv pair notified d \<longleftrightarrow>
     client_inv (dr_sys d) \<and>
     (\<forall>rx. rs_driver_rx (sys_sender (dr_sys d)) = Some rx \<longrightarrow>
        driven_by pair notified rx (dr_tasks d) (net (sys_cells (dr_sys d))))"

lemma driven_by_keeps: "driven_by pair notified rx ts w \<Longrightarrow> keeps notified w w' \<Longrightarrow> driven_by pair notified rx ts w'"
  by (auto simp: driven_by_def keeps_def)

lemma driven_by_append: "driven_by pair notified rx ts w \<Longrightarrow> driven_by pair notified rx (ts @ ts') w"
  by (auto simp: driven_by_def)

lemma oneshot_channel: "oneshot_ok cops pair notified \<Longrightarrow> co_channel cops w = ((tx, rx), w') \<Longrightarrow> pair tx rx \<and> keeps notified w w'"
  by (simp add: oneshot_ok_def)

lemma oneshot_recv:
  "oneshot_ok cops pair notified \<Longrightarrow> co_try_recv cops rx w = (x, rx', w') \<Longrightarrow>
   keeps notified w w' \<and> (notified rx w \<longrightarrow> x \<noteq> Recv_empty) \<and> (\<forall>tx. pair tx rx \<longrightarrow> pair tx rx')"
proof -
  assume ok: "oneshot_ok cops pair notified" and t: "co_try_recv cops rx w = (x, rx', w')"
  from ok have "\<forall>rx w x rx' w'. co_try_recv cops rx w = (x, rx', w') \<longrightarrow>
      keeps notified w w' \<and> (notified rx w \<longrightarrow> x \<noteq> Recv_empty) \<and> (\<forall>tx. pair tx rx \<longrightarrow> pair tx rx')"
    unfolding oneshot_ok_def by (elim conjE) assumption
  from this [rule_format, OF t] show ?thesis by blast
qed

lemma oneshot_send:
  "oneshot_ok cops pair notified \<Longrightarrow>
   keeps notified w (co_tx_send cops tx w) \<and> (\<forall>rx. pair tx rx \<longrightarrow> notified rx (co_tx_send cops tx w))"
  by (simp add: oneshot_ok_def)

lemma oneshot_connect: "oneshot_ok cops pair notified \<Longrightarrow> co_poll_connect cops cf w = (r, cf', w') \<Longrightarrow> keeps notified w w'"
  unfolding oneshot_ok_def by meson

lemma oneshot_h3: "oneshot_ok cops pair notified \<Longrightarrow> co_poll_h3_new cops hf w = (r, hf', w') \<Longrightarrow> keeps notified w w'"
  unfolding oneshot_ok_def by meson

lemma oneshot_close: "oneshot_ok cops pair notified \<Longrightarrow> co_poll_close cops drv w = (r, drv', w') \<Longrightarrow> keeps notified w w'"
  unfolding oneshot_ok_def by meson

lemma make_h3_driven:
  assumes ok: "oneshot_ok cops pair notified" and m: "make_h3 cops hf w = (r, f', sp, w')"
  shows "keeps notified w w' \<and> (\<forall>sr rx. r = Ready (Ok (sr, rx)) \<longrightarrow> (\<exists>drv tx. sp = [Driver drv tx] \<and> pair tx rx))"
proof -
  obtain x hf1 w1 where h: "co_poll_h3_new cops hf w = (x, hf1, w1)" by (metis prod_cases3)
  note k = oneshot_h3 [OF ok h]
  obtain tx rx w2 where c: "co_channel cops w1 = ((tx, rx), w2)" by (metis prod.exhaust)
  from oneshot_channel [OF ok c] k m h c show ?thesis
    by (auto simp: make_h3_def split: poll.splits sum.splits intro: keeps_trans)
qed

lemma make_poll_driven:
  assumes ok: "oneshot_ok cops pair notified" and m: "make_poll cops f w = (r, f', sp, w')"
  shows "keeps notified w w' \<and> (\<forall>sr rx. r = Ready (Ok (sr, rx)) \<longrightarrow> (\<exists>drv tx. sp = [Driver drv tx] \<and> pair tx rx))"
proof -
  have c: "keeps notified w w' \<and> (\<forall>sr rx. r = Ready (Ok (sr, rx)) \<longrightarrow> (\<exists>drv tx. sp = [Driver drv tx] \<and> pair tx rx))"
    if q: "make_connecting cops cf w = (r, f', sp, w')" for cf
  proof -
    obtain x cf1 w1 where p: "co_poll_connect cops cf w = (x, cf1, w1)" by (metis prod_cases3)
    note k = oneshot_connect [OF ok p]
    show ?thesis
    proof (cases "\<exists>qc. x = Ready (Ok qc)")
      case True
      then obtain qc where "x = Ready (Ok qc)" ..
      with q p have "make_h3 cops (co_h3_new cops qc) w1 = (r, f', sp, w')" by (simp add: make_connecting_def)
      from make_h3_driven [OF ok this] k show ?thesis by (meson keeps_trans)
    next
      case False
      with q p k show ?thesis by (auto simp: make_connecting_def split: poll.splits sum.splits)
    qed
  qed
  show ?thesis
  proof (cases f)
    case (MF_h3 hf)
    with m have "make_h3 cops hf w = (r, f', sp, w')" by simp
    from make_h3_driven [OF ok this] show ?thesis .
  next
    case (MF_start conn)
    with m have "make_connecting cops (co_connect cops conn) w = (r, f', sp, w')" by simp
    from c [OF this] show ?thesis .
  next
    case (MF_connecting cf)
    with m have "make_connecting cops cf w = (r, f', sp, w')" by simp
    from c [OF this] show ?thesis .
  qed
qed

lemma drive_connect_driven:
  assumes ok: "oneshot_ok cops pair notified" and d: "drive_connect cops rs w = (r, rs', sp, w')"
    and none: "rs_driver_rx rs = None" and rx: "rs_driver_rx rs' = Some rx"
  shows "\<exists>drv tx. sp = [Driver drv tx] \<and> pair tx rx"
proof -
  let ?f = "case rs_make_send_request_fut rs of None \<Rightarrow> MF_start (rs_conn rs) | Some f \<Rightarrow> f"
  obtain x f' sp1 w1 where m: "make_poll cops ?f w = (x, f', sp1, w1)" by (metis prod.exhaust)
  from make_poll_driven [OF ok m] d m none rx show ?thesis
    by (auto simp: drive_connect_def Let_def split: poll.splits sum.splits)
qed

lemma poll_ready_driven:
  assumes ok: "oneshot_ok cops pair notified" and s: "sender_ok rs cs"
    and p: "poll_ready cops rs cs = (out, rs', cs', sp)"
    and old: "\<forall>rx. rs_driver_rx rs = Some rx \<longrightarrow> driven_by pair notified rx ts (net cs)"
    and rx: "rs_driver_rx rs' = Some rx"
  shows "driven_by pair notified rx (ts @ sp) (net cs')"
proof -
  obtain rs1 cs1 where d: "check_driver cops rs cs = (rs1, cs1)" by fastforce
  obtain rs2 cs2 where c: "check_closing rs1 cs1 = (rs2, cs2)" by fastforce
  note ch = checks_spec [OF s d c]
  have ok2: "sender_ok rs2 cs2" using sender_ok_closing [OF sender_ok_driver [OF s d] c] by simp
  show ?thesis
  proof (cases "rs_driver_rx rs2")
    case None
    then have "rs_send_request rs2 = None" using ok2 by (simp add: sender_ok_def)
    with p d c None rx obtain r w where "drive_connect cops rs2 (net cs2) = (r, rs', sp, w)"
      by (auto simp: poll_ready_def split: if_splits prod.splits)
    from drive_connect_driven [OF ok this None rx] show ?thesis unfolding driven_by_def by fastforce
  next
    case (Some rx2)
    with ch obtain rx0 where rx0: "rs_driver_rx rs = Some rx0" by (cases "rs_driver_rx rs") auto
    obtain x rx' w where t: "co_try_recv cops rx0 (net cs) = (x, rx', w)" by (metis prod_cases3)
    have e: "x = Recv_empty" "rx2 = rx'" "net cs2 = w" using ch rx0 t Some by (auto split: if_splits)
    have "rs_send_request rs2 \<noteq> None" "rs_connect_error rs2 = None" using ok2 Some by (auto simp: sender_ok_def)
    with p d c have "rs' = rs2" "cs' = cs2" by (auto simp: poll_ready_def split: if_splits)
    moreover have "driven_by pair notified rx' ts w"
      using old rx0 oneshot_recv [OF ok t] e(1) by (auto simp: driven_by_def)
    ultimately show ?thesis using e Some rx driven_by_append by fastforce
  qed
qed

lemma request_receive_keeps:
  assumes "requests_keep rops notified" "request_receive rops r tx a cs = (res, fut, cs', eff)"
  shows "keeps notified (net cs) (net cs')"
  using assms by (auto simp: request_receive_def requests_keep_def note_error_def split: prod.splits poll.splits sum.splits if_splits)

lemma request_body_keeps:
  assumes ok: "requests_keep rops notified" and b: "request_body rops st b a cs = Some (res, fut, cs', eff)"
  shows "keeps notified (net cs) (net cs')"
proof -
  obtain w r where sp: "so_split rops st = (w, r)" by fastforce
  obtain tx rx nw where ch: "so_channel rops (net cs) = ((tx, rx), nw)" by (metis prod.exhaust)
  have k: "keeps notified (net cs) nw" using ok ch unfolding requests_keep_def by blast
  show ?thesis
    using b sp ch k
    by (auto simp: request_body_def split: option.splits prod.splits poll.splits sum.splits
        dest!: request_receive_keeps [OF ok] intro: keeps_trans)
qed

lemma request_poll_keeps:
  assumes ok: "requests_keep rops notified" and p: "request_poll rops f cs = Some (res, fut, cs', eff)"
  shows "keeps notified (net cs) (net cs')"
proof (cases f)
  case (RF_sending head body sr a)
  obtain x sr' w where x: "so_poll_send_request rops sr head (net cs) = (x, sr', w)" by (metis prod_cases3)
  have k: "keeps notified (net cs) w" using ok x unfolding requests_keep_def by blast
  have "net cs' = w \<or> (\<exists>st. request_body rops st body a (cs\<lparr>net := w\<rparr>) = Some (res, fut, cs', eff))"
    using p RF_sending x by (auto simp: note_error_def split: poll.splits sum.splits)
  with k show ?thesis by (auto dest!: request_body_keeps [OF ok] intro: keeps_trans)
next
  case (RF_receiving r tx a)
  with p request_receive_keeps [OF ok] show ?thesis by fastforce
qed (use p in simp)

section \<open>The invariant\<close>

lemma driven_inv_keep:
  assumes "driven_inv pair notified d" "client_inv (dr_sys d')"
    and "rs_driver_rx (sys_sender (dr_sys d')) = rs_driver_rx (sys_sender (dr_sys d))" "dr_tasks d' = dr_tasks d"
    and "keeps notified (net (sys_cells (dr_sys d))) (net (sys_cells (dr_sys d')))"
  shows "driven_inv pair notified d'"
  using assms by (auto simp: driven_inv_def intro: driven_by_keeps)

lemma driven_inv_poll:
  assumes "oneshot_ok cops pair notified" "driven_inv pair notified d" "sys_poll_ready cops (dr_sys d) = (out, s', sp)"
  shows "driven_inv pair notified \<lparr>dr_sys = s', dr_tasks = dr_tasks d @ sp\<rparr>"
proof -
  have inv: "client_inv s'" using client_inv_poll assms(2,3) by (auto simp: driven_inv_def)
  obtain rs' cs' where p: "poll_ready cops (sys_sender (dr_sys d)) (sys_cells (dr_sys d)) = (out, rs', cs', sp)"
    and s': "sys_sender s' = rs'" "sys_cells s' = cs'"
    using assms(3) by (auto simp: sys_poll_ready_def split: prod.splits)
  have ok: "sender_ok (sys_sender (dr_sys d)) (sys_cells (dr_sys d))"
    using assms(2) by (simp add: driven_inv_def client_inv_def)
  show ?thesis
    using poll_ready_driven [OF assms(1) ok p] assms(2) inv s' by (simp add: driven_inv_def)
qed

lemma driver_poll_cases:
  assumes "oneshot_ok cops pair notified" "driver_poll cops t w = (r, t', w')"
  shows "keeps notified w w' \<and>
    (\<forall>drv tx rx. t = Driver drv tx \<and> pair tx rx \<longrightarrow> (\<exists>drv'. t' = Driver drv' tx) \<or> notified rx w')"
  using assms
  by (cases t) (auto split: prod.splits poll.splits intro: keeps_trans dest: oneshot_close oneshot_send)

lemma driven_inv_task:
  assumes ok: "oneshot_ok cops pair notified" and inv: "driven_inv pair notified d"
    and i: "i < length (dr_tasks d)" and t: "task_poll cops i d = (r, d')"
  shows "driven_inv pair notified d'"
proof -
  let ?w = "net (sys_cells (dr_sys d))"
  obtain t' w' where p: "driver_poll cops (dr_tasks d ! i) ?w = (r, t', w')"
    and d': "d' = \<lparr>dr_sys = sys_net w' (dr_sys d), dr_tasks = (dr_tasks d)[i := t']\<rparr>"
    using t by (auto simp: task_poll_def split: prod.splits)
  note c = driver_poll_cases [OF ok p]
  have "driven_by pair notified rx ((dr_tasks d)[i := t']) w'" if b: "driven_by pair notified rx (dr_tasks d) ?w" for rx
  proof (cases "notified rx ?w")
    case True
    with c show ?thesis by (simp add: driven_by_def keeps_def)
  next
    case False
    with b obtain j drv tx where j: "j < length (dr_tasks d)" "dr_tasks d ! j = Driver drv tx" "pair tx rx"
      unfolding driven_by_def by (metis in_set_conv_nth)
    show ?thesis
    proof (cases "j = i")
      case True
      with c j consider drv' where "t' = Driver drv' tx" | "notified rx w'" by blast
      then show ?thesis
      proof cases
        case 1
        with i j(3) show ?thesis unfolding driven_by_def by (metis set_update_memI)
      qed (simp add: driven_by_def)
    next
      case False
      with j have "Driver drv tx \<in> set ((dr_tasks d)[i := t'])"
        by (metis in_set_conv_nth length_list_update nth_list_update_neq)
      with j(3) show ?thesis by (auto simp: driven_by_def)
    qed
  qed
  with inv d' show ?thesis by (auto simp: driven_inv_def sys_net_def client_inv_def)
qed

lemma driven_inv_step:
  assumes ok: "oneshot_ok cops pair notified" "requests_keep rops notified" and inv: "driven_inv pair notified d"
    and step: "driven_step cops rops build_uri notified d d'"
  shows "driven_inv pair notified d'"
  using step
proof cases
  case (ds_poll out s' sp)
  with driven_inv_poll [OF ok(1) inv] show ?thesis by simp
next
  case (ds_call req fut s')
  then have "client_inv s'" using inv client_inv_call by (auto simp: driven_inv_def)
  moreover have "rs_driver_rx (sys_sender s') = rs_driver_rx (sys_sender (dr_sys d))" "sys_cells s' = sys_cells (dr_sys d)"
    using ds_call(3) by (auto simp: sys_call_def call_def Let_def split: prod.splits option.splits sum.splits)
  ultimately show ?thesis using ds_call(1) by (intro driven_inv_keep [OF inv]) simp_all
next
  case (ds_request i res s' eff)
  then have "client_inv s'" using inv client_inv_request by (auto simp: driven_inv_def)
  moreover have "sys_sender s' = sys_sender (dr_sys d)" "keeps notified (net (sys_cells (dr_sys d))) (net (sys_cells s'))"
    using ds_request(3) request_poll_keeps [OF ok(2)] by (auto simp: sys_request_def split: option.splits)
  ultimately show ?thesis using ds_request(1) by (intro driven_inv_keep [OF inv]) simp_all
next
  case (ds_drop i)
  then show ?thesis
    using inv by (intro driven_inv_keep [OF inv]) (auto simp: driven_inv_def client_inv_def intro: flags_ok_done)
next
  case (ds_task i r)
  from driven_inv_task [OF ok(1) inv ds_task] show ?thesis .
next
  case (ds_net w)
  then show ?thesis
    using inv by (intro driven_inv_keep [OF inv]) (auto simp: driven_inv_def client_inv_def sys_net_def)
qed

lemma driven_inv_init: "driven_init d \<Longrightarrow> driven_inv pair notified d"
proof -
  assume "driven_init d"
  then have "client_inv (dr_sys d)" "rs_driver_rx (sys_sender (dr_sys d)) = None"
    by (auto simp: driven_init_def client_init_def client_inv_new)
      (simp add: sys_new_def RequestSender_new_def new_cell_def)
  then show ?thesis by (simp add: driven_inv_def)
qed

lemma driven_system:
  assumes "oneshot_ok cops pair notified" "requests_keep rops notified"
  shows "invariant_system driven_init (driven_step cops rops build_uri notified) (driven_inv pair notified)"
  by unfold_locales (fact driven_inv_init, rule driven_inv_step [OF assms])

lemmas driven_reach_inv = invariant_system.reach_inv [OF driven_system]

section \<open>A concrete channel\<close>

text \<open>
  Numbered channels in a world that holds the next number and the numbers notified so far. Drivers end at their
  first poll.
\<close>

definition numbered_conn_ops ::
  "(nat, nat, nat, nat, nat, nat, nat, nat, stream_error_kind, nat, nat \<times> nat list) conn_ops" where
  "numbered_conn_ops = \<lparr>co_connect = (\<lambda>c. c), co_poll_connect = (\<lambda>cf w. (Ready (Ok cf), cf, w)),
     co_h3_new = (\<lambda>qc. qc), co_poll_h3_new = (\<lambda>hf w. (Ready (Ok (hf, hf)), hf, w)),
     co_channel = (\<lambda>(n, ns). ((n, n), (n + 1, ns))),
     co_try_recv = (\<lambda>rx w. (if rx \<in> set (snd w) then Recv_ok else Recv_empty, rx, w)),
     co_poll_close = (\<lambda>d w. (Ready (), d, w)), co_tx_send = (\<lambda>t (n, ns). (n, t # ns))\<rparr>"

definition numbered_request_ops ::
  "(nat, uri \<times> unit, nat, unit, nat, unit, unit, unit, stream_error_kind, unit, unit, nat, nat \<times> nat list) request_ops" where
  "numbered_request_ops = \<lparr>so_poll_send_request = (\<lambda>sr hd w. (Ready (Ok sr), sr, w)), so_split = (\<lambda>st. ((), st)),
     so_channel = (\<lambda>w. (((), ()), w)), so_poll_recv_response = (\<lambda>r w. (Ready (Ok ()), r, w)),
     so_to_string = display_prefix, so_body = sample_body_ops\<rparr>"

definition numbered_notified :: "nat \<Rightarrow> nat \<times> nat list \<Rightarrow> bool" where
  "numbered_notified rx w \<longleftrightarrow> rx \<in> set (snd w)"

lemma numbered_ok: "oneshot_ok numbered_conn_ops (=) numbered_notified" "requests_keep numbered_request_ops numbered_notified"
  by (auto simp: oneshot_ok_def requests_keep_def keeps_def numbered_conn_ops_def numbered_request_ops_def numbered_notified_def)

definition numbered_start ::
  "(nat, nat, nat, nat, nat, unit, stream_error_kind, nat, unit, nat, unit, unit, nat \<times> nat list, nat, nat) driven_sys" where
  "numbered_start = \<lparr>dr_sys = sys_new 5 sample_uri () (0, []), dr_tasks = []\<rparr>"

definition numbered_polled where
  "numbered_polled = (case sys_poll_ready numbered_conn_ops (dr_sys numbered_start) of
     (out, s, sp) \<Rightarrow> \<lparr>dr_sys = s, dr_tasks = dr_tasks numbered_start @ sp\<rparr>)"

definition numbered_ended where
  "numbered_ended = snd (task_poll numbered_conn_ops 0 numbered_polled)"

lemmas numbered_defs = numbered_conn_ops_def numbered_start_def numbered_polled_def numbered_ended_def task_poll_def
  sys_net_def sample_defs

lemma numbered_ended_reach:
  "reach driven_init (driven_step numbered_conn_ops numbered_request_ops sample_build numbered_notified) numbered_ended"
proof -
  have "reach driven_init (driven_step numbered_conn_ops numbered_request_ops sample_build numbered_notified) numbered_start"
    by (rule reach_init) (auto simp: driven_init_def client_init_def numbered_start_def)
  then have "reach driven_init (driven_step numbered_conn_ops numbered_request_ops sample_build numbered_notified) numbered_polled"
    by (rule reach_step) (auto simp: numbered_polled_def split: prod.splits intro: ds_poll)
  then show ?thesis
    by (rule reach_step)
      (rule ds_task [of 0], simp add: numbered_defs, simp add: numbered_ended_def prod_eq_iff)
qed

section \<open>The end of a driver is never missed\<close>

lemma dead_driver_spec_connect:
  assumes ok: "oneshot_ok cops pair notified" and inv: "driven_inv pair notified d"
    and rx: "rs_driver_rx (sys_sender (dr_sys d)) = Some rx"
    and dead: "\<And>drv tx. Driver drv tx \<in> set (dr_tasks d) \<Longrightarrow> \<not> pair tx rx"
    and p: "sys_poll_ready cops (dr_sys d) = (out, s', sp)"
  shows "\<exists>r w. out = Return r \<and>
    spec_connect cops (MF_start (rs_conn (sys_sender (dr_sys d)))) w = (r, abs_sender (sys_sender s'), sp, net (sys_cells s'))"
proof -
  let ?w = "net (sys_cells (dr_sys d))"
  have ci: "client_inv (dr_sys d)" and "driven_by pair notified rx (dr_tasks d) ?w"
    using inv rx by (simp_all add: driven_inv_def)
  then have n: "notified rx ?w" using dead by (auto simp: driven_by_def)
  obtain sr where a: "abs_sender (sys_sender (dr_sys d)) = Connected sr rx"
    using ci rx by (auto simp: client_inv_def sender_ok_def abs_sender_def)
  obtain x rx' w where t: "co_try_recv cops rx ?w = (x, rx', w)" by (metis prod_cases3)
  with oneshot_recv [OF ok t] n have "x \<noteq> Recv_empty" by simp
  with sys_poll_spec [OF ci p] a t show ?thesis by (auto split: try_recv.splits)
qed

text \<open>
  C11: a connection whose driver task has ended is never handed a request again. In every reachable state of the
  sender and its driver tasks, when the sender holds a connection that no running task drives, the next \<open>poll_ready\<close>
  drops it and starts a new connection attempt, whatever the order in which requests, tasks and peers have moved
  since.
\<close>

theorem dead_connection_never_reused:
  assumes "oneshot_ok cops pair notified" "requests_keep rops notified"
    and "reach driven_init (driven_step cops rops build_uri notified) d"
    and "rs_driver_rx (sys_sender (dr_sys d)) = Some rx"
    and "\<And>drv tx. Driver drv tx \<in> set (dr_tasks d) \<Longrightarrow> \<not> pair tx rx"
    and "sys_poll_ready cops (dr_sys d) = (out, s', sp)"
  shows "\<exists>r w. out = Return r \<and>
    spec_connect cops (MF_start (rs_conn (sys_sender (dr_sys d)))) w = (r, abs_sender (sys_sender s'), sp, net (sys_cells s'))"
  using dead_driver_spec_connect [OF assms(1) driven_reach_inv [OF assms(1-3)] assms(4-6)] .

theorem dead_connection_never_reused_witness:
  "\<exists>r w s' sp. sys_poll_ready numbered_conn_ops (dr_sys numbered_ended) = (Return r, s', sp) \<and>
    spec_connect numbered_conn_ops (MF_start 5) w = (r, abs_sender (sys_sender s'), sp, net (sys_cells s'))"
proof -
  obtain out s' sp where p: "sys_poll_ready numbered_conn_ops (dr_sys numbered_ended) = (out, s', sp)" by (metis prod_cases3)
  have rx: "rs_driver_rx (sys_sender (dr_sys numbered_ended)) = Some 0" "rs_conn (sys_sender (dr_sys numbered_ended)) = 5"
    "dr_tasks numbered_ended = [Driver_done]"
    by (simp_all add: numbered_defs)
  have dead: "tx \<noteq> 0" if "Driver drv tx \<in> set (dr_tasks numbered_ended)" for drv tx
    using that rx(3) by simp
  from dead_connection_never_reused [OF numbered_ok numbered_ended_reach rx(1) dead p] p rx(2) show ?thesis by auto
qed

end
