(* ===== verification/Channel.thy ===== *)
theory Channel
  imports Client
begin

text \<open>
  \<open>H3Channel\<close> and \<open>ResponseFuture\<close> of \<open>h3-util/src/client.rs\<close>: a \<open>tower::buffer::Buffer\<close> in front of a connection, its
  worker run by the executor. The buffer is a parameter with the documented contract, under which a channel
  and its clones are never bricked by a connection that fails.
\<close>

section \<open>The channel\<close>

text \<open>
  The buffer: its handles \<open>'buf\<close>, the response futures \<open>'bf\<close> and the state \<open>'k\<close> its worker shares with them, in which
  the service and the requests in flight are.
\<close>

record ('buf, 'bf, 'q, 'be, 'resp, 'k) buffer_ops =
  bu_poll_ready :: "'buf \<Rightarrow> 'k \<Rightarrow> ('be + unit) poll \<times> 'buf \<times> 'k"
  bu_call :: "'q \<Rightarrow> 'buf \<Rightarrow> 'k \<Rightarrow> 'bf \<times> 'buf \<times> 'k"
  bu_clone :: "'buf \<Rightarrow> 'k \<Rightarrow> 'buf \<times> 'k"
  bu_future_poll :: "'bf \<Rightarrow> 'k \<Rightarrow> ('be + 'resp) poll \<times> 'bf \<times> 'k"
  bu_worker_poll :: "'k \<Rightarrow> 'k"

definition DEFAULT_BUFFER_SIZE :: nat where
  "DEFAULT_BUFFER_SIZE = 1024"

record 'buf H3Channel =
  ch_svc :: 'buf

record 'bf ResponseFuture =
  rf_inner :: 'bf

definition H3Channel_new where
  "H3Channel_new pair inner_execute tokio connector u executor cs =
     (let executor = (case executor of None \<Rightarrow> tokio | Some e \<Rightarrow> e);
          svc = H3Connection_new tokio connector u (Some executor) cs in
      case pair svc DEFAULT_BUFFER_SIZE of
        (svc, worker) \<Rightarrow> (\<lparr>ch_svc = svc\<rparr>, execute inner_execute worker executor))"

definition channel_clone where
  "channel_clone bops c k = (case bu_clone bops (ch_svc c) k of (svc, k') \<Rightarrow> (\<lparr>ch_svc = svc\<rparr>, k'))"

definition poll_map_err :: "('e \<Rightarrow> 'e2) \<Rightarrow> ('e + 'a) poll \<Rightarrow> ('e2 + 'a) poll" where
  "poll_map_err from = map_poll (map_sum from id)"

definition channel_poll_ready ::
  "('be \<Rightarrow> 'e) \<Rightarrow> ('buf, 'bf, 'q, 'be, 'resp, 'k) buffer_ops \<Rightarrow> 'buf H3Channel \<Rightarrow> 'k \<Rightarrow>
   ('e + unit) poll \<times> 'buf H3Channel \<times> 'k" where
  "channel_poll_ready from bops c k =
     (case bu_poll_ready bops (ch_svc c) k of (r, svc, k') \<Rightarrow> (poll_map_err from r, c\<lparr>ch_svc := svc\<rparr>, k'))"

definition channel_call ::
  "('buf, 'bf, 'q, 'be, 'resp, 'k) buffer_ops \<Rightarrow> 'q \<Rightarrow> 'buf H3Channel \<Rightarrow> 'k \<Rightarrow>
   'bf ResponseFuture \<times> 'buf H3Channel \<times> 'k" where
  "channel_call bops req c k =
     (case bu_call bops req (ch_svc c) k of (inner, svc, k') \<Rightarrow> (\<lparr>rf_inner = inner\<rparr>, c\<lparr>ch_svc := svc\<rparr>, k'))"

definition response_future_poll ::
  "('be \<Rightarrow> 'e) \<Rightarrow> ('buf, 'bf, 'q, 'be, 'resp, 'k) buffer_ops \<Rightarrow> 'bf ResponseFuture \<Rightarrow> 'k \<Rightarrow>
   ('e + 'resp) poll \<times> 'bf ResponseFuture \<times> 'k" where
  "response_future_poll from bops f k =
     (case bu_future_poll bops (rf_inner f) k of (r, inner, k') \<Rightarrow> (poll_map_err from r, f\<lparr>rf_inner := inner\<rparr>, k'))"

lemmas channel_defs = channel_clone_def channel_poll_ready_def channel_call_def response_future_poll_def

section \<open>What the buffer promises\<close>

text \<open>
  The documented behaviour of the buffer, as long as its worker is run. \<open>service k\<close> is the connection it serves, with the requests
  in flight; \<open>failed k\<close> tells that the buffer is closed with an error. The service is only used as services may be
  (every operation moves it by steps of \<open>client_step\<close>: a poll, a call after a ready poll, polls of requests); the worker
  closes the buffer only when the service fails to become ready; and a handle reports an error only from a closed
  buffer.
\<close>

definition poll_fails where
  "poll_fails cops s \<longleftrightarrow>
     (case fst (sys_poll_ready cops s) of Panic _ \<Rightarrow> True | Return r \<Rightarrow> (\<exists>e. r = Ready (Err e)))"

definition buffer_ok where
  "buffer_ok cops rops build_uri bops service failed \<longleftrightarrow>
     (\<forall>b k r b' k'. bu_poll_ready bops b k = (r, b', k') \<longrightarrow>
        service k' = service k \<and> failed k' = failed k \<and> ((\<exists>e. r = Ready (Err e)) \<longrightarrow> failed k)) \<and>
     (\<forall>q b k f b' k'. bu_call bops q b k = (f, b', k') \<longrightarrow> service k' = service k \<and> failed k' = failed k) \<and>
     (\<forall>b k b' k'. bu_clone bops b k = (b', k') \<longrightarrow> service k' = service k \<and> failed k' = failed k) \<and>
     (\<forall>f k r f' k'. bu_future_poll bops f k = (r, f', k') \<longrightarrow>
        (client_step cops rops build_uri)\<^sup>*\<^sup>* (service k) (service k') \<and> failed k' = failed k) \<and>
     (\<forall>k. (client_step cops rops build_uri)\<^sup>*\<^sup>* (service k) (service (bu_worker_poll bops k)) \<and>
        (failed (bu_worker_poll bops k) \<longrightarrow> failed k \<or>
           (\<exists>s. (client_step cops rops build_uri)\<^sup>*\<^sup>* (service k) s \<and> poll_fails cops s)))"

definition pair_ok where
  "pair_ok pair service failed \<longleftrightarrow>
     (\<forall>svc n b k. pair svc n = (b, k) \<longrightarrow> \<not> failed k \<and>
        service k = \<lparr>sys_sender = fst (hc_inner svc), sys_cells = snd (hc_inner svc), sys_inflight = [], sys_ready = False\<rparr>)"

lemma buffer_okD:
  assumes "buffer_ok cops rops build_uri bops service failed"
  shows "bu_poll_ready bops b k = (r, b', k') \<Longrightarrow>
      service k' = service k \<and> failed k' = failed k \<and> ((\<exists>e. r = Ready (Err e)) \<longrightarrow> failed k)"
    and "bu_call bops q b k = (f, b', k') \<Longrightarrow> service k' = service k \<and> failed k' = failed k"
    and "bu_clone bops b k = (b', k') \<Longrightarrow> service k' = service k \<and> failed k' = failed k"
    and "bu_future_poll bops f k = (r', f', k') \<Longrightarrow>
      (client_step cops rops build_uri)\<^sup>*\<^sup>* (service k) (service k') \<and> failed k' = failed k"
    and "(client_step cops rops build_uri)\<^sup>*\<^sup>* (service k) (service (bu_worker_poll bops k))"
    and "failed (bu_worker_poll bops k) \<Longrightarrow> failed k \<or>
      (\<exists>s. (client_step cops rops build_uri)\<^sup>*\<^sup>* (service k) s \<and> poll_fails cops s)"
proof -
  note c = assms [unfolded buffer_ok_def]
  note c2 = c [THEN conjunct2] and c3 = c [THEN conjunct2, THEN conjunct2] and
    c4 = c [THEN conjunct2, THEN conjunct2, THEN conjunct2]
  show "bu_poll_ready bops b k = (r, b', k') \<Longrightarrow>
      service k' = service k \<and> failed k' = failed k \<and> ((\<exists>e. r = Ready (Err e)) \<longrightarrow> failed k)"
    using c [THEN conjunct1] by blast
  show "bu_call bops q b k = (f, b', k') \<Longrightarrow> service k' = service k \<and> failed k' = failed k"
    using c2 [THEN conjunct1] by blast
  show "bu_clone bops b k = (b', k') \<Longrightarrow> service k' = service k \<and> failed k' = failed k"
    using c3 [THEN conjunct1] by blast
  show "bu_future_poll bops f k = (r', f', k') \<Longrightarrow>
      (client_step cops rops build_uri)\<^sup>*\<^sup>* (service k) (service k') \<and> failed k' = failed k"
    using c4 [THEN conjunct1] by blast
  show "(client_step cops rops build_uri)\<^sup>*\<^sup>* (service k) (service (bu_worker_poll bops k))"
    using c4 [THEN conjunct2] by blast
  show "failed (bu_worker_poll bops k) \<Longrightarrow> failed k \<or>
      (\<exists>s. (client_step cops rops build_uri)\<^sup>*\<^sup>* (service k) s \<and> poll_fails cops s)"
    using c4 [THEN conjunct2] by blast
qed

section \<open>A channel, its clones and its futures\<close>

record ('buf, 'bf, 'k) channel_sys =
  cn_handles :: "'buf H3Channel list"
  cn_futures :: "'bf ResponseFuture list"
  cn_world :: 'k

text \<open>
  In \<open>ch_env\<close> the network, the drivers and the requests move as they like.
\<close>

inductive channel_step for cops rops build_uri bops service failed conv where
  ch_clone: "i < length (cn_handles s) \<Longrightarrow> channel_clone bops (cn_handles s ! i) (cn_world s) = (c, k) \<Longrightarrow>
     channel_step cops rops build_uri bops service failed conv s (s\<lparr>cn_handles := cn_handles s @ [c], cn_world := k\<rparr>)"
| ch_poll: "i < length (cn_handles s) \<Longrightarrow> channel_poll_ready conv bops (cn_handles s ! i) (cn_world s) = (r, c, k) \<Longrightarrow>
     channel_step cops rops build_uri bops service failed conv s (s\<lparr>cn_handles := (cn_handles s)[i := c], cn_world := k\<rparr>)"
| ch_call: "i < length (cn_handles s) \<Longrightarrow> channel_call bops req (cn_handles s ! i) (cn_world s) = (f, c, k) \<Longrightarrow>
     channel_step cops rops build_uri bops service failed conv s
       (s\<lparr>cn_handles := (cn_handles s)[i := c], cn_futures := cn_futures s @ [f], cn_world := k\<rparr>)"
| ch_future: "i < length (cn_futures s) \<Longrightarrow> response_future_poll conv bops (cn_futures s ! i) (cn_world s) = (r, f, k) \<Longrightarrow>
     channel_step cops rops build_uri bops service failed conv s (s\<lparr>cn_futures := (cn_futures s)[i := f], cn_world := k\<rparr>)"
| ch_worker: "channel_step cops rops build_uri bops service failed conv s (s\<lparr>cn_world := bu_worker_poll bops (cn_world s)\<rparr>)"
| ch_env: "(client_step cops rops build_uri)\<^sup>*\<^sup>* (service (cn_world s)) (service k) \<Longrightarrow> failed k = failed (cn_world s) \<Longrightarrow>
     channel_step cops rops build_uri bops service failed conv s (s\<lparr>cn_world := k\<rparr>)"

text \<open>A fresh channel: the shared state is the one the worker was made with.\<close>

definition channel_init where
  "channel_init pair s \<longleftrightarrow>
     (\<exists>inner_execute tokio connector u executor w b.
        pair (H3Connection_new tokio connector u (Some (case executor of None \<Rightarrow> tokio | Some e \<Rightarrow> e)) (empty_cells w))
          DEFAULT_BUFFER_SIZE = (b, cn_world s) \<and>
        cn_handles s = [fst (H3Channel_new pair inner_execute tokio connector u executor (empty_cells w))] \<and>
        cn_futures s = [])"

definition channel_inv where
  "channel_inv cops rops build_uri service failed s \<longleftrightarrow>
     \<not> failed (cn_world s) \<and> reach client_init (client_step cops rops build_uri) (service (cn_world s))"

lemma poll_fails_never:
  assumes "reach client_init (client_step cops rops build_uri) s"
  shows "\<not> poll_fails cops s"
proof -
  obtain out s' sp where p: "sys_poll_ready cops s = (out, s', sp)" by (metis prod_cases3)
  from sys_poll_spec [OF cl.reach_inv [OF assms] p] p spec_poll_not_err show ?thesis
    by (fastforce simp: poll_fails_def)
qed

lemma reach_steps:
  assumes "step\<^sup>*\<^sup>* s t" "reach init step s"
  shows "reach init step t"
  using assms by (induction rule: rtranclp_induct) (auto intro: reach_step)

lemma poll_map_err_err: "poll_map_err conv r = Ready (Err e) \<Longrightarrow> \<exists>e'. r = Ready (Err e')"
  by (cases r; cases "poll_value r") (auto simp: poll_map_err_def)

lemma channel_inv_init:
  assumes "pair_ok pair service failed" "channel_init pair s"
  shows "channel_inv cops rops build_uri service failed s"
proof -
  obtain tokio connector u executor w b k where
    p: "pair (H3Connection_new tokio connector u (Some (case executor of None \<Rightarrow> tokio | Some e \<Rightarrow> e)) (empty_cells w))
      DEFAULT_BUFFER_SIZE = (b, k)" and k: "k = cn_world s"
    using assms(2) by (auto simp: channel_init_def)
  let ?ex = "case executor of None \<Rightarrow> tokio | Some e \<Rightarrow> e"
  from assms(1) p have "\<not> failed k" "service k = sys_new connector u ?ex w"
    by (auto simp: pair_ok_def sys_new_def H3Connection_new_def split: prod.splits)
  then have "\<not> failed k" "client_init (service k)" unfolding client_init_def by blast+
  with k show ?thesis by (simp add: channel_inv_def reach_init)
qed

lemma channel_inv_step:
  assumes ok: "buffer_ok cops rops build_uri bops service failed" and inv: "channel_inv cops rops build_uri service failed s"
    and step: "channel_step cops rops build_uri bops service failed conv s s'"
  shows "channel_inv cops rops build_uri service failed s'"
proof -
  have keep: ?thesis if "service (cn_world s') = service (cn_world s)" "failed (cn_world s') = failed (cn_world s)"
    using inv that by (simp add: channel_inv_def)
  have run: ?thesis if "(client_step cops rops build_uri)\<^sup>*\<^sup>* (service (cn_world s)) (service (cn_world s'))"
    "failed (cn_world s') = failed (cn_world s)"
    using inv that reach_steps [OF that(1)] by (simp add: channel_inv_def)
  show ?thesis
    using step
  proof cases
    case (ch_clone i c k)
    with keep buffer_okD(3) [OF ok] show ?thesis by (fastforce simp: channel_clone_def split: prod.splits)
  next
    case (ch_poll i r c k)
    with keep buffer_okD(1) [OF ok] show ?thesis by (fastforce simp: channel_poll_ready_def split: prod.splits)
  next
    case (ch_call i req f c k)
    with keep buffer_okD(2) [OF ok] show ?thesis by (fastforce simp: channel_call_def split: prod.splits)
  next
    case (ch_future i r f k)
    with run buffer_okD(4) [OF ok] show ?thesis by (fastforce simp: response_future_poll_def split: prod.splits)
  next
    case ch_worker
    have r: "reach client_init (client_step cops rops build_uri) (service (cn_world s))" using inv by (simp add: channel_inv_def)
    from buffer_okD(6) [OF ok, of "cn_world s"] inv poll_fails_never [OF reach_steps [OF _ r]]
    have "\<not> failed (bu_worker_poll bops (cn_world s))" by (auto simp: channel_inv_def)
    with ch_worker reach_steps [OF buffer_okD(5) [OF ok] r] show ?thesis by (simp add: channel_inv_def)
  next
    case (ch_env k)
    with run show ?thesis by simp
  qed
qed

lemma channel_system:
  assumes "buffer_ok cops rops build_uri bops service failed" "pair_ok pair service failed"
  shows "invariant_system (channel_init pair) (channel_step cops rops build_uri bops service failed conv)
    (channel_inv cops rops build_uri service failed)"
  by unfold_locales (rule channel_inv_init [OF assms(2)], assumption, rule channel_inv_step [OF assms(1)])

lemmas channel_reach_inv = invariant_system.reach_inv [OF channel_system]

section \<open>Properties\<close>

text \<open>
  C21: a buffered channel is never bricked. Whatever connection attempts fail, whatever connections end and however handles, response
  futures, the worker and the network are scheduled, \<open>poll_ready\<close> of a channel or of any of its clones never
  reports an error: the buffer behind it stays open.
\<close>

theorem channel_never_bricked:
  assumes "buffer_ok cops rops build_uri bops service failed" "pair_ok pair service failed"
    and "reach (channel_init pair) (channel_step cops rops build_uri bops service failed conv) s"
    and "c \<in> set (cn_handles s)" "channel_poll_ready conv bops c (cn_world s) = (r, c', k)"
  shows "r \<noteq> Ready (Err e)"
proof
  assume "r = Ready (Err e)"
  with assms(5) obtain r' svc where "bu_poll_ready bops (ch_svc c) (cn_world s) = (r', svc, k)" "\<exists>e'. r' = Ready (Err e')"
    by (auto simp: channel_poll_ready_def split: prod.splits dest!: poll_map_err_err)
  with buffer_okD(1) [OF assms(1)] have "failed (cn_world s)" by blast
  with channel_reach_inv [OF assms(1-3)] show False by (simp add: channel_inv_def)
qed

text \<open>
  A concrete buffer over the sample connection: a queue of requests and a flag. Its worker serves the head of the queue.
\<close>

type_synonym sample_sys =
  "(nat, nat, nat, nat, bool, unit SharedExec, stream_error_kind, nat, unit, nat, unit, unit, nat) client_sys"

record sample_buffer =
  sb_service :: sample_sys
  sb_queue :: "(unit, unit) request list"
  sb_failed :: bool

fun sample_worker :: "sample_buffer \<Rightarrow> sample_buffer" where
  "sample_worker k =
     (case sb_queue k of
        [] \<Rightarrow> k
      | q # qs \<Rightarrow>
          (case sys_poll_ready sample_conn_ops (sb_service k) of
             (Return (Ready (Ok _)), s, _) \<Rightarrow> k\<lparr>sb_service := snd (sys_call sample_build q s), sb_queue := qs\<rparr>
           | (Return Pending, s, _) \<Rightarrow> k\<lparr>sb_service := s\<rparr>
           | (_, s, _) \<Rightarrow> k\<lparr>sb_service := s, sb_failed := True\<rparr>))"

definition sample_buffer_ops :: "(unit, nat, (unit, unit) request, string, unit, sample_buffer) buffer_ops" where
  "sample_buffer_ops = \<lparr>
     bu_poll_ready = (\<lambda>b k. (if sb_failed k then Ready (Err ''closed'')
       else if length (sb_queue k) < DEFAULT_BUFFER_SIZE then Ready (Ok ()) else Pending, b, k)),
     bu_call = (\<lambda>q b k. (length (sb_queue k), b, k\<lparr>sb_queue := sb_queue k @ [q]\<rparr>)),
     bu_clone = (\<lambda>b k. (b, k)), bu_future_poll = (\<lambda>f k. (Pending, f, k)), bu_worker_poll = sample_worker\<rparr>"

definition sample_pair where
  "sample_pair svc n = ((), \<lparr>sb_service = \<lparr>sys_sender = fst (hc_inner svc), sys_cells = snd (hc_inner svc),
     sys_inflight = [], sys_ready = False\<rparr>, sb_queue = [], sb_failed = False\<rparr>)"

lemma sample_pair_ok: "pair_ok sample_pair sb_service sb_failed"
  by (simp add: pair_ok_def sample_pair_def)

lemma sample_worker_ok:
  "(client_step sample_conn_ops sample_request_ops sample_build)\<^sup>*\<^sup>* (sb_service k) (sb_service (sample_worker k)) \<and>
   (sb_failed (sample_worker k) \<longrightarrow> sb_failed k \<or>
     (\<exists>s. (client_step sample_conn_ops sample_request_ops sample_build)\<^sup>*\<^sup>* (sb_service k) s \<and> poll_fails sample_conn_ops s))"
proof (cases "sb_queue k")
  case (Cons q qs)
  obtain out s sp where p: "sys_poll_ready sample_conn_ops (sb_service k) = (out, s, sp)" by (metis prod_cases3)
  have st: "client_step sample_conn_ops sample_request_ops sample_build (sb_service k) s" using p by (rule cs_poll)
  show ?thesis
  proof (cases "out = Return (Ready (Ok ()))")
    case True
    then have "sys_ready s" using p by (auto simp: sys_poll_ready_def split: prod.splits)
    then have "client_step sample_conn_ops sample_request_ops sample_build s (snd (sys_call sample_build q s))"
      by (rule cs_call) (simp add: prod_eq_iff)
    with st Cons p True show ?thesis by (auto intro: rtranclp.rtrancl_into_rtrancl)
  next
    case False
    have "sb_service (sample_worker k) = s" using Cons p False
      by (cases out) (auto split: poll.splits sum.splits)
    moreover have "sb_failed (sample_worker k) \<longrightarrow> sb_failed k \<or> poll_fails sample_conn_ops (sb_service k)"
      using Cons p False by (cases out) (auto simp: poll_fails_def split: poll.splits sum.splits)
    ultimately show ?thesis using st by auto
  qed
qed simp

lemma sample_buffer_ok: "buffer_ok sample_conn_ops sample_request_ops sample_build sample_buffer_ops sb_service sb_failed"
  unfolding buffer_ok_def
  by (intro conjI allI impI) (use sample_worker_ok in \<open>auto simp: sample_buffer_ops_def simp del: sample_worker.simps split: if_splits\<close>)

text \<open>A channel whose connector fails, after the request that met the failure.\<close>

definition sample_channel :: "(unit, nat, sample_buffer) channel_sys" where
  "sample_channel =
     \<lparr>cn_handles = [fst (H3Channel_new sample_pair (\<lambda>worker e. e) (SharedExec_tokio ()) 0 sample_uri None (empty_cells 0))],
      cn_futures = [],
      cn_world = snd (sample_pair (H3Connection_new (SharedExec_tokio ()) 0 sample_uri (Some (SharedExec_tokio ())) (empty_cells 0))
        DEFAULT_BUFFER_SIZE)\<rparr>"

abbreviation sample_channel_reach where
  "sample_channel_reach \<equiv> reach (channel_init sample_pair)
     (channel_step sample_conn_ops sample_request_ops sample_build sample_buffer_ops sb_service sb_failed id)"

definition sample_channel_called :: "(unit, nat, sample_buffer) channel_sys" where
  "sample_channel_called = (case channel_call sample_buffer_ops sample_req (cn_handles sample_channel ! 0) (cn_world sample_channel) of
     (f, c, k) \<Rightarrow> sample_channel\<lparr>cn_handles := [c], cn_futures := [f], cn_world := sample_worker k\<rparr>)"

lemma sample_channel_called_reach: "sample_channel_reach sample_channel_called"
proof -
  obtain f c k where call: "channel_call sample_buffer_ops sample_req (cn_handles sample_channel ! 0) (cn_world sample_channel) = (f, c, k)"
    by (metis prod_cases3)
  have "channel_init sample_pair sample_channel"
    unfolding channel_init_def sample_channel_def
    by (intro exI [of _ "\<lambda>worker e. e"] exI [of _ "SharedExec_tokio ()"] exI [of _ 0] exI [of _ sample_uri] exI [of _ None]
        exI [of _ 0] exI [of _ "()"]) (simp add: prod_eq_iff)
  then have "sample_channel_reach sample_channel" by (rule reach_init)
  then have r: "sample_channel_reach (sample_channel\<lparr>cn_handles := (cn_handles sample_channel)[0 := c],
      cn_futures := cn_futures sample_channel @ [f], cn_world := k\<rparr>)" (is "sample_channel_reach ?s")
    by (rule reach_step) (rule ch_call [OF _ call], simp add: sample_channel_def)
  have "sample_channel_reach (?s\<lparr>cn_world := bu_worker_poll sample_buffer_ops (cn_world ?s)\<rparr>)"
    by (rule reach_step [OF r ch_worker])
  then show ?thesis using call by (simp add: sample_channel_called_def sample_channel_def sample_buffer_ops_def del: sample_worker.simps)
qed

theorem channel_never_bricked_witness:
  "\<exists>c r c' k. cn_handles sample_channel_called = [c] \<and>
     rs_connect_error (sys_sender (sb_service (cn_world sample_channel_called))) = None \<and>
     channel_poll_ready id sample_buffer_ops c (cn_world sample_channel_called) = (r, c', k) \<and> r \<noteq> Ready (Err ''closed'')"
proof -
  obtain c where c: "cn_handles sample_channel_called = [c]"
    by (simp add: sample_channel_called_def split: prod.splits)
  obtain r c' k where p: "channel_poll_ready id sample_buffer_ops c (cn_world sample_channel_called) = (r, c', k)"
    by (metis prod_cases3)
  have "rs_connect_error (sys_sender (sb_service (cn_world sample_channel_called))) = None"
    by (simp add: sample_channel_called_def sample_channel_def channel_call_def sample_buffer_ops_def sample_pair_def
        H3Connection_new_def sample_defs)
  with channel_never_bricked [OF sample_buffer_ok sample_pair_ok sample_channel_called_reach _ p] c p show ?thesis by auto
qed

end
