(* ===== verification/Exchange.thy ===== *)
theory Exchange
  imports SendRequest
begin

text \<open>
  One exchange on the client: the request future of \<open>h3-util/src/client_conn.rs\<close>, the response body
  it returns (\<open>H3IncomingClient\<close> of \<open>client_body.rs\<close>) and the upload it hands to the executor, as they run
  beside each other. The two halves share the cancellation channel: its sender is a local of the
  request future and then a field of the response body, its receiver belongs to the upload.
\<close>

section \<open>The state\<close>

record ('sr, 'hd, 'r, 'tx, 'b, 'h, 's, 'se, 'x, 'c, 'w) exchange =
  xc_request :: "('sr, 'hd, 'r, 'tx, 'b) request_fut"
  xc_cells :: "'w cell_store"
  xc_upload :: "('b, 'h, 's, 'se, 'x, 'c) client_body_fut option"
  xc_body :: "('r, 'tx) H3IncomingClient option"
  xc_left :: "'r option"

text \<open>\<open>xc_left\<close> is the receive half once its owner is gone.\<close>

definition exchange_new ::
  "'hd \<Rightarrow> 'b \<Rightarrow> 'sr \<Rightarrow> nat \<Rightarrow> 'w cell_store \<Rightarrow> ('sr, 'hd, 'r, 'tx, 'b, 'h, 's, 'se, 'x, 'c, 'w) exchange" where
  "exchange_new head body sr closing cs =
     \<lparr>xc_request = send_request_inner head body sr closing, xc_cells = cs, xc_upload = None, xc_body = None,
      xc_left = None\<rparr>"

section \<open>The operations\<close>

text \<open>
  The sender of the channel is dropped: the state of the channel, which the receiver looks at, is
  changed by \<open>close\<close>. An upload that has completed has no receiver any more.
\<close>

fun signal ::
  "('tx \<Rightarrow> 'c \<Rightarrow> 'c) \<Rightarrow> 'tx \<Rightarrow> ('b, 'h, 's, 'se, 'x, 'c) client_body_fut \<Rightarrow> ('b, 'h, 's, 'se, 'x, 'c) client_body_fut" where
  "signal close tx (CB_running g b c pc) = CB_running g b (close tx c) pc"
| "signal close tx (CB_done w res) = CB_done w res"

definition release_cancel ::
  "('tx \<Rightarrow> 'c \<Rightarrow> 'c) \<Rightarrow> 'tx option \<Rightarrow> ('sr, 'hd, 'r, 'tx, 'b, 'h, 's, 'se, 'x, 'c, 'w) exchange \<Rightarrow>
   ('sr, 'hd, 'r, 'tx, 'b, 'h, 's, 'se, 'x, 'c, 'w) exchange" where
  "release_cancel close otx x =
     (case otx of None \<Rightarrow> x | Some tx \<Rightarrow> x\<lparr>xc_upload := map_option (signal close tx) (xc_upload x)\<rparr>)"

text \<open>What a poll of the request future does beside its result.\<close>

fun apply_effect ::
  "('tx \<Rightarrow> 'c \<Rightarrow> 'c) \<Rightarrow> ('r, 'tx, ('b, 'h, 's, 'se, 'x, 'c) client_body_fut) request_effect \<Rightarrow>
   ('sr, 'hd, 'r, 'tx, 'b, 'h, 's, 'se, 'x, 'c, 'w) exchange \<Rightarrow>
   ('sr, 'hd, 'r, 'tx, 'b, 'h, 's, 'se, 'x, 'c, 'w) exchange" where
  "apply_effect close (Spawn_body f) x = x\<lparr>xc_upload := Some f\<rparr>"
| "apply_effect close (Drop_cancel tx) x = release_cancel close (Some tx) x"
| "apply_effect close (Drop_recv r) x = x\<lparr>xc_left := Some r\<rparr>"

definition exchange_poll ::
  "('sr, 'hd, 'st, 's, 'r, 'tx, 'c, 'resp, 'se, 'b, 'h, 'x, 'w) request_ops \<Rightarrow> ('tx \<Rightarrow> 'c \<Rightarrow> 'c) \<Rightarrow>
   ('sr, 'hd, 'r, 'tx, 'b, 'h, 's, 'se, 'x, 'c, 'w) exchange \<Rightarrow>
   ((('se, 'x) error + 'resp \<times> ('r, 'tx) H3IncomingClient) poll \<times>
    ('sr, 'hd, 'r, 'tx, 'b, 'h, 's, 'se, 'x, 'c, 'w) exchange) option" where
  "exchange_poll rops close x =
     (case request_poll rops (xc_request x) (xc_cells x) of
        None \<Rightarrow> None
      | Some (res, fut, cs', eff) \<Rightarrow>
          Some (res, fold (apply_effect close) eff
            (x\<lparr>xc_request := fut, xc_cells := cs',
               xc_body := (case res of Ready (Ok (resp, i)) \<Rightarrow> Some i | _ \<Rightarrow> xc_body x)\<rparr>)))"

text \<open>The caller drops the request future: the locals of the suspension point go with it.\<close>

definition exchange_drop_request where
  "exchange_drop_request close x =
     (case xc_request x of
        RF_receiving r tx closing \<Rightarrow> release_cancel close (Some tx) (x\<lparr>xc_request := RF_done, xc_left := Some r\<rparr>)
      | _ \<Rightarrow> x\<lparr>xc_request := RF_done\<rparr>)"

text \<open>The executor polls the upload.\<close>

definition exchange_upload where
  "exchange_upload rops x =
     (case xc_upload x of
        None \<Rightarrow> None
      | Some f \<Rightarrow> (case client_body_poll (so_body rops) f of
          None \<Rightarrow> None
        | Some (res, f') \<Rightarrow> Some (x\<lparr>xc_upload := Some f'\<rparr>)))"

text \<open>The caller reads the response body, and drops it.\<close>

definition exchange_read where
  "exchange_read rcv x =
     (case xc_body x of
        None \<Rightarrow> None
      | Some i \<Rightarrow> (case client_poll_frame rcv i of (res, wake, i') \<Rightarrow> Some (res, x\<lparr>xc_body := Some i'\<rparr>)))"

definition exchange_drop_body where
  "exchange_drop_body rcv close x =
     (case xc_body x of
        None \<Rightarrow> x
      | Some i \<Rightarrow> (case client_incoming_drop rcv i of
          (r, otx) \<Rightarrow> release_cancel close otx (x\<lparr>xc_body := None, xc_left := Some r\<rparr>)))"

lemmas exchange_defs =
  exchange_poll_def exchange_drop_request_def exchange_upload_def exchange_read_def exchange_drop_body_def

text \<open>The steps come in any order: the user, the executor and the peers act on their own.\<close>

inductive exchange_step ::
  "('sr, 'hd, 'st, 's, 'r, 'tx, 'c, 'resp, 'se, 'b, 'h, 'x, 'w) request_ops \<Rightarrow> ('r, 'buf, 'h, 'se) recv_ops \<Rightarrow>
   ('tx \<Rightarrow> 'c \<Rightarrow> 'c) \<Rightarrow> ('sr, 'hd, 'r, 'tx, 'b, 'h, 's, 'se, 'x, 'c, 'w) exchange \<Rightarrow>
   ('sr, 'hd, 'r, 'tx, 'b, 'h, 's, 'se, 'x, 'c, 'w) exchange \<Rightarrow> bool"
  for rops rcv close where
  xs_poll: "exchange_poll rops close x = Some (res, x') \<Longrightarrow> exchange_step rops rcv close x x'"
| xs_drop_request: "exchange_step rops rcv close x (exchange_drop_request close x)"
| xs_upload: "exchange_upload rops x = Some x' \<Longrightarrow> exchange_step rops rcv close x x'"
| xs_read: "exchange_read rcv x = Some (res, x') \<Longrightarrow> exchange_step rops rcv close x x'"
| xs_drop_body: "exchange_step rops rcv close x (exchange_drop_body rcv close x)"
| xs_net: "exchange_step rops rcv close x (x\<lparr>xc_cells := (xc_cells x)\<lparr>net := w\<rparr>\<rparr>)"

section \<open>What the channel and the streams promise\<close>

text \<open>
  The documented behaviour of \<open>tokio::sync::oneshot\<close> that the cancellation relies on: the receiver of a
  new channel is pending and stays pending while its sender lives and sends nothing (\<open>live\<close>), and is
  completed once the sender was dropped.
\<close>

definition cancel_channel_ok ::
  "('w \<Rightarrow> ('tx \<times> 'c) \<times> 'w) \<Rightarrow> ('c \<Rightarrow> bool \<times> 'c) \<Rightarrow> ('c \<Rightarrow> bool) \<Rightarrow> ('tx \<Rightarrow> 'c \<Rightarrow> 'c) \<Rightarrow> bool" where
  "cancel_channel_ok channel poll_cancel live close \<longleftrightarrow>
     (\<forall>w. live (snd (fst (channel w)))) \<and>
     (\<forall>c. live c \<longrightarrow> \<not> fst (poll_cancel c) \<and> live (snd (poll_cancel c))) \<and>
     (\<forall>tx c. fst (poll_cancel (close tx c)))"

text \<open>A stream that \<open>send_request\<close> returned has carried no body yet, and no FIN.\<close>

definition fresh_split :: "('st \<Rightarrow> 's \<times> 'r) \<Rightarrow> ('s \<Rightarrow> send_status) \<Rightarrow> ('s \<Rightarrow> 'h frame list) \<Rightarrow> bool" where
  "fresh_split split status sent \<longleftrightarrow> (\<forall>st. status (fst (split st)) \<noteq> Send_fin \<and> sent (fst (split st)) = [])"

definition exchange_ok ::
  "('sr, 'hd, 'st, 's, 'r, 'tx, 'c, 'resp, 'se, 'b, 'h, 'x, 'w) request_ops \<Rightarrow> ('c \<Rightarrow> bool) \<Rightarrow> ('tx \<Rightarrow> 'c \<Rightarrow> 'c) \<Rightarrow>
   ('s \<Rightarrow> send_status) \<Rightarrow> ('s \<Rightarrow> 'h frame list) \<Rightarrow> ('b \<Rightarrow> 'h frame list) \<Rightarrow> bool" where
  "exchange_ok rops live close status sent frames \<longleftrightarrow>
     ops_ok (so_body rops) status sent frames \<and>
     cancel_channel_ok (so_channel rops) (cb_poll_cancel (so_body rops)) live close \<and>
     fresh_split (so_split rops) status sent"

section \<open>Who holds the sender of the channel\<close>

fun request_holds :: "('sr, 'hd, 'r, 'tx, 'b) request_fut \<Rightarrow> bool" where
  "request_holds (RF_receiving r tx closing) = True"
| "request_holds _ = False"

fun body_holds :: "('r, 'tx) H3IncomingClient option \<Rightarrow> bool" where
  "body_holds None = False"
| "body_holds (Some i) = (ic_cancel_body_send i \<noteq> None)"

definition xc_owned :: "('sr, 'hd, 'r, 'tx, 'b, 'h, 's, 'se, 'x, 'c, 'w) exchange \<Rightarrow> bool" where
  "xc_owned x \<longleftrightarrow> request_holds (xc_request x) \<or> body_holds (xc_body x)"

text \<open>
  The upload beside its owner: while the sender of the channel lives, the receiver is pending and an
  upload that returned \<open>Ok\<close> has finished its stream; once it is gone, the receiver is completed.
\<close>

fun upload_sync where
  "upload_sync ops live status owned (CB_running g b c pc) \<longleftrightarrow> (if owned then live c else fst (cb_poll_cancel ops c))"
| "upload_sync ops live status owned (CB_done w res) \<longleftrightarrow> (owned \<and> res = Ok () \<longrightarrow> status w = Send_fin)"

definition upload_inv where
  "upload_inv rops live status sent frames goal owned f \<longleftrightarrow>
     client_body_inv (so_body rops) status sent frames goal f \<and> upload_sync (so_body rops) live status owned f"

text \<open>The invariant of an exchange whose request body is \<open>bd\<close>.\<close>

definition exchange_inv where
  "exchange_inv rops live status sent frames bd x \<longleftrightarrow>
     (\<forall>i. xc_body x = Some i \<longrightarrow> ic_cancel_body_send i \<noteq> None) \<and>
     (case xc_request x of
        RF_sending head b sr a \<Rightarrow> b = bd \<and> xc_upload x = None \<and> xc_body x = None
      | RF_receiving r tx a \<Rightarrow> xc_body x = None
      | RF_done \<Rightarrow> True) \<and>
     (\<forall>f. xc_upload x = Some f \<longrightarrow>
        upload_inv rops live status sent frames (wire_frames (frames bd)) (xc_owned x) f)"

section \<open>The invariant is kept\<close>

lemma oneshot_live:
  assumes "exchange_ok rops live close status sent frames" "live c"
  shows "\<exists>c'. cb_poll_cancel (so_body rops) c = (False, c') \<and> live c'"
  using assms by (cases "cb_poll_cancel (so_body rops) c") (force simp: exchange_ok_def cancel_channel_ok_def)

lemma select_sync:
  assumes ok: "exchange_ok rops live close status sent frames"
    and sync: "upload_sync (so_body rops) live status owned (CB_running g b c At_select)"
  shows "upload_sync (so_body rops) live status owned (snd (client_body_select (so_body rops) g b c))"
proof (cases owned)
  case True
  then obtain c' where "cb_poll_cancel (so_body rops) c = (False, c')" "live c'"
    using oneshot_live [OF ok] sync by auto
  with True show ?thesis
    by (auto simp: client_body_select_def client_body_exit_def
        split: prod.splits poll.splits option.splits sum.splits frame.splits)
next
  case False
  with sync have "fst (cb_poll_cancel (so_body rops) c)" by simp
  with False show ?thesis
    by (cases "cb_poll_cancel (so_body rops) c") (simp add: client_body_select_def client_body_exit_def)
qed

lemma send_sync:
  assumes ok: "exchange_ok rops live close status sent frames"
    and sync: "upload_sync (so_body rops) live status owned (CB_running g b c (At_send op))"
  shows "upload_sync (so_body rops) live status owned (snd (client_body_send (so_body rops) g b c op))"
proof -
  have half: "send_half_ok (bo_poll_send (so_body rops)) (bo_stop_stream (so_body rops))
      (bo_drop_stream (so_body rops)) status sent" using ok by (simp add: exchange_ok_def)
  obtain r w' where r: "bo_poll_send (so_body rops) op (guard_w g) = (r, w')" by fastforce
  have "status (bo_drop_stream (so_body rops) w') = Send_fin" if "op = Op_finish" "r = Ready (Ok ())"
    using send_half_finish [OF half] send_half_drop(1) [OF half] r that by simp
  with sync r show ?thesis
    by (auto simp: client_body_send_def deref_mut_def client_body_exit_def guard_defs
        split: poll.splits sum.splits send_op.splits if_splits)
qed

lemma upload_moves_inv:
  assumes ok: "exchange_ok rops live close status sent frames"
    and inv: "upload_inv rops live status sent frames goal owned f" and m: "client_body_moves (so_body rops) f f'"
  shows "upload_inv rops live status sent frames goal owned f'"
proof -
  from m obtain g b c pc fl where f: "f = CB_running g b c pc"
    and s: "client_body_step (so_body rops) f = (fl, f')" by (auto elim!: client_body_movesE)
  have "client_body_inv (so_body rops) status sent frames goal f'"
    using client_body_step_inv [of "so_body rops" status sent frames goal f] inv s by (simp add: upload_inv_def)
  moreover have "upload_sync (so_body rops) live status owned f'"
  proof (cases pc)
    case At_select
    with f s select_sync [OF ok, of owned g b c] inv show ?thesis by (simp add: upload_inv_def)
  next
    case (At_send op)
    with f s send_sync [OF ok, of owned g b c op] inv show ?thesis by (simp add: upload_inv_def)
  qed
  ultimately show ?thesis by (simp add: upload_inv_def)
qed

lemma upload_poll_inv:
  assumes ok: "exchange_ok rops live close status sent frames"
    and inv: "upload_inv rops live status sent frames goal owned f"
    and p: "client_body_poll (so_body rops) f = Some (r, f')"
  shows "upload_inv rops live status sent frames goal owned f'"
proof -
  have "(client_body_moves (so_body rops))\<^sup>*\<^sup>* f f'" using client_body_poll_moves [OF p] by simp
  then show ?thesis by (induction rule: rtranclp_induct) (auto intro: inv upload_moves_inv [OF ok])
qed

text \<open>A new upload: its stream and its channel are fresh.\<close>

lemma upload_new_inv:
  assumes ok: "exchange_ok rops live close status sent frames"
    and s: "so_split rops st = (w, r)" and c: "so_channel rops nw = ((tx, rx), nw')"
  shows "upload_inv rops live status sent frames (wire_frames (frames bd)) True (send_h3_client_body w bd rx)"
proof -
  have "status w \<noteq> Send_fin" "sent w = []" using ok s by (auto simp: exchange_ok_def fresh_split_def)
      (metis fst_conv)+
  moreover have "live rx" using ok c by (auto simp: exchange_ok_def cancel_channel_ok_def) (metis fst_conv snd_conv)
  ultimately show ?thesis
    using ok by (simp add: upload_inv_def send_h3_client_body_def guard_defs exchange_ok_def)
qed

text \<open>Dropping the sender completes the receiver of an upload that is running.\<close>

lemma signal_inv:
  assumes ok: "exchange_ok rops live close status sent frames"
    and inv: "upload_inv rops live status sent frames goal owned f"
  shows "upload_inv rops live status sent frames goal False (signal close tx f)"
proof (cases f)
  case (CB_running g b c pc)
  with inv ok show ?thesis by (simp add: upload_inv_def exchange_ok_def cancel_channel_ok_def)
next
  case (CB_done w res)
  with inv show ?thesis by (simp add: upload_inv_def)
qed

text \<open>How the result of a poll is entered.\<close>

definition settle where
  "settle close x p =
     (case p of (res, fut, cs', eff) \<Rightarrow>
        fold (apply_effect close) eff
          (x\<lparr>xc_request := fut, xc_cells := cs',
             xc_body := (case res of Ready (Ok (resp, i)) \<Rightarrow> Some i | _ \<Rightarrow> xc_body x)\<rparr>))"

lemma exchange_poll_settle:
  "exchange_poll rops close x =
     map_option (\<lambda>p. (fst p, settle close x p)) (request_poll rops (xc_request x) (xc_cells x))"
  by (auto simp: exchange_poll_def settle_def split: option.splits)

lemma receive_inv:
  assumes ok: "exchange_ok rops live close status sent frames" and b: "xc_body x = None"
    and up: "\<And>f. xc_upload x = Some f \<Longrightarrow> upload_inv rops live status sent frames (wire_frames (frames bd)) True f"
  shows "exchange_inv rops live status sent frames bd (settle close x (request_receive rops r tx a cs))"
proof -
  obtain y r' w where y: "so_poll_recv_response rops r (net cs) = (y, r', w)" by (metis prod_cases3)
  show ?thesis
  proof (cases y)
    case Pending
    with y b up show ?thesis by (auto simp: settle_def request_receive_def exchange_inv_def xc_owned_def)
  next
    case (Ready z)
    with y b up signal_inv [OF ok up] show ?thesis
      by (cases z) (auto simp: settle_def request_receive_def exchange_inv_def xc_owned_def release_cancel_def
          H3IncomingClient_new_def split: option.splits)
  qed
qed

lemma settle_spawn: "settle close x (res, fut, cs', Spawn_body f # eff) = settle close (x\<lparr>xc_upload := Some f\<rparr>) (res, fut, cs', eff)"
  by (cases x; cases res) (auto simp: settle_def split: sum.splits)

lemma body_inv:
  assumes ok: "exchange_ok rops live close status sent frames" and x: "xc_body x = None" "xc_upload x = None"
    and p: "request_body rops st bd a cs = Some p"
  shows "exchange_inv rops live status sent frames bd (settle close x p)"
proof -
  obtain w r where s: "so_split rops st = (w, r)" by fastforce
  obtain tx rx nw where c: "so_channel rops (net cs) = ((tx, rx), nw)" by (metis prod.exhaust)
  let ?cs = "cs\<lparr>net := nw\<rparr>"
  obtain y f where y: "client_body_poll (so_body rops) (send_h3_client_body w bd rx) = Some (y, f)"
    using p s c by (auto simp: request_body_def split: option.splits)
  note f = upload_poll_inv [OF ok upload_new_inv [OF ok s c] y]
  have rcv: "exchange_inv rops live status sent frames bd (settle close x' (request_receive rops r tx a ?cs))"
    if "xc_body x' = None" "\<And>f. xc_upload x' = Some f \<Longrightarrow>
      upload_inv rops live status sent frames (wire_frames (frames bd)) True f" for x'
    using receive_inv [OF ok that] .
  show ?thesis
  proof (cases y)
    case Pending
    with p s c y obtain res fut cs' eff where q: "request_receive rops r tx a ?cs = (res, fut, cs', eff)"
      and "p = (res, fut, cs', Spawn_body f # eff)" by (auto simp: request_body_def split: prod.splits)
    with rcv [of "x\<lparr>xc_upload := Some f\<rparr>"] q x f show ?thesis by (simp add: settle_spawn)
  next
    case (Ready z)
    show ?thesis
    proof (cases z)
      case (Inl e)
      with p s c y Ready x show ?thesis
        by (auto simp: request_body_def settle_def exchange_inv_def xc_owned_def release_cancel_def)
    next
      case (Inr u)
      with p s c y Ready have "p = request_receive rops r tx a ?cs" by (simp add: request_body_def)
      with rcv [of x] x show ?thesis by simp
    qed
  qed
qed

lemma exchange_inv_poll:
  assumes ok: "exchange_ok rops live close status sent frames"
    and inv: "exchange_inv rops live status sent frames bd x" and p: "exchange_poll rops close x = Some (res, x')"
  shows "exchange_inv rops live status sent frames bd x'"
proof -
  obtain q where q: "request_poll rops (xc_request x) (xc_cells x) = Some q" and x': "x' = settle close x q"
    using p by (auto simp: exchange_poll_settle)
  show ?thesis
  proof (cases "xc_request x")
    case (RF_sending head b sr a)
    with inv have x: "b = bd" "xc_upload x = None" "xc_body x = None" by (simp_all add: exchange_inv_def)
    obtain y sr' w where y: "so_poll_send_request rops sr head (net (xc_cells x)) = (y, sr', w)" by (metis prod_cases3)
    show ?thesis
    proof (cases "\<exists>st. y = Ready (Ok st)")
      case True
      then obtain st where "y = Ready (Ok st)" ..
      with q y RF_sending x(1) have "request_body rops st bd a ((xc_cells x)\<lparr>net := w\<rparr>) = Some q" by simp
      from body_inv [OF ok x(3,2) this] x' show ?thesis by simp
    next
      case False
      with q y RF_sending x x' show ?thesis
        by (auto simp: settle_def exchange_inv_def split: poll.splits sum.splits)
    qed
  next
    case (RF_receiving r tx a)
    with inv have b: "xc_body x = None" and up: "xc_upload x = Some f \<Longrightarrow>
        upload_inv rops live status sent frames (wire_frames (frames bd)) True f" for f
      by (simp_all add: exchange_inv_def xc_owned_def)
    from receive_inv [OF ok b up, of r tx a "xc_cells x"] q RF_receiving x' show ?thesis by simp
  qed (use q in simp)
qed

lemma release_inv:
  assumes ok: "exchange_ok rops live close status sent frames"
    and up: "\<And>f. xc_upload x = Some f \<Longrightarrow> upload_inv rops live status sent frames (wire_frames (frames bd)) owned f"
    and x: "xc_request x = RF_done" "xc_body x = None"
  shows "exchange_inv rops live status sent frames bd (release_cancel close (Some tx) x)"
  using x signal_inv [OF ok up] by (auto simp: release_cancel_def exchange_inv_def xc_owned_def)

lemma exchange_inv_step:
  assumes ok: "exchange_ok rops live close status sent frames"
    and inv: "exchange_inv rops live status sent frames bd x" and s: "exchange_step rops rcv close x x'"
  shows "exchange_inv rops live status sent frames bd x'"
  using s
proof cases
  case (xs_poll res)
  then show ?thesis using exchange_inv_poll [OF ok inv] by blast
next
  case xs_drop_request
  show ?thesis
  proof (cases "xc_request x")
    case (RF_receiving r tx a)
    then show ?thesis
      unfolding xs_drop_request using inv
      by (auto simp: exchange_drop_request_def exchange_inv_def [of _ _ _ _ _ _ x] intro!: release_inv [OF ok])
  qed (use inv xs_drop_request in \<open>auto simp: exchange_drop_request_def exchange_inv_def xc_owned_def\<close>)
next
  case xs_upload
  then obtain f r f' where "xc_upload x = Some f" "client_body_poll (so_body rops) f = Some (r, f')"
    "x' = x\<lparr>xc_upload := Some f'\<rparr>" by (auto simp: exchange_upload_def split: option.splits)
  with inv upload_poll_inv [OF ok] show ?thesis
    by (auto simp: exchange_inv_def xc_owned_def split: request_fut.splits)
next
  case (xs_read res)
  then obtain i i' where i: "xc_body x = Some i" "x' = x\<lparr>xc_body := Some i'\<rparr>"
    and "ic_cancel_body_send i' = ic_cancel_body_send i"
    by (auto simp: exchange_read_def client_poll_frame_def
        split: option.splits prod.splits if_splits poll.splits sum.splits)
  with inv show ?thesis by (auto simp: exchange_inv_def xc_owned_def split: request_fut.splits)
next
  case xs_drop_body
  show ?thesis
  proof (cases "xc_body x")
    case (Some i)
    with inv obtain tx where tx: "ic_cancel_body_send i = Some tx" "xc_request x = RF_done"
      by (auto simp: exchange_inv_def split: request_fut.splits)
    with Some inv show ?thesis
      unfolding xs_drop_body
      by (auto simp: exchange_drop_body_def client_incoming_drop_def exchange_inv_def [of _ _ _ _ _ _ x]
          intro!: release_inv [OF ok])
  qed (use inv xs_drop_body in \<open>simp add: exchange_drop_body_def\<close>)
next
  case xs_net
  with inv show ?thesis by (auto simp: exchange_inv_def xc_owned_def split: request_fut.splits)
qed

definition exchange_init where
  "exchange_init rops live close status sent frames bd x \<longleftrightarrow>
     exchange_ok rops live close status sent frames \<and> (\<exists>head sr a cs. x = exchange_new head bd sr a cs)"

interpretation xc: invariant_system
  "exchange_init rops live close status sent frames bd" "exchange_step rops rcv close"
  "\<lambda>x. exchange_ok rops live close status sent frames \<and> exchange_inv rops live status sent frames bd x"
  for rops :: "('sr, 'hd, 'st, 's, 'r, 'tx, 'c, 'resp, 'se, 'b, 'h, 'x, 'w) request_ops"
    and rcv :: "('r, 'buf, 'h, 'se) recv_ops" and live close status sent frames bd
proof unfold_locales
  fix x :: "('sr, 'hd, 'r, 'tx, 'b, 'h, 's, 'se, 'x, 'c, 'w) exchange"
  assume "exchange_init rops live close status sent frames bd x"
  then show "exchange_ok rops live close status sent frames \<and> exchange_inv rops live status sent frames bd x"
    by (auto simp: exchange_init_def exchange_new_def exchange_inv_def send_request_inner_def)
next
  fix x x' :: "('sr, 'hd, 'r, 'tx, 'b, 'h, 's, 'se, 'x, 'c, 'w) exchange"
  assume i: "exchange_ok rops live close status sent frames \<and> exchange_inv rops live status sent frames bd x"
    and s: "exchange_step rops rcv close x x'"
  then show "exchange_ok rops live close status sent frames \<and> exchange_inv rops live status sent frames bd x'"
    using exchange_inv_step [OF conjunct1 [OF i] conjunct2 [OF i] s] by simp
qed

section \<open>An upload whose receiver is completed\<close>

lemma client_body_poll_exit:
  "client_body_step ops f = client_body_exit ops g res \<Longrightarrow>
   client_body_poll ops f = Some (Ready res, snd (client_body_exit ops g res))"
  by (simp add: client_body_poll.simps client_body_exit_def)

lemma fired_select:
  assumes inv: "client_body_inv ops status sent frames goal (CB_running g b c At_select)"
    and c: "fst (cb_poll_cancel ops c)"
  shows "\<exists>w. client_body_poll ops (CB_running g b c At_select) = Some (Ready (Ok ()), CB_done w (Ok ())) \<and>
    status w = (if status (guard_w g) = Send_open then Send_reset H3_REQUEST_CANCELLED else status (guard_w g)) \<and>
    status w \<noteq> Send_fin"
proof -
  obtain c' where c: "cb_poll_cancel ops c = (True, c')" using c by (cases "cb_poll_cancel ops c") auto
  then have "client_body_step ops (CB_running g b c At_select) = client_body_exit ops g (Ok ())"
    by (simp add: client_body_select_def)
  from client_body_poll_exit [OF this] client_body_exit_status [of ops status sent frames g "Ok ()" Complete] inv
  show ?thesis by (auto simp: client_body_exit_def)
qed

lemma fired_poll:
  assumes inv: "client_body_inv ops status sent frames goal (CB_running g b c pc)"
    and c: "fst (cb_poll_cancel ops c)"
  shows "\<exists>r f'. client_body_poll ops (CB_running g b c pc) = Some (r, f') \<and>
    (case f' of
       CB_running g' b' c' pc' \<Rightarrow> b' = b \<and> pc' = pc \<and> pc \<noteq> At_select
     | CB_done w res \<Rightarrow> status w = Send_fin \<longrightarrow> pc = At_send Op_finish)"
proof (cases pc)
  case At_select
  from fired_select [OF inv [unfolded At_select] c] At_select show ?thesis by auto
next
  case (At_send op)
  let ?f = "CB_running g b c (At_send op)"
  have half: "send_half_ok (bo_poll_send ops) (bo_stop_stream ops) (bo_drop_stream ops) status sent"
    and ok: "ops_ok ops status sent frames" using inv by simp_all
  obtain r w' where r: "bo_poll_send ops op (guard_w g) = (r, w')" by fastforce
  let ?g = "g\<lparr>guard_w := w'\<rparr>"
  have err: "\<exists>w. snd (client_body_exit ops (set_error_code H3_INTERNAL_ERROR ?g) res) = CB_done w res \<and> status w \<noteq> Send_fin"
    if "\<not> (op = Op_finish \<and> r = Ready (Ok ()))" for res
    using client_body_exit_status [OF ok, of "set_error_code H3_INTERNAL_ERROR ?g" res Complete]
      send_half_write [OF half r _ that] inv At_send
    by (auto simp: client_body_exit_def set_error_code_def)
  show ?thesis
  proof (cases "r = Ready (Ok ()) \<and> op \<noteq> Op_finish")
    case True
    then have s: "client_body_step ops ?f = (Again, CB_running ?g b c At_select)"
      using r by (cases op) (simp_all add: client_body_send_def deref_mut_def)
    then have "client_body_inv ops status sent frames goal (CB_running ?g b c At_select)"
      using client_body_step_inv [of ops status sent frames goal ?f] inv At_send by simp
    from fired_select [OF this c] s show ?thesis
      unfolding At_send by (subst client_body_poll.simps) auto
  next
    case False
    show ?thesis
    proof (cases "r = Ready (Ok ())")
      case True
      with False have "op = Op_finish" by simp
      with r True show ?thesis
        unfolding At_send by (subst client_body_poll.simps)
          (simp add: client_body_send_def deref_mut_def client_body_exit_def)
    next
      case no: False
      with r err show ?thesis
        unfolding At_send by (subst client_body_poll.simps)
          (auto simp: client_body_send_def deref_mut_def client_body_exit_def split: poll.splits sum.splits)
    qed
  qed
qed

section \<open>A concrete exchange\<close>

text \<open>
  For evaluating the definitions: every operation of the connection succeeds at once, the channel is
  the flag that its sender was dropped, and the peer answers with two bytes.
\<close>

definition sample_exchange_ops ::
  "(unit, unit, unit, sample_stream, sample_recv, unit, bool, unit, string, sample_body, nat, nat, nat) request_ops" where
  "sample_exchange_ops = \<lparr>so_poll_send_request = (\<lambda>sr hd w. (Ready (Ok ()), sr, w)),
     so_split = (\<lambda>st. ((Send_open, []), \<lparr>sr_chunks = [[8, 9]], sr_trailers = [], sr_fin = True, sr_stopped = None\<rparr>)),
     so_channel = (\<lambda>w. (((), False), w)), so_poll_recv_response = (\<lambda>r w. (Ready (Ok ()), r, w)),
     so_to_string = (\<lambda>e. e), so_body = sample_client_ops\<rparr>"

lemma sample_exchange_ok: "exchange_ok sample_exchange_ops (\<lambda>c. \<not> c) (\<lambda>tx c. True) fst snd sample_frames"
  using sample_client_ops_ok
  by (simp add: exchange_ok_def cancel_channel_ok_def fresh_split_def sample_exchange_ops_def)
    (simp add: sample_client_ops_def)

definition sample_exchange :: "sample_body \<Rightarrow>
  (unit, unit, sample_recv, unit, sample_body, nat, sample_stream, string, nat, bool, nat) exchange" where
  "sample_exchange bd = exchange_new () bd () 0 (empty_cells 0)"

text \<open>After the first poll the response is there and the upload waits for its second frame.\<close>

definition sample_answered :: "sample_body \<Rightarrow>
  (unit, unit, sample_recv, unit, sample_body, nat, sample_stream, string, nat, bool, nat) exchange" where
  "sample_answered bd = snd (the (exchange_poll sample_exchange_ops (\<lambda>tx c. True) (sample_exchange bd)))"

lemmas sample_exchange_defs =
  sample_answered_def sample_exchange_def sample_exchange_ops_def exchange_new_def send_request_inner_def
  exchange_poll_def request_defs sample_client_defs H3IncomingClient_new_def

abbreviation sample_rest :: "sample_body \<Rightarrow> bool \<Rightarrow> (sample_body, nat, sample_stream, string, nat, bool) client_body_fut" where
  "sample_rest b c \<equiv> CB_running \<lparr>guard_w = (Send_open, [FData [1]]), guard_armed = True,
     guard_code = H3_REQUEST_CANCELLED\<rparr> b c At_select"

abbreviation sample_upload :: "sample_body \<Rightarrow> sample_body" where
  "sample_upload b \<equiv> Ready (Ok (FData [1])) # Pending # b"

lemma sample_answered_upload: "xc_upload (sample_answered (sample_upload b)) = Some (sample_rest b False)"
  by (simp add: sample_exchange_defs)

lemma sample_answered_body:
  "xc_body (sample_answered (sample_upload b)) = Some (H3IncomingClient_new
     \<lparr>sr_chunks = [[8, 9]], sr_trailers = [], sr_fin = True, sr_stopped = None\<rparr> (Some ()))"
  by (simp add: sample_exchange_defs)

lemma sample_answered_reach:
  "(exchange_step sample_exchange_ops sample_recv_ops (\<lambda>tx c. True))\<^sup>*\<^sup>*
     (exchange_new () (sample_upload b) () 0 (empty_cells 0)) (sample_answered (sample_upload b))"
proof -
  have "exchange_poll sample_exchange_ops (\<lambda>tx c. True) (sample_exchange (sample_upload b)) \<noteq> None"
    by (simp add: sample_exchange_defs)
  then have "exchange_poll sample_exchange_ops (\<lambda>tx c. True) (sample_exchange (sample_upload b)) =
      Some (fst (the (exchange_poll sample_exchange_ops (\<lambda>tx c. True) (sample_exchange (sample_upload b)))),
        sample_answered (sample_upload b))" by (auto simp: sample_answered_def)
  from xs_poll [OF this] show ?thesis unfolding sample_exchange_def by (rule r_into_rtranclp)
qed

section \<open>Properties\<close>

lemma exchange_reach:
  assumes "exchange_ok rops live close status sent frames"
    and "(exchange_step rops rcv close)\<^sup>*\<^sup>* (exchange_new head bd sr a cs) x"
  shows "exchange_inv rops live status sent frames bd x"
proof -
  have "exchange_init rops live close status sent frames bd (exchange_new head bd sr a cs)"
    using assms(1) by (auto simp: exchange_init_def)
  from xc.reach_inv [OF reach_rtranclp [where init = "exchange_init rops live close status sent frames bd",
        OF this assms(2)]] show ?thesis by simp
qed

text \<open>
  C15: no upload is left behind. Once neither the request future nor the response body of an exchange
  is there any more, its upload, if it is still running, takes no further frame of its body: the next
  poll returns, either because an operation of the stream is still blocked or because the upload
  has ended, and it ends with a FIN only if that FIN was the operation under way; an upload that was
  waiting for a frame ends at once, with an open stream reset with \<open>H3_REQUEST_CANCELLED\<close>.
\<close>

theorem orphan_upload_ends:
  assumes "exchange_ok rops live close status sent frames"
    and "(exchange_step rops rcv close)\<^sup>*\<^sup>* (exchange_new head bd sr a cs) x"
    and "\<not> xc_owned x" "xc_upload x = Some (CB_running g b c pc)"
  shows "\<exists>r f'. client_body_poll (so_body rops) (CB_running g b c pc) = Some (r, f') \<and>
    (case f' of
       CB_running g' b' c' pc' \<Rightarrow> b' = b \<and> pc' = pc \<and> pc \<noteq> At_select
     | CB_done w res \<Rightarrow> status w = Send_fin \<longrightarrow> pc = At_send Op_finish) \<and>
    (pc = At_select \<and> status (guard_w g) = Send_open \<longrightarrow>
       status (client_body_drop (so_body rops) f') = Send_reset H3_REQUEST_CANCELLED)"
proof -
  have i: "client_body_inv (so_body rops) status sent frames (wire_frames (frames bd)) (CB_running g b c pc)"
    and c: "fst (cb_poll_cancel (so_body rops) c)"
    using exchange_reach [OF assms(1,2)] assms(3,4) by (auto simp: exchange_inv_def upload_inv_def)
  show ?thesis
  proof (cases "pc = At_select")
    case True
    from fired_select [OF i [unfolded True] c] True show ?thesis by auto
  next
    case False
    with fired_poll [OF i c] show ?thesis by auto
  qed
qed

theorem orphan_upload_ends_witness:
  "\<exists>r f'. client_body_poll sample_client_ops (sample_rest [Ready (Ok (FData [2]))] True) = Some (r, f') \<and>
     fst (client_body_drop sample_client_ops f') = Send_reset H3_REQUEST_CANCELLED"
proof -
  let ?b = "[Ready (Ok (FData [2]))] :: sample_body"
  let ?x = "exchange_drop_body sample_recv_ops (\<lambda>tx c. True) (sample_answered (sample_upload ?b))"
  have r: "(exchange_step sample_exchange_ops sample_recv_ops (\<lambda>tx c. True))\<^sup>*\<^sup>*
      (exchange_new () (sample_upload ?b) () 0 (empty_cells 0)) ?x"
    by (rule rtranclp.rtrancl_into_rtrancl [OF sample_answered_reach]) (rule xs_drop_body)
  have "xc_upload ?x = Some (sample_rest ?b True)" "\<not> xc_owned ?x"
    by (simp_all add: exchange_drop_body_def sample_answered_body sample_answered_upload client_incoming_drop_def
        release_cancel_def xc_owned_def H3IncomingClient_new_def)
      (simp add: sample_exchange_defs)
  from orphan_upload_ends [OF sample_exchange_ok r this(2,1)] show ?thesis
    by (auto simp: sample_exchange_ops_def)
qed

text \<open>
  No upload is cancelled behind the caller's back. While the caller still holds the request future
  or the response, an upload that returned \<open>Ok\<close> has sent every frame of the request body and finished
  its stream.
\<close>

theorem owned_upload_completes:
  assumes "exchange_ok rops live close status sent frames"
    and "(exchange_step rops rcv close)\<^sup>*\<^sup>* (exchange_new head bd sr a cs) x"
    and "xc_owned x" "xc_upload x = Some (CB_done w (Ok ()))"
  shows "status w = Send_fin \<and> sent w = wire_frames (frames bd)"
  using exchange_reach [OF assms(1,2)] assms(3,4) by (simp add: exchange_inv_def upload_inv_def)

theorem owned_upload_completes_witness:
  "\<exists>x w. exchange_upload sample_exchange_ops (sample_answered (sample_upload [Ready (Ok (FData [2]))])) = Some x \<and>
     xc_owned x \<and> xc_upload x = Some (CB_done w (Ok ())) \<and> fst w = Send_fin \<and> snd w = [FData [1], FData [2]]"
proof -
  let ?b = "[Ready (Ok (FData [2]))] :: sample_body"
  let ?w = "(Send_fin, [FData [1], FData [2]]) :: sample_stream"
  let ?x = "(sample_answered (sample_upload ?b))\<lparr>xc_upload := Some (CB_done ?w (Ok ()))\<rparr>"
  have u: "exchange_upload sample_exchange_ops (sample_answered (sample_upload ?b)) = Some ?x"
    by (simp add: exchange_upload_def sample_answered_upload) (simp add: sample_exchange_defs)
  have r: "(exchange_step sample_exchange_ops sample_recv_ops (\<lambda>tx c. True))\<^sup>*\<^sup>*
      (exchange_new () (sample_upload ?b) () 0 (empty_cells 0)) ?x"
    by (rule rtranclp.rtrancl_into_rtrancl [OF sample_answered_reach]) (rule xs_upload [OF u])
  have o: "xc_owned ?x"
    by (simp add: xc_owned_def sample_answered_body H3IncomingClient_new_def)
  from owned_upload_completes [OF sample_exchange_ok r o, of ?w] u o show ?thesis by auto
qed

text \<open>
  C14: dropping the response cancels both directions. When the caller drops a response whose upload is
  waiting for its next frame on an open stream, the peer is told to stop sending unless the response had
  ended, and the next poll of the upload ends it, with its stream reset with \<open>H3_REQUEST_CANCELLED\<close>.
\<close>

theorem response_drop_cancels_upload:
  assumes "exchange_ok rops live close status sent frames"
    and "(exchange_step rops rcv close)\<^sup>*\<^sup>* (exchange_new head bd sr a cs) x"
    and "xc_body x = Some i" "xc_upload x = Some (CB_running g b c At_select)" "status (guard_w g) = Send_open"
  shows "\<exists>x' w. exchange_upload rops (exchange_drop_body rcv close x) = Some x' \<and>
    xc_upload x' = Some (CB_done w (Ok ())) \<and> status w = Send_reset H3_REQUEST_CANCELLED \<and>
    xc_left x' = Some (if ic_finished i then ic_s i else ro_stop_sending rcv H3_REQUEST_CANCELLED (ic_s i))"
proof -
  let ?x = "exchange_drop_body rcv close x"
  have "(exchange_step rops rcv close)\<^sup>*\<^sup>* (exchange_new head bd sr a cs) ?x"
    using assms(2) xs_drop_body [of rops rcv close x] by simp
  note inv = exchange_reach [OF assms(1) this]
  obtain tx where tx: "ic_cancel_body_send i = Some tx" and d: "xc_request x = RF_done"
    using exchange_reach [OF assms(1,2)] assms(3) by (auto simp: exchange_inv_def split: request_fut.splits)
  have up: "xc_upload ?x = Some (CB_running g b (close tx c) At_select)"
    and l: "xc_left ?x = Some (if ic_finished i then ic_s i else ro_stop_sending rcv H3_REQUEST_CANCELLED (ic_s i))"
    using assms(3,4) tx by (simp_all add: exchange_drop_body_def client_incoming_drop_def release_cancel_def)
  have "\<not> xc_owned ?x"
    using assms(3) tx d by (simp add: exchange_drop_body_def client_incoming_drop_def release_cancel_def xc_owned_def)
  with inv up have "client_body_inv (so_body rops) status sent frames (wire_frames (frames bd))
      (CB_running g b (close tx c) At_select)" "fst (cb_poll_cancel (so_body rops) (close tx c))"
    by (auto simp: exchange_inv_def upload_inv_def)
  from fired_select [OF this] assms(5) up l show ?thesis by (auto simp: exchange_upload_def)
qed

theorem response_drop_cancels_upload_witness:
  "\<exists>x w. exchange_upload sample_exchange_ops (exchange_drop_body sample_recv_ops (\<lambda>tx c. True)
        (sample_answered (sample_upload []))) = Some x \<and> xc_upload x = Some (CB_done w (Ok ())) \<and>
     fst w = Send_reset H3_REQUEST_CANCELLED"
  using response_drop_cancels_upload [OF sample_exchange_ok sample_answered_reach [of "[]"] sample_answered_body
      sample_answered_upload] by fastforce

end
