(* ===== verification/Connectors.thy ===== *)
theory Connectors
  imports Client
begin

text \<open>
  Connectors that wrap another one: \<open>CountConnect\<close> of \<open>tonic-h3-tests/src/goaway_reconnect.rs\<close>, which
  counts the attempts, and \<open>FailOnce\<close> of \<open>buffered_reconnect.rs\<close>, whose first attempt fails. A locale
  states what makes such a wrapper transparent to \<open>RequestSender\<close>, and both interpret it.
\<close>

section \<open>Wrapping a connector\<close>

text \<open>
  A wrapper keeps a shared value of its own (\<open>'e\<close>) beside the state that the wrapped connector sees.
  Operations that are not the wrapper's own leave its value alone.
\<close>

definition under :: "('a \<Rightarrow> 'w \<Rightarrow> 'r \<times> 'a \<times> 'w) \<Rightarrow> 'a \<Rightarrow> 'e \<times> 'w \<Rightarrow> 'r \<times> 'a \<times> 'e \<times> 'w" where
  "under f x w = (case f x (snd w) of (r, x', w') \<Rightarrow> (r, x', fst w, w'))"

definition under_new :: "('w \<Rightarrow> 'r \<times> 'w) \<Rightarrow> 'e \<times> 'w \<Rightarrow> 'r \<times> 'e \<times> 'w" where
  "under_new f w = (case f (snd w) of (r, w') \<Rightarrow> (r, fst w, w'))"

definition wrap_conn ::
  "('conn2 \<Rightarrow> 'cf2) \<Rightarrow> ('cf2 \<Rightarrow> 'e \<times> 'w \<Rightarrow> (('se, 'x) error + 'qc) poll \<times> 'cf2 \<times> 'e \<times> 'w) \<Rightarrow>
   ('conn, 'cf, 'qc, 'hf, 'drv, 'sr, 'tx, 'rx, 'se, 'x, 'w) conn_ops \<Rightarrow>
   ('conn2, 'cf2, 'qc, 'hf, 'drv, 'sr, 'tx, 'rx, 'se, 'x, 'e \<times> 'w) conn_ops" where
  "wrap_conn connect poll_connect ops =
     \<lparr>co_connect = connect, co_poll_connect = poll_connect, co_h3_new = co_h3_new ops,
      co_poll_h3_new = under (co_poll_h3_new ops), co_channel = under_new (co_channel ops),
      co_try_recv = under (co_try_recv ops), co_poll_close = under (co_poll_close ops),
      co_tx_send = (\<lambda>tx w. (fst w, co_tx_send ops tx (snd w)))\<rparr>"

definition wrap_request ::
  "('sr, 'hd, 'st, 's, 'r, 'tx, 'c, 'resp, 'se, 'b, 'h, 'x, 'w) request_ops \<Rightarrow>
   ('sr, 'hd, 'st, 's, 'r, 'tx, 'c, 'resp, 'se, 'b, 'h, 'x, 'e \<times> 'w) request_ops" where
  "wrap_request ops =
     \<lparr>so_poll_send_request = (\<lambda>sr hd. under (\<lambda>sr. so_poll_send_request ops sr hd) sr), so_split = so_split ops,
      so_channel = under_new (so_channel ops), so_poll_recv_response = under (so_poll_recv_response ops),
      so_to_string = so_to_string ops, so_body = so_body ops\<rparr>"

lemmas under_defs = under_def under_new_def wrap_conn_def wrap_request_def

text \<open>What a sender and a store are to the wrapped connector.\<close>

definition inner_sender ::
  "('conn2 \<Rightarrow> 'conn) \<Rightarrow> ('cf2 \<Rightarrow> 'cf) \<Rightarrow> ('conn2, 'cf2, 'hf, 'sr, 'rx, 'ex, 'se, 'x) RequestSender \<Rightarrow>
   ('conn, 'cf, 'hf, 'sr, 'rx, 'ex, 'se, 'x) RequestSender" where
  "inner_sender conn_of fut_of rs =
     \<lparr>rs_conn = conn_of (rs_conn rs), rs_send_request = rs_send_request rs, rs_driver_rx = rs_driver_rx rs,
      rs_make_send_request_fut = map_option (map_make_fut conn_of fut_of id) (rs_make_send_request_fut rs),
      rs_executor = rs_executor rs, rs_base_scheme = rs_base_scheme rs, rs_base_authority = rs_base_authority rs,
      rs_connect_error = rs_connect_error rs, rs_closing = rs_closing rs\<rparr>"

definition inner_cells :: "('e \<times> 'w) cell_store \<Rightarrow> 'w cell_store" where
  "inner_cells cs = \<lparr>cells = cells cs, next_cell = next_cell cs, net = snd (net cs)\<rparr>"

lemma inner_sender_simps [simp]:
  "rs_conn (inner_sender c f rs) = c (rs_conn rs)" "rs_send_request (inner_sender c f rs) = rs_send_request rs"
  "rs_driver_rx (inner_sender c f rs) = rs_driver_rx rs" "rs_connect_error (inner_sender c f rs) = rs_connect_error rs"
  "rs_make_send_request_fut (inner_sender c f rs) = map_option (map_make_fut c f id) (rs_make_send_request_fut rs)"
  "rs_closing (inner_sender c f rs) = rs_closing rs" "rs_base_scheme (inner_sender c f rs) = rs_base_scheme rs"
  "rs_base_authority (inner_sender c f rs) = rs_base_authority rs"
  by (simp_all add: inner_sender_def)

lemma inner_sender_updates:
  "inner_sender c f (rs\<lparr>rs_send_request := a\<rparr>) = (inner_sender c f rs)\<lparr>rs_send_request := a\<rparr>"
  "inner_sender c f (rs\<lparr>rs_driver_rx := b\<rparr>) = (inner_sender c f rs)\<lparr>rs_driver_rx := b\<rparr>"
  "inner_sender c f (rs\<lparr>rs_closing := n\<rparr>) = (inner_sender c f rs)\<lparr>rs_closing := n\<rparr>"
  "inner_sender c f (rs\<lparr>rs_connect_error := e\<rparr>) = (inner_sender c f rs)\<lparr>rs_connect_error := e\<rparr>"
  "inner_sender c f (rs\<lparr>rs_make_send_request_fut := m\<rparr>) =
     (inner_sender c f rs)\<lparr>rs_make_send_request_fut := map_option (map_make_fut c f id) m\<rparr>"
  by (simp_all add: inner_sender_def)

lemma inner_cells_simps [simp]:
  "net (inner_cells cs) = snd (net cs)" "load_cell a (inner_cells cs) = load_cell a cs"
  "next_cell (inner_cells cs) = next_cell cs"
  by (simp_all add: inner_cells_def load_cell_def)

lemma inner_cells_ops:
  "inner_cells (cs\<lparr>net := w\<rparr>) = (inner_cells cs)\<lparr>net := snd w\<rparr>"
  "inner_cells (store_cell a v cs) = store_cell a v (inner_cells cs)"
  "new_cell v (inner_cells cs) = (fst (new_cell v cs), inner_cells (snd (new_cell v cs)))"
  by (simp_all add: inner_cells_def store_cell_def new_cell_def)

text \<open>Requests do not depend on the connector at all.\<close>

lemma wrap_request_sel [simp]:
  "so_to_string (wrap_request ops) = so_to_string ops" "so_split (wrap_request ops) = so_split ops"
  "so_body (wrap_request ops) = so_body ops"
  by (simp_all add: wrap_request_def)

lemma inner_note_error:
  "inner_cells (note_error ts e a cs) = note_error ts e a (inner_cells cs)" "net (note_error ts e a cs) = net cs"
  by (simp_all add: note_error_def inner_cells_ops)

lemma wrap_request_receive:
  assumes "request_receive (wrap_request ops) r tx a cs = (res, fut, cs', eff)"
  shows "request_receive ops r tx a (inner_cells cs) = (res, fut, inner_cells cs', eff) \<and> fst (net cs') = fst (net cs)"
  using assms
  by (auto simp: request_receive_def wrap_request_def under_def inner_cells_ops inner_note_error
      split: prod.splits poll.splits sum.splits)

lemma wrap_request_body:
  assumes "request_body (wrap_request ops) st b a cs = Some (res, fut, cs', eff)"
  shows "request_body ops st b a (inner_cells cs) = Some (res, fut, inner_cells cs', eff) \<and> fst (net cs') = fst (net cs)"
proof -
  obtain w r where sp: "so_split ops st = (w, r)" by fastforce
  obtain tx rx nw where ch: "so_channel ops (snd (net cs)) = ((tx, rx), nw)" by (metis prod.exhaust)
  then have ch': "so_channel (wrap_request ops) (net cs) = ((tx, rx), fst (net cs), nw)"
    by (simp add: wrap_request_def under_new_def)
  obtain p f where p: "client_body_poll (so_body ops) (send_h3_client_body w b rx) = Some (p, f)"
    using assms sp ch' by (auto simp: request_body_def split: option.splits)
  let ?cs = "cs\<lparr>net := (fst (net cs), nw)\<rparr>"
  have i: "inner_cells ?cs = (inner_cells cs)\<lparr>net := nw\<rparr>" by (simp add: inner_cells_ops)
  show ?thesis
  proof (cases p)
    case Pending
    with assms sp ch' p obtain eff1 where q: "request_receive (wrap_request ops) r tx a ?cs = (res, fut, cs', eff1)"
      and eff: "eff = Spawn_body f # eff1" by (auto simp: request_body_def split: prod.splits)
    from wrap_request_receive [OF q] show ?thesis
      using sp ch p Pending eff i by (simp add: request_body_def)
  next
    case (Ready x)
    show ?thesis
    proof (cases x)
      case (Inl e)
      with assms sp ch ch' p Ready i show ?thesis by (auto simp: request_body_def)
    next
      case (Inr y)
      then have "request_receive (wrap_request ops) r tx a ?cs = (res, fut, cs', eff)"
        using assms sp ch' p Ready by (simp add: request_body_def)
      from wrap_request_receive [OF this] show ?thesis
        using sp ch p Ready Inr i by (simp add: request_body_def)
    qed
  qed
qed

lemma wrap_request_poll:
  assumes "request_poll (wrap_request ops) f cs = Some (res, fut, cs', eff)"
  shows "request_poll ops f (inner_cells cs) = Some (res, fut, inner_cells cs', eff) \<and> fst (net cs') = fst (net cs)"
proof (cases f)
  case (RF_sending head body sr a)
  obtain x sr' w where x: "so_poll_send_request ops sr head (snd (net cs)) = (x, sr', w)" by (metis prod_cases3)
  then have x': "so_poll_send_request (wrap_request ops) sr head (net cs) = (x, sr', fst (net cs), w)"
    by (simp add: wrap_request_def under_def)
  show ?thesis
  proof (cases "\<exists>st. x = Ready (Ok st)")
    case True
    then obtain st where st: "x = Ready (Ok st)" ..
    with assms RF_sending x' have "request_body (wrap_request ops) st body a (cs\<lparr>net := (fst (net cs), w)\<rparr>) =
        Some (res, fut, cs', eff)" by simp
    from wrap_request_body [OF this] st RF_sending x show ?thesis by (simp add: inner_cells_ops)
  next
    case False
    with assms RF_sending x x' show ?thesis
      by (auto simp: inner_cells_ops inner_note_error split: poll.splits sum.splits)
  qed
next
  case (RF_receiving r tx a)
  with assms wrap_request_receive [of ops r tx a cs res fut cs' eff] show ?thesis by simp
qed (use assms in simp)

section \<open>Transparent wrappers\<close>

text \<open>
  \<open>conn_of\<close> and \<open>fut_of\<close> give the wrapped connector and the future of its \<open>connect\<close>. While the wrapper's
  own value is \<open>good\<close>, a poll of its future is a poll of the wrapped future and keeps the value good.
\<close>

locale connector_wrapper =
  fixes connect2 :: "'conn2 \<Rightarrow> 'cf2"
    and poll2 :: "'cf2 \<Rightarrow> 'e \<times> 'w \<Rightarrow> (('se, 'x) error + 'qc) poll \<times> 'cf2 \<times> 'e \<times> 'w"
    and ops :: "('conn, 'cf, 'qc, 'hf, 'drv, 'sr, 'tx, 'rx, 'se, 'x, 'w) conn_ops"
    and conn_of :: "'conn2 \<Rightarrow> 'conn"
    and fut_of :: "'cf2 \<Rightarrow> 'cf"
    and good :: "'e \<Rightarrow> bool"
  assumes connect_of: "fut_of (connect2 c) = co_connect ops (conn_of c)"
    and poll_of: "good (fst w) \<Longrightarrow> poll2 cf w = (r, cf', w') \<Longrightarrow>
      co_poll_connect ops (fut_of cf) (snd w) = (r, fut_of cf', snd w') \<and> good (fst w')"
begin

lemma make_h3_of:
  assumes "make_h3 (wrap_conn connect2 poll2 ops) hf w = (r, f', sp, w')"
  shows "make_h3 ops hf (snd w) = (r, map_make_fut conn_of fut_of id f', sp, snd w') \<and> fst w' = fst w"
  using assms by (auto simp: make_h3_def wrap_conn_def under_def under_new_def
      split: prod.splits poll.splits sum.splits)

lemma make_connecting_of:
  assumes good: "good (fst w)" and m: "make_connecting (wrap_conn connect2 poll2 ops) cf w = (r, f', sp, w')"
  shows "make_connecting ops (fut_of cf) (snd w) = (r, map_make_fut conn_of fut_of id f', sp, snd w') \<and> good (fst w')"
proof -
  obtain x cf1 w1 where p: "poll2 cf w = (x, cf1, w1)" by (metis prod_cases3)
  note q = poll_of [OF good p]
  show ?thesis
  proof (cases "\<exists>qc. x = Ready (Ok qc)")
    case True
    then obtain qc where x: "x = Ready (Ok qc)" ..
    with m p have "make_h3 (wrap_conn connect2 poll2 ops) (co_h3_new ops qc) w1 = (r, f', sp, w')"
      by (simp add: make_connecting_def wrap_conn_def)
    from make_h3_of [OF this] q x show ?thesis by (simp add: make_connecting_def)
  next
    case False
    with m p q show ?thesis
      by (auto simp: make_connecting_def wrap_conn_def split: poll.splits sum.splits)
  qed
qed

lemma make_poll_of:
  assumes "good (fst w)" "make_poll (wrap_conn connect2 poll2 ops) f w = (r, f', sp, w')"
  shows "make_poll ops (map_make_fut conn_of fut_of id f) (snd w) =
    (r, map_make_fut conn_of fut_of id f', sp, snd w') \<and> good (fst w')"
proof (cases f)
  case (MF_start c)
  with assms make_connecting_of [of w "connect2 c"] connect_of [of c] show ?thesis by (simp add: wrap_conn_def)
next
  case (MF_connecting cf)
  with assms make_connecting_of [of w cf] show ?thesis by simp
next
  case (MF_h3 hf)
  with assms make_h3_of [of hf w] show ?thesis by simp
qed

lemma drive_connect_of:
  assumes "good (fst w)" "drive_connect (wrap_conn connect2 poll2 ops) rs w = (r, rs', sp, w')"
  shows "drive_connect ops (inner_sender conn_of fut_of rs) (snd w) =
    (r, inner_sender conn_of fut_of rs', sp, snd w') \<and> good (fst w')"
proof -
  let ?f = "case rs_make_send_request_fut rs of None \<Rightarrow> MF_start (rs_conn rs) | Some f \<Rightarrow> f"
  obtain x f' sp1 w1 where m: "make_poll (wrap_conn connect2 poll2 ops) ?f w = (x, f', sp1, w1)"
    by (metis prod.exhaust)
  note q = make_poll_of [OF assms(1) m]
  have "map_make_fut conn_of fut_of id ?f =
      (case rs_make_send_request_fut (inner_sender conn_of fut_of rs) of
         None \<Rightarrow> MF_start (rs_conn (inner_sender conn_of fut_of rs)) | Some f \<Rightarrow> f)"
    by (auto split: option.splits)
  with m q assms(2) show ?thesis
    by (auto simp: drive_connect_def Let_def inner_sender_updates split: poll.splits sum.splits prod.splits)
qed

lemma retire_of:
  "retire_connection rs cs = (rs', cs') \<Longrightarrow>
   retire_connection (inner_sender conn_of fut_of rs) (inner_cells cs) =
     (inner_sender conn_of fut_of rs', inner_cells cs') \<and> fst (net cs') = fst (net cs)"
  by (auto simp: retire_connection_def inner_cells_ops inner_sender_updates split: prod.splits)
    (auto simp: new_cell_def)

lemma check_driver_of:
  assumes "check_driver (wrap_conn connect2 poll2 ops) rs cs = (rs', cs')"
  shows "check_driver ops (inner_sender conn_of fut_of rs) (inner_cells cs) =
     (inner_sender conn_of fut_of rs', inner_cells cs') \<and> fst (net cs') = fst (net cs)"
proof (cases "rs_driver_rx rs")
  case None
  with assms show ?thesis by (simp add: check_driver_def)
next
  case (Some rx)
  obtain x rx' w where t: "co_try_recv ops rx (snd (net cs)) = (x, rx', w)" by (metis prod_cases3)
  let ?cs = "cs\<lparr>net := (fst (net cs), w)\<rparr>"
  have i: "inner_cells ?cs = (inner_cells cs)\<lparr>net := w\<rparr>" by (simp add: inner_cells_ops)
  show ?thesis
  proof (cases "x = Recv_empty")
    case True
    with assms Some t i show ?thesis by (auto simp: check_driver_def wrap_conn_def under_def inner_sender_updates)
  next
    case False
    with assms Some t have "retire_connection rs ?cs = (rs', cs')"
      by (auto simp: check_driver_def wrap_conn_def under_def split: try_recv.splits)
    from retire_of [OF this] Some t i False show ?thesis by (auto simp: check_driver_def split: try_recv.splits)
  qed
qed

lemma check_closing_of:
  "check_closing rs cs = (rs', cs') \<Longrightarrow>
   check_closing (inner_sender conn_of fut_of rs) (inner_cells cs) =
     (inner_sender conn_of fut_of rs', inner_cells cs') \<and> fst (net cs') = fst (net cs)"
  using retire_of [of rs cs rs' cs'] by (auto simp: check_closing_def split: if_splits)

text \<open>\<open>RequestSender\<close> does not notice the wrapper.\<close>

lemma poll_ready_of:
  assumes "good (fst (net cs))" "poll_ready (wrap_conn connect2 poll2 ops) rs cs = (out, rs', cs', sp)"
  shows "poll_ready ops (inner_sender conn_of fut_of rs) (inner_cells cs) =
     (out, inner_sender conn_of fut_of rs', inner_cells cs', sp) \<and> good (fst (net cs'))"
proof -
  let ?o = "wrap_conn connect2 poll2 ops"
  obtain rs1 cs1 where d: "check_driver ?o rs cs = (rs1, cs1)" by fastforce
  obtain rs2 cs2 where c: "check_closing rs1 cs1 = (rs2, cs2)" by fastforce
  note d' = check_driver_of [OF d] and c' = check_closing_of [OF c]
  have g: "good (fst (net cs2))" using assms(1) d' c' by simp
  show ?thesis
  proof (cases "rs_connect_error rs2 = None \<and> rs_send_request rs2 = None")
    case True
    obtain r rs3 sp3 w3 where dc: "drive_connect ?o rs2 (net cs2) = (r, rs3, sp3, w3)" by (metis prod.exhaust)
    with True assms(2) d c have "out = Return r" "rs' = rs3" "sp = sp3" "cs' = cs2\<lparr>net := w3\<rparr>"
      by (simp_all add: poll_ready_def)
    with drive_connect_of [OF g dc] True d' c' show ?thesis by (simp add: poll_ready_def inner_cells_ops)
  next
    case False
    with assms(2) d c d' c' g show ?thesis by (auto simp: poll_ready_def split: if_splits)
  qed
qed

lemma call_of:
  assumes "call build_uri req rs = (fut, rs')"
  shows "call build_uri req (inner_sender conn_of fut_of rs) = (fut, inner_sender conn_of fut_of rs')"
  using assms by (auto simp: call_def Let_def inner_sender_updates split: option.splits sum.splits)

end

section \<open>\<open>H3Client\<close> over a wrapper\<close>

definition inner_client ::
  "('conn2 \<Rightarrow> 'conn) \<Rightarrow> ('cf2 \<Rightarrow> 'cf) \<Rightarrow> ('conn2, 'cf2, 'hf, 'sr, 'rx, 'ex, 'se, 'x, 'e \<times> 'w) h3_client \<Rightarrow>
   ('conn, 'cf, 'hf, 'sr, 'rx, 'ex, 'se, 'x, 'w) h3_client" where
  "inner_client conn_of fut_of cl =
     (case hc_inner (hl_channel cl) of
        (rs, cs) \<Rightarrow> H3Client_new \<lparr>hc_inner = (inner_sender conn_of fut_of rs, inner_cells cs)\<rparr>)"

definition wrapper_value :: "('conn2, 'cf2, 'hf, 'sr, 'rx, 'ex, 'se, 'x, 'e \<times> 'w) h3_client \<Rightarrow> 'e" where
  "wrapper_value cl = fst (net (snd (hc_inner (hl_channel cl))))"

lemma client_parts: "cl = H3Client_new \<lparr>hc_inner = (fst (hc_inner (hl_channel cl)), snd (hc_inner (hl_channel cl)))\<rparr>"
  by (simp add: H3Client_new_def)

lemma inner_client_new [simp]:
  "inner_client c f (H3Client_new \<lparr>hc_inner = (rs, cs)\<rparr>) = H3Client_new \<lparr>hc_inner = (inner_sender c f rs, inner_cells cs)\<rparr>"
  "wrapper_value (H3Client_new \<lparr>hc_inner = (rs, cs)\<rparr>) = fst (net cs)"
  by (simp_all add: inner_client_def wrapper_value_def H3Client_new_def)

lemma client_new_update [simp]:
  "H3Client_new a\<lparr>hl_channel := b\<rparr> = H3Client_new b" "hl_channel (H3Client_new a) = a"
  by (simp_all add: H3Client_new_def)

lemma connection_update [simp]: "(c :: 's H3Connection)\<lparr>hc_inner := s\<rparr> = \<lparr>hc_inner = s\<rparr>"
  by simp

lemma wrap_send_await:
  assumes "send_await (wrap_request rops) f (H3Client_new \<lparr>hc_inner = (rs, cs)\<rparr>) = Some (res, fut, cl', eff)"
  shows "send_await rops f (H3Client_new \<lparr>hc_inner = (inner_sender c g rs, inner_cells cs)\<rparr>) =
      Some (res, fut, inner_client c g cl', eff) \<and> wrapper_value cl' = fst (net cs)"
proof (cases f)
  case (Call_error e)
  with assms show ?thesis by auto
next
  case (Call_send q)
  with assms obtain q' cs' where p: "request_poll (wrap_request rops) q cs = Some (res, q', cs', eff)"
    and r: "fut = HS_called (Call_send q')" "cl' = H3Client_new \<lparr>hc_inner = (rs, cs')\<rparr>"
    by (auto split: option.splits)
  from wrap_request_poll [OF p] r Call_send show ?thesis by simp
qed

context connector_wrapper
begin

lemma send_poll_of:
  assumes good: "good (wrapper_value cl)"
    and p: "send_poll (wrap_conn connect2 poll2 ops) (wrap_request rops) build_uri fut cl = Return (Some (res, fut', cl', eff))"
  shows "send_poll ops rops build_uri fut (inner_client conn_of fut_of cl) =
      Return (Some (res, fut', inner_client conn_of fut_of cl', eff)) \<and> good (wrapper_value cl')"
proof -
  obtain rs cs where cl: "cl = H3Client_new \<lparr>hc_inner = (rs, cs)\<rparr>" using client_parts by blast
  show ?thesis
  proof (cases fut)
    case (HS_called f)
    with p cl have "send_await (wrap_request rops) f (H3Client_new \<lparr>hc_inner = (rs, cs)\<rparr>) = Some (res, fut', cl', eff)"
      by simp
    from wrap_send_await [OF this, of conn_of fut_of] HS_called cl good show ?thesis by simp
  next
    case (HS_waiting req)
    obtain out rs1 cs1 sp where q: "poll_ready (wrap_conn connect2 poll2 ops) rs cs = (out, rs1, cs1, sp)"
      by (metis prod.exhaust)
    from good cl have "good (fst (net cs))" by simp
    from poll_ready_of [OF this q] have i: "poll_ready ops (inner_sender conn_of fut_of rs) (inner_cells cs) =
        (out, inner_sender conn_of fut_of rs1, inner_cells cs1, sp)" "good (fst (net cs1))" by simp_all
    note defs = connection_poll_ready_def sender_poll_def connection_call_def sender_call_def
    show ?thesis
    proof (cases "out = Return (Ready (Ok ()))")
      case True
      obtain f rs2 where c: "call build_uri req rs1 = (f, rs2)"
        and a: "send_await (wrap_request rops) f (H3Client_new \<lparr>hc_inner = (rs2, cs1)\<rparr>) = Some (res, fut', cl', eff)"
        using p HS_waiting cl q True by (auto simp: defs split: prod.splits)
      from wrap_send_await [OF a, of conn_of fut_of] call_of [OF c] i HS_waiting cl True show ?thesis by (simp add: defs)
    next
      case False
      with p HS_waiting cl q i show ?thesis
        by (auto simp: defs split: outcome.splits poll.splits sum.splits)
    qed
  qed
qed

end

section \<open>\<open>CountConnect\<close>\<close>

text \<open>The counter is shared by the clones of the connector and the test: it is the wrapper's value.\<close>

record 'conn CountConnect =
  cc_inner :: 'conn

definition CountConnect_new :: "'conn \<Rightarrow> 'w \<Rightarrow> 'conn CountConnect \<times> (64 word \<times> 'w)" where
  "CountConnect_new inner w = (\<lparr>cc_inner = inner\<rparr>, 0, w)"

text \<open>The future of \<open>connect\<close>: not polled yet, or past the increment.\<close>

datatype ('conn, 'cf) count_fut = CC_start 'conn | CC_inner 'cf

definition count_connect :: "'conn CountConnect \<Rightarrow> ('conn, 'cf) count_fut" where
  "count_connect self = CC_start (cc_inner self)"

definition count_inner where
  "count_inner ops cf w = (case co_poll_connect ops cf (snd w) of (r, cf', w') \<Rightarrow> (r, CC_inner cf', fst w, w'))"

fun count_poll ::
  "('conn, 'cf, 'qc, 'hf, 'drv, 'sr, 'tx, 'rx, 'se, 'x, 'w) conn_ops \<Rightarrow> ('conn, 'cf) count_fut \<Rightarrow> 64 word \<times> 'w \<Rightarrow>
   (('se, 'x) error + 'qc) poll \<times> ('conn, 'cf) count_fut \<times> 64 word \<times> 'w" where
  "count_poll ops (CC_start inner) w = count_inner ops (co_connect ops inner) (fst w + 1, snd w)"
| "count_poll ops (CC_inner cf) w = count_inner ops cf w"

definition count_ops where
  "count_ops ops = wrap_conn count_connect (count_poll ops) ops"

fun count_fut_of where
  "count_fut_of ops (CC_start inner) = co_connect ops inner"
| "count_fut_of ops (CC_inner cf) = cf"

interpretation cc: connector_wrapper count_connect "count_poll ops" ops cc_inner "count_fut_of ops" "\<lambda>_. True"
  for ops :: "('conn, 'cf, 'qc, 'hf, 'drv, 'sr, 'tx, 'rx, 'se, 'x, 'w) conn_ops"
proof (unfold_locales, goal_cases)
  case (1 c)
  then show ?case by (simp add: count_connect_def)
next
  case (2 w cf r cf' w')
  then show ?case by (cases cf) (auto simp: count_inner_def split: prod.splits)
qed

section \<open>\<open>FailOnce\<close>\<close>

record 'conn FailOnce =
  fo_inner :: 'conn

definition FailOnce_new :: "'conn \<Rightarrow> 'w \<Rightarrow> 'conn FailOnce \<times> (bool \<times> 'w)" where
  "FailOnce_new inner w = (\<lparr>fo_inner = inner\<rparr>, False, w)"

datatype ('conn, 'cf) fail_fut = FO_start 'conn | FO_inner 'cf

definition fail_connect :: "'conn FailOnce \<Rightarrow> ('conn, 'cf) fail_fut" where
  "fail_connect self = FO_start (fo_inner self)"

definition fail_inner where
  "fail_inner ops cf w = (case co_poll_connect ops cf (snd w) of (r, cf', w') \<Rightarrow> (r, FO_inner cf', fst w, w'))"

definition transient_failure :: "('se, 'x) error" where
  "transient_failure = Msg ''simulated transient connect failure''"

fun fail_poll ::
  "('conn, 'cf, 'qc, 'hf, 'drv, 'sr, 'tx, 'rx, 'se, 'x, 'w) conn_ops \<Rightarrow> ('conn, 'cf) fail_fut \<Rightarrow> bool \<times> 'w \<Rightarrow>
   (('se, 'x) error + 'qc) poll \<times> ('conn, 'cf) fail_fut \<times> bool \<times> 'w" where
  "fail_poll ops (FO_start inner) w =
     (if \<not> fst w then (Ready (Err transient_failure), FO_start inner, True, snd w)
      else fail_inner ops (co_connect ops inner) (True, snd w))"
| "fail_poll ops (FO_inner cf) w = fail_inner ops cf w"

definition fail_ops where
  "fail_ops ops = wrap_conn fail_connect (fail_poll ops) ops"

fun fail_fut_of where
  "fail_fut_of ops (FO_start inner) = co_connect ops inner"
| "fail_fut_of ops (FO_inner cf) = cf"

interpretation fo: connector_wrapper fail_connect "fail_poll ops" ops fo_inner "fail_fut_of ops" "\<lambda>failed. failed"
  for ops :: "('conn, 'cf, 'qc, 'hf, 'drv, 'sr, 'tx, 'rx, 'se, 'x, 'w) conn_ops"
proof (unfold_locales, goal_cases)
  case (1 c)
  then show ?case by (simp add: fail_connect_def)
next
  case (2 w cf r cf' w')
  then show ?case by (cases cf) (auto simp: fail_inner_def split: prod.splits)
qed

section \<open>Counting the attempts\<close>

text \<open>An attempt that has been polled is past its increment.\<close>

fun started :: "('c, ('conn, 'cf) count_fut, 'hf) make_fut \<Rightarrow> bool" where
  "started (MF_start _) = False"
| "started (MF_connecting (CC_start _)) = False"
| "started (MF_connecting (CC_inner _)) = True"
| "started (MF_h3 _) = True"

lemma count_make_h3:
  assumes "make_h3 (count_ops ops) hf w = (r, f', sp, w')"
  shows "fst w' = fst w \<and> started f'"
  using assms by (auto simp: make_h3_def count_ops_def wrap_conn_def under_def under_new_def
      split: prod.splits poll.splits sum.splits)

lemma count_make_inner:
  assumes "make_connecting (count_ops ops) (CC_inner cf) w = (r, f', sp, w')"
  shows "fst w' = fst w \<and> started f'"
proof -
  obtain x cf1 w1 where p: "co_poll_connect ops cf (snd w) = (x, cf1, w1)" by (metis prod_cases3)
  then have q: "co_poll_connect (count_ops ops) (CC_inner cf) w = (x, CC_inner cf1, fst w, w1)"
    by (simp add: count_ops_def wrap_conn_def count_inner_def)
  show ?thesis
  proof (cases "\<exists>qc. x = Ready (Ok qc)")
    case True
    with assms q count_make_h3 show ?thesis unfolding make_connecting_def by fastforce
  next
    case False
    with assms q show ?thesis by (auto simp: make_connecting_def split: poll.splits sum.splits)
  qed
qed

lemma count_make_start:
  "make_connecting (count_ops ops) (CC_start c) w =
   make_connecting (count_ops ops) (CC_inner (co_connect ops c)) (fst w + 1, snd w)"
  by (simp add: make_connecting_def count_ops_def wrap_conn_def)

lemma count_make_poll:
  assumes "make_poll (count_ops ops) f w = (r, f', sp, w')"
  shows "fst w' = fst w + (if started f then 0 else 1) \<and> started f'"
proof (cases f rule: started.cases)
  case (1 c)
  have "co_connect (count_ops ops) c = CC_start (cc_inner c)"
    by (simp add: count_ops_def wrap_conn_def count_connect_def)
  with 1 assms have "make_connecting (count_ops ops) (CC_start (cc_inner c)) w = (r, f', sp, w')" by simp
  from count_make_inner [OF this [unfolded count_make_start]] 1 show ?thesis by simp
next
  case (2 c)
  with assms have "make_connecting (count_ops ops) (CC_start c) w = (r, f', sp, w')" by simp
  from count_make_inner [OF this [unfolded count_make_start]] 2 show ?thesis by simp
next
  case (3 cf)
  with assms count_make_inner [of ops cf w r f' sp w'] show ?thesis by simp
next
  case (4 hf)
  with assms count_make_h3 [of ops hf w r f' sp w'] show ?thesis by simp
qed

lemma count_spec_connect:
  assumes "spec_connect (count_ops ops) f w = (r, st, sp, w')"
  shows "fst w' = fst w + (if started f then 0 else 1)"
proof -
  obtain x f' sp1 w1 where m: "make_poll (count_ops ops) f w = (x, f', sp1, w1)" by (metis prod.exhaust)
  with assms have "w1 = w'" by (auto simp: spec_connect_def split: poll.splits sum.splits)
  with count_make_poll [OF m] show ?thesis by simp
qed

text \<open>
  When a poll begins an attempt: the machine is idle, or connected to a connection whose driver has
  ended or whose flag is up.
\<close>

fun attempts :: "try_recv \<Rightarrow> bool \<Rightarrow> ('conn, ('c, 'cf) count_fut, 'hf, 'sr, 'rx, 'se, 'x) conn_state \<Rightarrow> bool" where
  "attempts x closing Idle = True"
| "attempts x closing (Connecting f) = (\<not> started f)"
| "attempts x closing (Connected sr rx) = (closing \<or> x \<noteq> Recv_empty)"
| "attempts x closing (Failed e) = False"

definition driver_state where
  "driver_state ops rs w = (case rs_driver_rx rs of None \<Rightarrow> Recv_empty | Some rx \<Rightarrow> fst (co_try_recv ops rx w))"

lemma count_try_recv: "co_try_recv (count_ops ops) rx w = (x, rx', w') \<Longrightarrow> fst w' = fst w"
  by (auto simp: count_ops_def wrap_conn_def under_def split: prod.splits)

lemma count_poll_ready:
  assumes ok: "sender_ok rs cs" and p: "poll_ready (count_ops ops) rs cs = (out, rs', cs', sp)"
  shows "fst (net cs') = fst (net cs) +
    (if attempts (driver_state (count_ops ops) rs (net cs)) (load_cell (rs_closing rs) cs) (abs_sender rs) then 1 else 0)"
proof -
  obtain r where r: "spec_poll (count_ops ops) (rs_conn rs) (load_cell (rs_closing rs) cs) (abs_sender rs) (net cs) =
      (r, abs_sender rs', sp, net cs')"
    using poll_ready_refines [OF ok p] by blast
  show ?thesis
  proof (cases "abs_sender rs")
    case (Connected sr rx)
    then have rx: "rs_driver_rx rs = Some rx" unfolding abs_sender_def by (elim abs_fields.elims) auto
    obtain x rx' w where t: "co_try_recv (count_ops ops) rx (net cs) = (x, rx', w)" by (metis prod_cases3)
    with r Connected rx count_try_recv [OF t] show ?thesis
      by (auto simp: driver_state_def split: try_recv.splits if_splits dest!: count_spec_connect)
  next
    case (Failed e)
    with r have "net cs' = net cs" by simp
    with Failed show ?thesis by simp
  qed (use r in \<open>auto dest!: count_spec_connect\<close>)
qed

lemma wrap_sys_request:
  assumes "sys_request (wrap_request rops) i s = Some (res, s', eff)"
  shows "fst (net (sys_cells s')) = fst (net (sys_cells s)) \<and> sys_sender s' = sys_sender s"
proof -
  obtain fut cs' where r: "request_poll (wrap_request rops) (sys_inflight s ! i) (sys_cells s) = Some (res, fut, cs', eff)"
    and s': "s' = s\<lparr>sys_cells := cs', sys_inflight := (sys_inflight s)[i := fut]\<rparr>"
    using assms by (auto simp: sys_request_def split: option.splits)
  from wrap_request_poll [OF r] s' show ?thesis by simp
qed

text \<open>
  The number of connection attempts tells a lost connection from a lost stream. Let a request on the
  current connection, in any reachable state of a client over \<open>CountConnect\<close>, be told an error by the
  peer while the driver of the connection keeps running. The \<open>poll_ready\<close> of the next request makes
  exactly one new attempt if the error is a GOAWAY or an error of the connection, and none if it is an
  error of the stream; in the latter case it is ready at once with the same connection.
\<close>

theorem connect_count_after_error:
  assumes "reach client_init (client_step (count_ops cops) (wrap_request rops) build_uri) s"
    and "i < length (sys_inflight s)" "request_flag (sys_inflight s ! i) = Some (rs_closing (sys_sender s))"
    and "\<not> load_cell (rs_closing (sys_sender s)) (sys_cells s)"
    and "peer_error (wrap_request rops) (sys_inflight s ! i) (net (sys_cells s)) e"
    and "display_ok (so_to_string rops) kind"
    and "sys_request (wrap_request rops) i s = Some (res, s', eff)"
    and "driver_state (count_ops cops) (sys_sender s') (net (sys_cells s')) = Recv_empty"
    and "sys_poll_ready (count_ops cops) s' = (out, s'', sp)"
  shows "res = Ready (Err (StreamErr e)) \<and>
    (if kind e = K_remote_closing \<or> kind e = K_connection_error
     then fst (net (sys_cells s'')) = fst (net (sys_cells s)) + 1
     else fst (net (sys_cells s'')) = fst (net (sys_cells s)) \<and> out = Return (Ready (Ok ())) \<and>
       rs_send_request (sys_sender s'') = rs_send_request (sys_sender s))"
proof -
  let ?a = "rs_closing (sys_sender s)"
  have inv: "client_inv s" by (rule cl.reach_inv [OF assms(1)])
  then have ok: "sender_ok (sys_sender s) (sys_cells s)" and sr: "rs_send_request (sys_sender s) \<noteq> None"
    using nth_mem [OF assms(2)] assms(3) by (auto simp: client_inv_def flags_ok_def)
  obtain sr rx where abs: "abs_sender (sys_sender s) = Connected sr rx"
    and f: "rs_driver_rx (sys_sender s) = Some rx" "rs_send_request (sys_sender s) = Some sr"
      "rs_connect_error (sys_sender s) = None"
    using ok sr by (auto simp: sender_ok_def abs_sender_def)
  note w = wrap_sys_request [OF assms(7)]
  have inv': "client_inv s'" by (rule client_inv_request [OF inv assms(2,7)])
  then have ok': "sender_ok (sys_sender s') (sys_cells s')" by (simp add: client_inv_def)
  from request_poll_peer_error [OF assms(5,3)] assms(7) obtain w1 where
    res: "res = Ready (Err (StreamErr e))" and
    cs: "sys_cells s' = note_error (so_to_string rops) e ?a ((sys_cells s)\<lparr>net := w1\<rparr>)"
    by (auto simp: sys_request_def)
  obtain rs2 cs2 where p: "poll_ready (count_ops cops) (sys_sender s') (sys_cells s') = (out, rs2, cs2, sp)"
    and s'': "sys_sender s'' = rs2" "sys_cells s'' = cs2"
    using assms(9) by (auto simp: sys_poll_ready_def split: prod.splits)
  have up: "load_cell ?a (sys_cells s') \<longleftrightarrow> kind e = K_remote_closing \<or> kind e = K_connection_error"
    using cs assms(4,6) display_prefix_connection [of "kind e" "so_to_string rops e"]
    by (simp add: note_error_def is_connection_closing_def display_ok_def)
  have n: "fst (net cs2) = fst (net (sys_cells s)) + (if load_cell ?a (sys_cells s') then 1 else 0)"
    using count_poll_ready [OF ok' p] w abs assms(8) by simp
  have "out = Return (Ready (Ok ())) \<and> rs_send_request rs2 = Some sr" if "\<not> load_cell ?a (sys_cells s')"
    using p that w f assms(8) ok'
    by (auto simp: poll_ready_def check_driver_def check_closing_def driver_state_def sender_ok_def
        split: prod.splits try_recv.splits if_splits)
  with res n up s'' f show ?thesis by auto
qed

text \<open>A client over a counting connector, with one request on its connection.\<close>

definition sample_count_start ::
  "nat \<Rightarrow> (nat CountConnect, (nat, nat) count_fut, nat, nat, bool, unit, stream_error_kind, nat, unit, nat, unit, unit,
    64 word \<times> nat) client_sys" where
  "sample_count_start n = (case CountConnect_new n 0 of (cc, w) \<Rightarrow> sys_new cc sample_uri () w)"

definition sample_count_polled where
  "sample_count_polled n = fst (snd (sys_poll_ready (count_ops sample_conn_ops) (sample_count_start n)))"

definition sample_count_called where
  "sample_count_called n = snd (sys_call sample_build sample_req (sample_count_polled n))"

lemmas sample_count_defs = sample_count_start_def sample_count_polled_def sample_count_called_def count_ops_def under_defs
  count_connect_def count_inner_def CountConnect_new_def sample_defs

lemma sample_count_reach:
  "reach client_init (client_step (count_ops sample_conn_ops) (wrap_request sample_request_ops) sample_build)
     (sample_count_called n)"
proof (rule reach_step, rule reach_step, rule reach_init)
  show "client_init (sample_count_start n)"
    by (auto simp: sample_count_start_def client_init_def split: prod.splits)
  show "client_step (count_ops sample_conn_ops) (wrap_request sample_request_ops) sample_build
      (sample_count_start n) (sample_count_polled n)"
    by (rule cs_poll) (simp add: sample_count_polled_def prod_eq_iff)
  have "sys_ready (sample_count_polled n)" by (simp add: sample_count_defs)
  then show "client_step (count_ops sample_conn_ops) (wrap_request sample_request_ops) sample_build
      (sample_count_polled n) (sample_count_called n)"
    by (rule cs_call) (simp add: sample_count_called_def prod_eq_iff)
qed

theorem connect_count_after_error_witness:
  "\<exists>s' s'' out sp eff. sys_request (wrap_request sample_request_ops) 0 (sample_count_called 1) =
      Some (Ready (Err (StreamErr K_remote_closing)), s', eff) \<and>
    sys_poll_ready (count_ops sample_conn_ops) s' = (out, s'', sp) \<and>
    fst (net (sys_cells (sample_count_called 1))) = 1 \<and> fst (net (sys_cells s'')) = 2"
proof -
  let ?s = "sample_count_called 1"
  obtain s' eff where r: "sys_request (wrap_request sample_request_ops) 0 ?s =
      Some (Ready (Err (StreamErr K_remote_closing)), s', eff)"
    by (simp add: sample_count_defs)
  obtain out s'' sp where p: "sys_poll_ready (count_ops sample_conn_ops) s' = (out, s'', sp)" by (metis prod_cases3)
  have c: "0 < length (sys_inflight ?s)" "request_flag (sys_inflight ?s ! 0) = Some (rs_closing (sys_sender ?s))"
    "\<not> load_cell (rs_closing (sys_sender ?s)) (sys_cells ?s)"
    "peer_error (wrap_request sample_request_ops) (sys_inflight ?s ! 0) (net (sys_cells ?s)) K_remote_closing"
    "display_ok (so_to_string sample_request_ops) (\<lambda>k. k)" "fst (net (sys_cells ?s)) = 1"
    by (simp_all add: sample_count_defs display_ok_def)
  have d: "driver_state (count_ops sample_conn_ops) (sys_sender s') (net (sys_cells s')) = Recv_empty"
    using r by (auto simp: driver_state_def sample_count_defs note_error_def)
  from connect_count_after_error [OF sample_count_reach c(1-5) r d p] r p c(6) show ?thesis by auto
qed

section \<open>A transient failure\<close>

text \<open>
  A transient connect failure costs one request and nothing else. A client over \<open>FailOnce\<close> fails its
  first \<open>send\<close> at once with the injected error. What is left is a fresh client of the real connector,
  and from then on every poll of every \<open>send\<close> is, in its result and its effects, the poll of that
  client: the failure has left no trace in the request sender.
\<close>

theorem fail_once_transient:
  fixes cops :: "('conn, 'cf, 'qc, 'hf, 'drv, 'sr, 'dtx, 'rx, 'se, 'x, 'w) conn_ops"
  assumes "FailOnce_new conn w = (fo, w2)"
    and "cl = H3Client_new (H3Connection_new tokio fo u ex (empty_cells w2))"
  shows "\<exists>cl1. send_poll (fail_ops cops) (wrap_request rops) build_uri (HS_waiting req) cl =
      Return (Some (Ready (Err transient_failure), HS_called (Call_error transient_failure), cl1, [])) \<and>
    wrapper_value cl1 \<and>
    inner_client fo_inner (fail_fut_of cops) cl1 = H3Client_new (H3Connection_new tokio conn u ex (empty_cells w)) \<and>
    (\<forall>fut cl2 res fut' cl3 eff. wrapper_value cl2 \<and>
       send_poll (fail_ops cops) (wrap_request rops) build_uri fut cl2 = Return (Some (res, fut', cl3, eff)) \<longrightarrow>
       wrapper_value cl3 \<and>
       send_poll cops rops build_uri fut (inner_client fo_inner (fail_fut_of cops) cl2) =
         Return (Some (res, fut', inner_client fo_inner (fail_fut_of cops) cl3, eff)))"
proof -
  have w: "w2 = (False, w)" "fo = \<lparr>fo_inner = conn\<rparr>" using assms(1) by (simp_all add: FailOnce_new_def)
  let ?ex = "case ex of None \<Rightarrow> tokio | Some e \<Rightarrow> e"
  obtain rs cs where rs: "RequestSender_new fo u ?ex (empty_cells w2) =
      (rs :: ('conn FailOnce, ('conn, 'cf) fail_fut, 'hf, 'sr, 'rx, 'a SharedExec, 'se, 'x) RequestSender, cs)" by fastforce
  let ?rs = "rs\<lparr>rs_make_send_request_fut := None, rs_connect_error := Some transient_failure\<rparr>"
  let ?cs = "cs\<lparr>net := (True, w)\<rparr>"
  have cl: "cl = H3Client_new \<lparr>hc_inner = (rs, cs)\<rparr>" using assms(2) rs by (simp add: H3Connection_new_def Let_def)
  note new = rs [unfolded RequestSender_new_def new_cell_def empty_cells_def w, simplified]
  have "poll_ready (fail_ops cops) rs cs = (Return (Ready (Ok ())), ?rs, ?cs, [])"
    using new by (auto simp: poll_ready_def check_driver_def check_closing_def load_cell_def drive_connect_def
        make_connecting_def fail_ops_def wrap_conn_def fail_connect_def)
  then have s: "send_poll (fail_ops cops) (wrap_request rops) build_uri (HS_waiting req) cl =
      Return (Some (Ready (Err transient_failure), HS_called (Call_error transient_failure),
        H3Client_new \<lparr>hc_inner = (?rs\<lparr>rs_connect_error := None\<rparr>, ?cs)\<rparr>, []))"
    by (simp add: cl connection_poll_ready_def sender_poll_def connection_call_def sender_call_def call_def)
  have i: "inner_client fo_inner (fail_fut_of cops) (H3Client_new \<lparr>hc_inner = (?rs\<lparr>rs_connect_error := None\<rparr>, ?cs)\<rparr>) =
      H3Client_new (H3Connection_new tokio conn u ex (empty_cells w))"
    using new by (auto simp: inner_sender_def inner_cells_def H3Connection_new_def Let_def RequestSender_new_def
        new_cell_def empty_cells_def)
  show ?thesis
  proof (intro exI conjI allI impI, rule s, goal_cases)
    case 1
    show ?case by simp
  next
    case 2
    show ?case by (rule i)
  next
    case (3 fut cl2 res fut' cl3 eff)
    then show ?case by (auto simp: fail_ops_def dest: fo.send_poll_of)
  next
    case (4 fut cl2 res fut' cl3 eff)
    then show ?case by (auto simp: fail_ops_def dest: fo.send_poll_of)
  qed
qed

definition sample_fail_client ::
  "(nat FailOnce, (nat, nat) fail_fut, nat, nat, bool, unit SharedExec, stream_error_kind, nat, bool \<times> nat) h3_client" where
  "sample_fail_client = (case FailOnce_new 5 0 of
     (fo, w) \<Rightarrow> H3Client_new (H3Connection_new (SharedExec_tokio ()) fo sample_uri None (empty_cells w)))"

theorem fail_once_transient_witness:
  "\<exists>cl1. send_poll (fail_ops sample_conn_ops) (wrap_request sample_request_ops) sample_build (HS_waiting sample_req)
        sample_fail_client =
      Return (Some (Ready (Err transient_failure), HS_called (Call_error transient_failure), cl1, [])) \<and>
    inner_client fo_inner (fail_fut_of sample_conn_ops) cl1 = sample_client_life 5"
proof -
  obtain fo w where n: "FailOnce_new 5 0 = (fo :: nat FailOnce, w :: bool \<times> nat)"
    by (simp add: FailOnce_new_def)
  then have c: "sample_fail_client = H3Client_new (H3Connection_new (SharedExec_tokio ()) fo sample_uri None (empty_cells w))"
    by (simp add: sample_fail_client_def)
  from fail_once_transient [OF n c, of sample_conn_ops sample_request_ops sample_build sample_req]
  show ?thesis unfolding sample_client_life_def by blast
qed

end
