(* ===== verification/Awaiting.thy ===== *)
theory Awaiting
  imports Connectors
begin

text \<open>
  \<open>client.send(req).await\<close> of \<open>h3-util/src/client.rs\<close> as its callers see it: the polls of one send from
  its start to its result, with the network changing between them, and sequences of sends on one client.
  A locale states what a property of whole sends has to be checked against; its interpretations
  say what the client does over a base URI that lacks a part, over a connector that is always refused, and
  over libraries that never fail.
\<close>

section \<open>Awaiting a send\<close>

abbreviation client_of ::
  "('conn, 'cf, 'hf, 'sr, 'rx, 'ex, 'se, 'x) RequestSender \<Rightarrow> 'w cell_store \<Rightarrow>
   ('conn, 'cf, 'hf, 'sr, 'rx, 'ex, 'se, 'x, 'w) h3_client" where
  "client_of rs cs \<equiv> H3Client_new \<lparr>hc_inner = (rs, cs)\<rparr>"

lemma client_of_inject [simp]: "client_of rs cs = client_of rs' cs' \<longleftrightarrow> rs = rs' \<and> cs = cs'"
  by (simp add: H3Client_new_def)

text \<open>
  What may happen between two polls: the network and the peers move, as far as \<open>moves\<close> allows, and
  the driver task may end, if \<open>drv\<close> allows.
\<close>

inductive client_env ::
  "bool \<Rightarrow> ('w \<Rightarrow> 'w \<Rightarrow> bool) \<Rightarrow> ('conn, 'cf, 'hf, 'sr, 'rx, 'ex, 'se, 'x, 'w) h3_client \<Rightarrow>
   ('conn, 'cf, 'hf, 'sr, 'rx, 'ex, 'se, 'x, 'w) h3_client \<Rightarrow> bool"
  for drv moves where
  env_net: "moves (net cs) w \<Longrightarrow> client_env drv moves (client_of rs cs) (client_of rs (cs\<lparr>net := w\<rparr>))"
| env_driver: "drv \<Longrightarrow> rs_driver_rx rs = Some rx \<Longrightarrow>
    client_env drv moves (client_of rs cs) (client_of (rs\<lparr>rs_driver_rx := Some rx'\<rparr>) cs)"

inductive_cases client_envE: "client_env drv moves cl cl'"

text \<open>
  A send that is polled until it is ready, or dropped on the way, as by \<open>tokio::time::timeout\<close>, which is
  the result \<open>None\<close>.
\<close>

inductive awaits ::
  "bool \<Rightarrow> ('w \<Rightarrow> 'w \<Rightarrow> bool) \<Rightarrow> ('conn, 'cf, 'qc, 'hf, 'drv, 'sr, 'dtx, 'rx, 'se, 'x, 'w) conn_ops \<Rightarrow>
   ('sr, uri \<times> 'm, 'st, 's, 'r, 'tx, 'c, 'resp, 'se, 'b, 'h, 'x, 'w) request_ops \<Rightarrow>
   (string \<Rightarrow> string \<Rightarrow> string \<Rightarrow> 'x + uri) \<Rightarrow>
   ('sr, 'r, 'tx, 'm, 'b, 'se, 'x) send_fut \<Rightarrow> ('conn, 'cf, 'hf, 'sr, 'rx, 'ex, 'se, 'x, 'w) h3_client \<Rightarrow>
   (('se, 'x) error + 'resp \<times> ('r, 'tx) H3IncomingClient) option \<Rightarrow>
   ('conn, 'cf, 'hf, 'sr, 'rx, 'ex, 'se, 'x, 'w) h3_client \<Rightarrow> bool"
  for drv moves cops rops build_uri where
  aw_ready: "send_poll cops rops build_uri fut cl = Return (Some (Ready r, fut', cl', eff)) \<Longrightarrow>
    awaits drv moves cops rops build_uri fut cl (Some r) cl'"
| aw_pending: "send_poll cops rops build_uri fut cl = Return (Some (Pending, fut', cl1, eff)) \<Longrightarrow>
    awaits drv moves cops rops build_uri fut' cl1 r cl' \<Longrightarrow> awaits drv moves cops rops build_uri fut cl r cl'"
| aw_env: "client_env drv moves cl cl1 \<Longrightarrow> awaits drv moves cops rops build_uri fut cl1 r cl' \<Longrightarrow>
    awaits drv moves cops rops build_uri fut cl r cl'"
| aw_drop: "awaits drv moves cops rops build_uri fut cl None cl"

text \<open>Sends one after the other on the same client, with their results.\<close>

inductive sends for drv moves cops rops build_uri where
  sends_none: "sends drv moves cops rops build_uri cl [] [] cl"
| sends_next: "sends drv moves cops rops build_uri cl reqs rs cl1 \<Longrightarrow>
    awaits drv moves cops rops build_uri (HS_waiting req) cl1 r cl2 \<Longrightarrow>
    sends drv moves cops rops build_uri cl (reqs @ [req]) (rs @ [r]) cl2"

section \<open>The contract of a send\<close>

text \<open>
  \<open>I\<close> is kept by a client between its sends, \<open>J f\<close> while it waits for the request future \<open>f\<close>, and \<open>Q r\<close> holds
  when a send has returned \<open>r\<close>. The laws concern one poll each.
\<close>

locale send_contract =
  fixes drv :: bool and moves :: "'w \<Rightarrow> 'w \<Rightarrow> bool"
    and cops :: "('conn, 'cf, 'qc, 'hf, 'drv, 'sr, 'dtx, 'rx, 'se, 'x, 'w) conn_ops"
    and rops :: "('sr, uri \<times> 'm, 'st, 's, 'r, 'tx, 'c, 'resp, 'se, 'b, 'h, 'x, 'w) request_ops"
    and build_uri :: "string \<Rightarrow> string \<Rightarrow> string \<Rightarrow> 'x + uri"
    and I :: "('conn, 'cf, 'hf, 'sr, 'rx, 'ex, 'se, 'x) RequestSender \<Rightarrow> 'w cell_store \<Rightarrow> bool"
    and J :: "('sr, uri \<times> 'm, 'r, 'tx, 'b) request_fut \<Rightarrow>
      ('conn, 'cf, 'hf, 'sr, 'rx, 'ex, 'se, 'x) RequestSender \<Rightarrow> 'w cell_store \<Rightarrow> bool"
    and Q :: "('se, 'x) error + 'resp \<times> ('r, 'tx) H3IncomingClient \<Rightarrow>
      ('conn, 'cf, 'hf, 'sr, 'rx, 'ex, 'se, 'x) RequestSender \<Rightarrow> 'w cell_store \<Rightarrow> bool"
  assumes I_ok: "I rs cs \<Longrightarrow> sender_ok rs cs"
    and poll_pending: "I rs cs \<Longrightarrow> poll_ready cops rs cs = (Return Pending, rs', cs', sp) \<Longrightarrow> I rs' cs'"
    and poll_error: "I rs cs \<Longrightarrow> poll_ready cops rs cs = (Return (Ready (Ok ())), rs1, cs1, sp) \<Longrightarrow>
      call build_uri req rs1 = (Call_error e :: ('sr, 'r, 'tx, 'm, 'b, 'se, 'x) call_fut, rs2) \<Longrightarrow> Q (Err e) rs2 cs1"
    and poll_send: "I rs cs \<Longrightarrow> poll_ready cops rs cs = (Return (Ready (Ok ())), rs1, cs1, sp) \<Longrightarrow>
      call build_uri req rs1 = (Call_send f, rs2) \<Longrightarrow> J f rs2 cs1"
    and request_pending: "J f rs cs \<Longrightarrow> request_poll rops f cs = Some (Pending, f', cs', eff) \<Longrightarrow> J f' rs cs'"
    and request_ready: "J f rs cs \<Longrightarrow> request_poll rops f cs = Some (Ready r, f', cs', eff) \<Longrightarrow> Q r rs cs'"
    and waiting_keeps: "J f rs cs \<Longrightarrow> I rs cs"
    and net_I: "I rs cs \<Longrightarrow> moves (net cs) w \<Longrightarrow> I rs (cs\<lparr>net := w\<rparr>)"
    and net_J: "J f rs cs \<Longrightarrow> moves (net cs) w \<Longrightarrow> J f rs (cs\<lparr>net := w\<rparr>)"
    and driver_I: "I rs cs \<Longrightarrow> drv \<Longrightarrow> rs_driver_rx rs = Some rx \<Longrightarrow> I (rs\<lparr>rs_driver_rx := Some rx'\<rparr>) cs"
    and driver_J: "J f rs cs \<Longrightarrow> drv \<Longrightarrow> rs_driver_rx rs = Some rx \<Longrightarrow> J f (rs\<lparr>rs_driver_rx := Some rx'\<rparr>) cs"
begin

text \<open>What holds at each suspension point of \<open>send\<close>, and of an error that only has to be delivered.\<close>

fun holds :: "('sr, 'r, 'tx, 'm, 'b, 'se, 'x) send_fut \<Rightarrow> ('conn, 'cf, 'hf, 'sr, 'rx, 'ex, 'se, 'x, 'w) h3_client \<Rightarrow> bool" where
  "holds (HS_waiting req) cl = (case hc_inner (hl_channel cl) of (rs, cs) \<Rightarrow> I rs cs)"
| "holds (HS_called (Call_error e)) cl = False"
| "holds (HS_called (Call_send f)) cl = (case hc_inner (hl_channel cl) of (rs, cs) \<Rightarrow> J f rs cs)"

lemma holds_env: "client_env drv moves cl cl' \<Longrightarrow> holds fut cl \<Longrightarrow> holds fut cl'"
  by (cases "(fut, cl)" rule: holds.cases)
    (auto elim!: client_envE intro: net_I net_J driver_I driver_J)

lemma holds_await:
  assumes "J f rs cs" "send_await rops (Call_send f) (client_of rs cs) = Some (res, fut', cl', eff)"
  shows "case res of Pending \<Rightarrow> holds fut' cl' | Ready r \<Rightarrow> \<exists>rs' cs'. cl' = client_of rs' cs' \<and> Q r rs' cs'"
  using assms by (auto split: option.splits poll.splits intro: request_pending request_ready)

lemma holds_poll:
  assumes h: "holds fut cl" and p: "send_poll cops rops build_uri fut cl = Return (Some (res, fut', cl', eff))"
  shows "case res of Pending \<Rightarrow> holds fut' cl' | Ready r \<Rightarrow> \<exists>rs' cs'. cl' = client_of rs' cs' \<and> Q r rs' cs'"
proof -
  obtain rs cs where cl: "cl = client_of rs cs" using client_parts by blast
  show ?thesis
  proof (cases "(fut, cl)" rule: holds.cases)
    case (1 req c)
    then have i: "I rs cs" using h cl by auto
    obtain out rs1 cs1 sp where q: "poll_ready cops rs cs = (out, rs1, cs1, sp)" by (metis prod_cases4)
    from sender_poll_spec [OF I_ok [OF i] q] obtain r where r: "out = Return r" "\<And>e. r \<noteq> Ready (Err e)" by blast
    show ?thesis
    proof (cases r)
      case Pending
      with p 1 cl q r poll_pending [OF i] show ?thesis
        by (auto simp: connection_poll_ready_def sender_poll_def)
    next
      case (Ready y)
      with r have y: "r = Ready (Ok ())" by (cases y) auto
      obtain f rs2 where c: "call build_uri req rs1 = (f :: ('sr, 'r, 'tx, 'm, 'b, 'se, 'x) call_fut, rs2)"
        and a: "send_await rops f (client_of rs2 cs1) = Some (res, fut', cl', eff)"
        using p 1 cl q r y
        by (auto simp: connection_poll_ready_def sender_poll_def connection_call_def sender_call_def split: prod.splits)
      note q' = q [unfolded r y]
      show ?thesis
      proof (cases f)
        case (Call_error e)
        from poll_error [OF i q' c [unfolded Call_error]] a Call_error show ?thesis
          by (auto intro!: exI [of _ rs2] exI [of _ cs1])
      next
        case (Call_send g)
        from holds_await [OF poll_send [OF i q' c [unfolded Call_send]] a [unfolded Call_send]] show ?thesis .
      qed
    qed
  next
    case (3 f c)
    then have "J f rs cs" "send_await rops (Call_send f) (client_of rs cs) = Some (res, fut', cl', eff)"
      using h p cl by auto
    from holds_await [OF this] show ?thesis .
  qed (use h in simp)
qed

lemma awaits_holds:
  "awaits drv moves cops rops build_uri fut cl r cl' \<Longrightarrow> holds fut cl \<Longrightarrow>
   \<exists>rs cs. cl' = client_of rs cs \<and> (case r of None \<Rightarrow> I rs cs | Some x \<Rightarrow> Q x rs cs)"
proof (induction rule: awaits.induct)
  case (aw_ready fut cl r fut' cl' eff)
  then show ?case using holds_poll by fastforce
next
  case (aw_pending fut cl fut' cl1 eff r cl')
  then show ?case using holds_poll by fastforce
next
  case (aw_env cl cl1 fut r cl')
  from aw_env.IH [OF holds_env [OF aw_env.hyps(1) aw_env.prems]] show ?case .
next
  case (aw_drop fut cl)
  obtain rs cs where "cl = client_of rs cs" using client_parts by blast
  with aw_drop show ?case by (cases "(fut, cl)" rule: holds.cases) (auto intro: waiting_keeps)
qed

lemma awaits_result:
  "awaits drv moves cops rops build_uri (HS_waiting req) (client_of rs cs) r cl' \<Longrightarrow> I rs cs \<Longrightarrow>
   \<exists>rs' cs'. cl' = client_of rs' cs' \<and> (case r of None \<Rightarrow> I rs' cs' | Some x \<Rightarrow> Q x rs' cs')"
  using awaits_holds by fastforce

end

text \<open>When every result leaves a client that the next send can start from, whole sequences follow.\<close>

locale repeatable_sends = send_contract +
  assumes result_keeps: "Q r rs cs \<Longrightarrow> I rs cs"
begin

lemma sends_results:
  "sends drv moves cops rops build_uri cl reqs res cl' \<Longrightarrow> cl = client_of rs cs \<Longrightarrow> I rs cs \<Longrightarrow>
   (\<exists>rs' cs'. cl' = client_of rs' cs' \<and> I rs' cs') \<and> (\<forall>x. Some x \<in> set res \<longrightarrow> (\<exists>rs' cs'. Q x rs' cs'))"
proof (induction rule: sends.induct)
  case (sends_next cl reqs res cl1 req r cl2)
  then obtain rs1 cs1 where 1: "cl1 = client_of rs1 cs1" "I rs1 cs1" by blast
  with sends_next awaits_result [of req rs1 cs1 r cl2] result_keeps show ?case by (fastforce split: option.splits)
qed auto

end

section \<open>A base URI that lacks a part\<close>

lemma sender_ok_rx:
  "sender_ok rs cs \<Longrightarrow> rs_driver_rx rs = Some rx \<Longrightarrow> sender_ok (rs\<lparr>rs_driver_rx := Some rx'\<rparr>) cs"
  by (auto simp: sender_ok_def)

definition base_incomplete where
  "base_incomplete rs \<longleftrightarrow> rs_base_scheme rs = None \<or> rs_base_authority rs = None"

lemma base_incomplete_cong: "base_of rs' = base_of rs \<Longrightarrow> base_incomplete rs' = base_incomplete rs"
  by (simp add: base_of_def base_incomplete_def)

lemma incomplete_call: "call build_uri req rs = (Call_send f, rs') \<Longrightarrow> \<not> base_incomplete rs"
  by (auto simp: call_def base_incomplete_def Let_def split: option.splits sum.splits)

interpretation mb: repeatable_sends True "\<lambda>w w'. True" cops rops build_uri
  "\<lambda>rs cs. sender_ok rs cs \<and> base_incomplete rs" "\<lambda>f rs cs. False"
  "\<lambda>r rs cs. (\<exists>e. r = Err e) \<and> sender_ok rs cs \<and> base_incomplete rs"
  for cops :: "('conn, 'cf, 'qc, 'hf, 'drv, 'sr, 'dtx, 'rx, 'se, 'x, 'w) conn_ops"
    and rops :: "('sr, uri \<times> 'm, 'st, 's, 'r, 'tx, 'c, 'resp, 'se, 'b, 'h, 'x, 'w) request_ops" and build_uri
proof (unfold_locales, goal_cases)
  case (2 rs cs rs' cs' sp)
  then show ?case using sender_ok_poll base_incomplete_cong [OF base_poll] by blast
next
  case (3 rs cs rs1 cs1 sp req e rs2)
  then show ?case
    using sender_ok_poll [OF _ 3(2)] sender_ok_call [OF _ 3(3)] base_incomplete_cong [OF base_poll [OF 3(2)]]
      base_incomplete_cong [OF base_call [OF 3(3)]] by simp
next
  case (4 rs cs rs1 cs1 sp req f rs2)
  then show ?case using incomplete_call base_incomplete_cong [OF base_poll] by blast
qed (auto simp: base_incomplete_def intro: sender_ok_rx)

section \<open>A connector that is always refused\<close>

definition refusing :: "('conn, 'cf, 'qc, 'hf, 'drv, 'sr, 'dtx, 'rx, 'se, 'x, 'w) conn_ops \<Rightarrow> bool" where
  "refusing cops \<longleftrightarrow> (\<forall>cf w qc. fst (co_poll_connect cops cf w) \<noteq> Ready (Ok qc))"

fun before_h3 :: "('conn, 'cf, 'hf) make_fut option \<Rightarrow> bool" where
  "before_h3 (Some (MF_h3 hf)) = False"
| "before_h3 _ = True"

definition unconnected where
  "unconnected cops rs cs \<longleftrightarrow>
     refusing cops \<and> sender_ok rs cs \<and> rs_send_request rs = None \<and> before_h3 (rs_make_send_request_fut rs)"

lemma refused_make:
  assumes "refusing cops" "before_h3 (Some f)" "make_poll cops f w = (r, f', sp, w')"
  shows "before_h3 (Some f') \<and> (\<forall>y. r \<noteq> Ready (Ok y))"
proof -
  have "before_h3 (Some f') \<and> (\<forall>y. r \<noteq> Ready (Ok y))" if "make_connecting cops cf w = (r, f', sp, w')" for cf
  proof -
    obtain x cf' w1 where x: "co_poll_connect cops cf w = (x, cf', w1)" by (metis prod_cases3)
    then have "x \<noteq> Ready (Ok qc)" for qc using assms(1) unfolding refusing_def by (metis fst_conv)
    with x that show ?thesis by (auto simp: make_connecting_def split: poll.splits sum.splits)
  qed
  with assms show ?thesis by (cases f) auto
qed

lemma refused_poll:
  assumes u: "unconnected cops rs cs" and p: "poll_ready cops rs cs = (out, rs', cs', sp)"
  shows "unconnected cops rs' cs'"
proof -
  from u have n: "rs_driver_rx rs = None" "\<not> load_cell (rs_closing rs) cs" "rs_send_request rs = None"
    by (auto simp: unconnected_def sender_ok_def)
  have "sender_ok rs' cs'" using u sender_ok_poll [OF _ p] by (simp add: unconnected_def)
  moreover have "rs_send_request rs' = None \<and> before_h3 (rs_make_send_request_fut rs')"
  proof (cases "rs_connect_error rs")
    case None
    let ?f = "case rs_make_send_request_fut rs of None \<Rightarrow> MF_start (rs_conn rs) | Some f \<Rightarrow> f"
    obtain x f' sp1 w1 where m: "make_poll cops ?f (net cs) = (x, f', sp1, w1)" by (metis prod_cases4)
    have "before_h3 (Some ?f)" using u by (auto simp: unconnected_def split: option.splits)
    from refused_make [OF _ this m] u have "before_h3 (Some f')" "\<And>y. x \<noteq> Ready (Ok y)"
      by (auto simp: unconnected_def)
    with p n m None u show ?thesis
      by (auto simp: poll_ready_def check_driver_def check_closing_def drive_connect_def Let_def
          split: poll.splits sum.splits)
  next
    case (Some e)
    with p n u show ?thesis by (auto simp: poll_ready_def check_driver_def check_closing_def unconnected_def)
  qed
  ultimately show ?thesis using u by (simp add: unconnected_def)
qed

interpretation rf: repeatable_sends True "\<lambda>w w'. True" cops rops build_uri "unconnected cops" "\<lambda>f rs cs. False"
  "\<lambda>r rs cs. (\<exists>e. r = Err e) \<and> unconnected cops rs cs"
  for cops :: "('conn, 'cf, 'qc, 'hf, 'drv, 'sr, 'dtx, 'rx, 'se, 'x, 'w) conn_ops"
    and rops :: "('sr, uri \<times> 'm, 'st, 's, 'r, 'tx, 'c, 'resp, 'se, 'b, 'h, 'x, 'w) request_ops" and build_uri
proof (unfold_locales, goal_cases)
  case (2 rs cs rs' cs' sp)
  then show ?case by (rule refused_poll)
next
  case (3 rs cs rs1 cs1 sp req e rs2)
  then have "unconnected cops rs1 cs1" by (blast intro: refused_poll)
  with 3 sender_ok_call [of rs1 cs1] show ?case
    by (auto simp: unconnected_def call_def Let_def split: option.splits sum.splits)
next
  case (4 rs cs rs1 cs1 sp req f rs2)
  then have "unconnected cops rs1 cs1" by (blast intro: refused_poll)
  with 4 show ?case by (auto simp: unconnected_def call_def Let_def split: option.splits sum.splits)
qed (auto simp: unconnected_def intro: sender_ok_rx)

section \<open>Libraries that do not fail\<close>

text \<open>
  No operation of the libraries returns an error, the body source has none, and the parts of the base
  URI combine with every path.
\<close>

definition healthy_body :: "('b, 'h, 's, 'se, 'x, 'c) client_body_ops \<Rightarrow> bool" where
  "healthy_body ops \<longleftrightarrow>
     (\<forall>b e. fst (bo_poll_frame ops b) \<noteq> Ready (Some (Err e))) \<and> (\<forall>op w e. fst (bo_poll_send ops op w) \<noteq> Ready (Err e))"

definition healthy ::
  "('conn, 'cf, 'qc, 'hf, 'drv, 'sr, 'dtx, 'rx, 'se, 'x, 'w) conn_ops \<Rightarrow>
   ('sr, uri \<times> 'm, 'st, 's, 'r, 'tx, 'c, 'resp, 'se, 'b, 'h, 'x, 'w) request_ops \<Rightarrow>
   (string \<Rightarrow> string \<Rightarrow> string \<Rightarrow> 'x + uri) \<Rightarrow> string \<Rightarrow> string \<Rightarrow> bool" where
  "healthy cops rops build_uri sc au \<longleftrightarrow>
     (\<forall>cf w e. fst (co_poll_connect cops cf w) \<noteq> Ready (Err e)) \<and>
     (\<forall>hf w e. fst (co_poll_h3_new cops hf w) \<noteq> Ready (Err e)) \<and>
     (\<forall>sr head w e. fst (so_poll_send_request rops sr head w) \<noteq> Ready (Err e)) \<and>
     (\<forall>r w e. fst (so_poll_recv_response rops r w) \<noteq> Ready (Err e)) \<and>
     healthy_body (so_body rops) \<and> (\<forall>pq e. build_uri sc au pq \<noteq> Err e)"

definition healthy_sender where
  "healthy_sender cops rops build_uri sc au rs cs \<longleftrightarrow>
     healthy cops rops build_uri sc au \<and> sender_ok rs cs \<and> rs_connect_error rs = None \<and>
     rs_base_scheme rs = Some sc \<and> rs_base_authority rs = Some au"

lemma healthy_ops:
  assumes "healthy cops rops build_uri sc au"
  shows "co_poll_connect cops cf w \<noteq> (Ready (Err e), cf', w')" "co_poll_h3_new cops hf w \<noteq> (Ready (Err e), hf', w')"
    "so_poll_send_request rops sr head w \<noteq> (Ready (Err e2), sr', w')"
    "so_poll_recv_response rops r w \<noteq> (Ready (Err e2), r', w')" "build_uri sc au pq \<noteq> Err e3"
  using assms unfolding healthy_def by (metis fst_conv)+

lemma healthy_make: "healthy cops rops build_uri sc au \<Longrightarrow> make_poll cops f w \<noteq> (Ready (Err e), f', sp, w')"
  by (cases f) (auto simp: make_connecting_def make_h3_def healthy_ops
      split: prod.splits poll.splits sum.splits)

lemma healthy_drive:
  assumes "healthy cops rops build_uri sc au" "drive_connect cops rs w = (res, rs', sp, w')"
    "rs_connect_error rs = None"
  shows "rs_connect_error rs' = None"
  using assms by (auto simp: drive_connect_def Let_def healthy_make split: prod.splits poll.splits sum.splits)

lemma healthy_poll:
  assumes h: "healthy_sender cops rops build_uri sc au rs cs" and p: "poll_ready cops rs cs = (out, rs', cs', sp)"
  shows "healthy_sender cops rops build_uri sc au rs' cs'"
proof -
  obtain rs1 cs1 where d: "check_driver cops rs cs = (rs1, cs1)" by fastforce
  obtain rs2 cs2 where c: "check_closing rs1 cs1 = (rs2, cs2)" by fastforce
  have "rs_connect_error rs2 = None"
    using h d c by (auto simp: healthy_sender_def check_driver_def check_closing_def retire_connection_def new_cell_def
        split: option.splits prod.splits try_recv.splits if_splits)
  then have "rs_connect_error rs' = None"
    using p d c h by (auto simp: poll_ready_def healthy_sender_def split: if_splits prod.splits dest: healthy_drive)
  with h base_poll [OF p] sender_ok_poll [OF _ p] show ?thesis by (simp add: healthy_sender_def base_of_def)
qed

lemma healthy_upload:
  assumes h: "healthy_body ops" and p: "client_body_poll ops (CB_running g b c pc) = Some (Ready (Err e), f')"
  shows False
proof -
  from client_body_poll_moves [OF p] have m: "(client_body_moves ops)\<^sup>*\<^sup>* (CB_running g b c pc) f'"
    and o: "client_body_outcome f' = Some (Err e)" by auto
  from m have "\<forall>e. client_body_outcome f' \<noteq> Some (Err e)"
  proof (induction rule: rtranclp_induct)
    case (step f f')
    then obtain g b c pc fl where "f = CB_running g b c pc" "client_body_step ops f = (fl, f')"
      by (auto elim!: client_body_movesE)
    moreover have "bo_poll_frame ops b \<noteq> (Ready (Some (Err x)), b')" "bo_poll_send ops op w \<noteq> (Ready (Err y), w')"
      for b x b' op w y w' using h unfolding healthy_body_def by (metis fst_conv)+
    ultimately show ?case
      by (cases pc) (auto simp: client_body_select_def client_body_send_def client_body_exit_def deref_mut_def
          split: prod.splits bool.splits poll.splits option.splits sum.splits frame.splits send_op.splits)
  qed simp
  with o show False by simp
qed

lemma healthy_receive:
  assumes "healthy cops rops build_uri sc au" "request_receive rops r tx a cs = (Ready (Err e), fut, cs', eff)"
  shows False
  using assms healthy_ops(4) [OF assms(1)] by (auto simp: request_receive_def split: prod.splits poll.splits sum.splits)

lemma healthy_request:
  assumes h: "healthy cops rops build_uri sc au" and p: "request_poll rops f cs = Some (Ready (Err e), fut, cs', eff)"
  shows False
proof -
  have hb: "healthy_body (so_body rops)" using h by (simp add: healthy_def)
  have b: False if "request_body rops st body a cs1 = Some (Ready (Err e), fut, cs', eff)" for st body a cs1
    using that
    by (auto simp: request_body_def send_h3_client_body_def
        split: prod.splits option.splits poll.splits sum.splits
        dest: healthy_upload [OF hb] healthy_receive [OF h])
  show ?thesis
  proof (cases f)
    case (RF_sending head body sr a)
    with p b healthy_ops(3) [OF h] show ?thesis by (auto split: prod.splits poll.splits sum.splits)
  next
    case (RF_receiving r tx a)
    with p show ?thesis by (auto dest: healthy_receive [OF h])
  qed (use p in simp)
qed

lemma healthy_request_keeps:
  assumes h: "healthy_sender cops rops build_uri sc au rs cs" and p: "request_poll rops f cs = Some (res, fut, cs', eff)"
  shows "healthy_sender cops rops build_uri sc au rs cs'"
proof -
  have "res = Ready (Err e) \<Longrightarrow> False" for e using healthy_request p h unfolding healthy_sender_def by blast
  with request_poll_flag [OF p] have "same_flags cs cs'"
    by (auto simp: flag_effect_def split: poll.splits sum.splits)
  with h show ?thesis by (simp add: healthy_sender_def sender_ok_same)
qed

lemma healthy_call:
  assumes h: "healthy_sender cops rops build_uri sc au rs cs" and r: "rs_send_request rs \<noteq> None"
    and c: "call build_uri req rs = (f, rs')"
  shows "rs' = rs \<and> (\<exists>g. f = Call_send g)"
  using h r c healthy_ops(5) [of cops rops build_uri sc au]
  by (auto simp: healthy_sender_def call_def Let_def split: option.splits sum.splits)

interpretation hw: repeatable_sends True "\<lambda>w w'. True" cops rops build_uri "healthy_sender cops rops build_uri sc au"
  "\<lambda>f. healthy_sender cops rops build_uri sc au"
  "\<lambda>r rs cs. (\<exists>x. r = Ok x) \<and> healthy_sender cops rops build_uri sc au rs cs"
  for cops :: "('conn, 'cf, 'qc, 'hf, 'drv, 'sr, 'dtx, 'rx, 'se, 'x, 'w) conn_ops"
    and rops :: "('sr, uri \<times> 'm, 'st, 's, 'r, 'tx, 'c, 'resp, 'se, 'b, 'h, 'x, 'w) request_ops" and build_uri sc au
proof (unfold_locales, goal_cases)
  case (2 rs cs rs' cs' sp)
  then show ?case by (rule healthy_poll)
next
  case (3 rs cs rs1 cs1 sp req e rs2)
  have h: "healthy_sender cops rops build_uri sc au rs1 cs1" by (rule healthy_poll [OF 3(1,2)])
  with poll_ready_leaves [OF 3(2)] have "rs_send_request rs1 \<noteq> None" by (simp add: healthy_sender_def)
  from healthy_call [OF h this 3(3)] show ?case by simp
next
  case (4 rs cs rs1 cs1 sp req f rs2)
  have h: "healthy_sender cops rops build_uri sc au rs1 cs1" by (rule healthy_poll [OF 4(1,2)])
  with poll_ready_leaves [OF 4(2)] have "rs_send_request rs1 \<noteq> None" by (simp add: healthy_sender_def)
  from healthy_call [OF h this 4(3)] h show ?case by simp
next
  case (5 f rs cs f' cs' eff)
  then show ?case by (rule healthy_request_keeps)
next
  case (6 f rs cs r f' cs' eff)
  then have "r = Err e \<Longrightarrow> False" for e using healthy_request unfolding healthy_sender_def by blast
  with 6 healthy_request_keeps show ?case by (cases r) auto
qed (auto simp: healthy_sender_def intro: sender_ok_rx)

section \<open>Sends through a wrapper\<close>

text \<open>What moves around a wrapped connector leaves the value of the wrapper alone.\<close>

definition under_moves :: "('w \<Rightarrow> 'w \<Rightarrow> bool) \<Rightarrow> 'e \<times> 'w \<Rightarrow> 'e \<times> 'w \<Rightarrow> bool" where
  "under_moves moves w w' \<longleftrightarrow> fst w' = fst w \<and> moves (snd w) (snd w')"

context connector_wrapper
begin

lemma client_env_of:
  assumes "client_env d (under_moves moves) cl cl'"
  shows "client_env d moves (inner_client conn_of fut_of cl) (inner_client conn_of fut_of cl') \<and>
    wrapper_value cl' = wrapper_value cl"
  using assms
proof cases
  case (env_net cs w rs)
  have "client_env d moves (client_of (inner_sender conn_of fut_of rs) (inner_cells cs))
      (client_of (inner_sender conn_of fut_of rs) ((inner_cells cs)\<lparr>net := snd w\<rparr>))"
    by (rule client_env.env_net) (use env_net in \<open>simp add: under_moves_def\<close>)
  with env_net show ?thesis by (simp add: inner_cells_ops under_moves_def)
next
  case (env_driver rs rx cs rx')
  have "client_env d moves (client_of (inner_sender conn_of fut_of rs) (inner_cells cs))
      (client_of ((inner_sender conn_of fut_of rs)\<lparr>rs_driver_rx := Some rx'\<rparr>) (inner_cells cs))"
    by (rule client_env.env_driver) (use env_driver in simp_all)
  with env_driver show ?thesis by (simp add: inner_sender_updates)
qed

lemma awaits_of:
  "awaits d (under_moves moves) (wrap_conn connect2 poll2 ops) (wrap_request rops) build_uri fut cl r cl' \<Longrightarrow>
   good (wrapper_value cl) \<Longrightarrow>
   awaits d moves ops rops build_uri fut (inner_client conn_of fut_of cl) r (inner_client conn_of fut_of cl') \<and>
   good (wrapper_value cl')"
proof (induction rule: awaits.induct)
  case (aw_ready fut cl r fut' cl' eff)
  from send_poll_of [OF aw_ready(2,1)] show ?case by (auto intro: awaits.aw_ready)
next
  case (aw_pending fut cl fut' cl1 eff r cl')
  from send_poll_of [OF aw_pending(4,1)] aw_pending.IH show ?case by (auto intro: awaits.aw_pending)
next
  case (aw_env cl cl1 fut r cl')
  from client_env_of [OF aw_env(1)] aw_env show ?case by (auto intro: awaits.aw_env)
next
  case (aw_drop fut cl)
  then show ?case by (auto intro: awaits.aw_drop)
qed

end

section \<open>Worlds without delay\<close>

text \<open>When no operation of the libraries is ever pending, the first poll of a send is its last.\<close>

definition eager_world ::
  "('conn, 'cf, 'qc, 'hf, 'drv, 'sr, 'dtx, 'rx, 'se, 'x, 'w) conn_ops \<Rightarrow>
   ('sr, 'hd, 'st, 's, 'r, 'tx, 'c, 'resp, 'se, 'b, 'h, 'x, 'w) request_ops \<Rightarrow> bool" where
  "eager_world cops rops \<longleftrightarrow>
     (\<forall>cf w. fst (co_poll_connect cops cf w) \<noteq> Pending) \<and> (\<forall>hf w. fst (co_poll_h3_new cops hf w) \<noteq> Pending) \<and>
     (\<forall>sr head w. fst (so_poll_send_request rops sr head w) \<noteq> Pending) \<and>
     (\<forall>r w. fst (so_poll_recv_response rops r w) \<noteq> Pending) \<and>
     (\<forall>w b c. client_body_poll (so_body rops) (send_h3_client_body w b c) \<noteq> None)"

lemma eager_ops:
  assumes "eager_world cops rops"
  shows "co_poll_connect cops cf w \<noteq> (Pending, cf', w')" "co_poll_h3_new cops hf w \<noteq> (Pending, hf', w')"
    "so_poll_send_request rops sr head w \<noteq> (Pending, sr', w')" "so_poll_recv_response rops r w \<noteq> (Pending, r', w')"
  using assms unfolding eager_world_def by (metis fst_conv)+

lemma eager_make: "eager_world cops rops \<Longrightarrow> make_poll cops f w \<noteq> (Pending, f', sp, w')"
  by (cases f) (auto simp: make_connecting_def make_h3_def eager_ops split: prod.splits poll.splits sum.splits)

lemma eager_poll_ready:
  assumes e: "eager_world cops rops" and ok: "sender_ok rs cs"
  shows "\<exists>rs' cs' sp. poll_ready cops rs cs = (Return (Ready (Ok ())), rs', cs', sp)"
proof -
  obtain out rs' cs' sp where p: "poll_ready cops rs cs = (out, rs', cs', sp)" by (metis prod_cases4)
  from sender_poll_spec [OF ok p] obtain r where r: "out = Return r" "\<And>x. r \<noteq> Ready (Err x)" by blast
  have "r \<noteq> Pending"
    using p r(1) eager_make [OF e]
    by (auto simp: poll_ready_def drive_connect_def Let_def split: prod.splits if_splits poll.splits sum.splits)
  then obtain y where "r = Ready y" by (cases r) auto
  with r p show ?thesis by (cases y) auto
qed

lemma eager_receive:
  assumes "eager_world cops rops"
  shows "\<exists>r f cs' eff. request_receive rops rh tx a cs = (Ready r, f, cs', eff)"
proof -
  obtain x r' w where "so_poll_recv_response rops rh (net cs) = (x, r', w)" by (metis prod_cases3)
  with eager_ops(4) [OF assms] show ?thesis
    by (auto simp: request_receive_def split: poll.splits sum.splits)
qed

lemma eager_request:
  assumes e: "eager_world cops rops"
  shows "\<exists>r f cs' eff. request_poll rops (RF_sending head body sr a) cs = Some (Ready r, f, cs', eff)"
proof -
  obtain x sr' w where x: "so_poll_send_request rops sr head (net cs) = (x, sr', w)" by (metis prod_cases3)
  show ?thesis
  proof (cases "\<exists>st. x = Ready (Ok st)")
    case True
    then obtain st where st: "x = Ready (Ok st)" ..
    obtain s rh where s: "so_split rops st = (s, rh)" by fastforce
    obtain tx rx nw where c: "so_channel rops w = ((tx, rx), nw)" by (metis prod.exhaust)
    have "client_body_poll (so_body rops) (send_h3_client_body s body rx) \<noteq> None" using e by (simp add: eager_world_def)
    then obtain y f where y: "client_body_poll (so_body rops) (send_h3_client_body s body rx) = Some (y, f)" by auto
    have "\<exists>r f' cs' eff. request_body rops st body a (cs\<lparr>net := w\<rparr>) = Some (Ready r, f', cs', eff)"
      using eager_receive [OF e, of rh tx a "cs\<lparr>net := nw\<rparr>"] s c y
      by (cases y; cases "poll_value y") (auto simp: request_body_def)
    with x st show ?thesis by simp
  next
    case False
    with x eager_ops(3) [OF e] show ?thesis by (auto split: poll.splits sum.splits)
  qed
qed

lemma eager_send_poll:
  fixes rops :: "('sr, uri \<times> 'm, 'st, 's, 'r, 'tx, 'c, 'resp, 'se, 'b, 'h, 'x, 'w) request_ops"
  assumes e: "eager_world cops rops" and ok: "client_ok cl"
  shows "\<exists>r f cl' eff. send_poll cops rops build_uri (HS_waiting req) cl = Return (Some (Ready r, f, cl', eff))"
proof -
  obtain rs cs where cl: "cl = client_of rs cs" using client_parts by blast
  with ok have "sender_ok rs cs" by (simp add: client_ok_def)
  from eager_poll_ready [OF e this] obtain rs1 cs1 sp where
    p: "poll_ready cops rs cs = (Return (Ready (Ok ())), rs1, cs1, sp)" by blast
  obtain f rs2 where c: "call build_uri req rs1 = (f :: ('sr, 'r, 'tx, 'm, 'b, 'se, 'x) call_fut, rs2)" by fastforce
  note defs = connection_poll_ready_def sender_poll_def connection_call_def sender_call_def
  show ?thesis
  proof (cases f)
    case (Call_error x)
    with c p cl show ?thesis by (auto simp: defs)
  next
    case (Call_send g)
    with c obtain h b sr a where "g = RF_sending h b sr a"
      by (auto simp: call_def Let_def send_request_inner_def split: option.splits sum.splits)
    with eager_request [OF e, of h b sr a cs1] c p cl Call_send show ?thesis by (auto simp: defs)
  qed
qed

text \<open>The send of such a world, for evaluating scenarios.\<close>

definition eager_send where
  "eager_send cops rops build_uri req cl =
     (case send_poll cops rops build_uri (HS_waiting req) cl of
        Return (Some (Ready r, f, cl', eff)) \<Rightarrow> (r, cl') | _ \<Rightarrow> (Err (Msg ''pending''), cl))"

lemma eager_send_awaits:
  assumes "eager_world cops rops" "client_ok cl" "eager_send cops rops build_uri req cl = (res, cl')"
  shows "awaits drv moves cops rops build_uri (HS_waiting req) cl (Some res) cl'"
proof -
  obtain r f c eff where "send_poll cops rops build_uri (HS_waiting req) cl = Return (Some (Ready r, f, c, eff))"
    using eager_send_poll [OF assms(1,2)] by blast
  with assms(3) show ?thesis by (auto simp: eager_send_def intro: aw_ready)
qed

lemma sample_upload_returns: "client_body_poll sample_body_ops (send_h3_client_body w b c) \<noteq> None"
  by (simp add: sample_body_ops_def client_body_defs client_body_poll.simps guard_defs)

end
