(* ===== verification/GoawayProbe.thy ===== *)
theory GoawayProbe
  imports Awaiting
begin

text \<open>
  The scenario \<open>quinn_goaway_triggers_reconnect\<close> of \<open>tonic-h3-tests/src/goaway_reconnect.rs\<close> after its
  first request: a bounded loop of sends, each under a timeout, on a client whose cached
  connection rejects every new request because the peer has sent a GOAWAY, while its driver keeps running.
  The client goes through three phases: pinned to the closing connection, pinned with its flag up, and
  renewed.
\<close>

section \<open>The probe loop\<close>

text \<open>
  \<open>tsend attempt c\<close> is \<open>timeout(3 s, c.send(empty_post(&uri))).await\<close> in the turn \<open>attempt\<close>: \<open>None\<close> when the
  time was up. The result tells whether a failure with the closing signal was seen and whether a send
  succeeded.
\<close>

fun probe_loop ::
  "(nat \<Rightarrow> 'c \<Rightarrow> ('e + 'a) option \<times> 'c) \<Rightarrow> ('e \<Rightarrow> string) \<Rightarrow> nat list \<Rightarrow> bool \<Rightarrow> 'c \<Rightarrow> bool \<times> bool \<times> 'c" where
  "probe_loop tsend to_string [] saw c = (saw, False, c)"
| "probe_loop tsend to_string (attempt # rest) saw c =
     (case tsend attempt c of
        (Some (Ok resp), c') \<Rightarrow> (saw, True, c')
      | (Some (Err e), c') \<Rightarrow> probe_loop tsend to_string rest (saw \<or> sublist ''closing'' (to_string e)) c'
      | (None, c') \<Rightarrow> probe_loop tsend to_string rest saw c')"

text \<open>The loop and the three assertions after it.\<close>

definition goaway_probe ::
  "(nat \<Rightarrow> 'c \<Rightarrow> ('e + 'a) option \<times> 'c) \<Rightarrow> ('e \<Rightarrow> string) \<Rightarrow> ('c \<Rightarrow> 64 word) \<Rightarrow> 'c \<Rightarrow> 'c outcome" where
  "goaway_probe tsend to_string connect_count c =
     (case probe_loop tsend to_string [0..<20] False c of
        (saw_closing_failure, reconnected, c') \<Rightarrow>
          if \<not> saw_closing_failure
          then Panic ''expected at least one post-GOAWAY request to fail with a connection-closing error''
          else if \<not> reconnected
          then Panic ''expected a subsequent request to succeed via reconnection after GOAWAY''
          else if connect_count c' \<noteq> 2
          then Panic ''the client must have established a second connection (reconnect), not reused the closing one''
          else Return c')"

section \<open>What the peer does\<close>

text \<open>A connection that got a GOAWAY: its senders \<open>G\<close> reject every new request with the closing error.\<close>

definition closing_conn where
  "closing_conn rops kind G \<longleftrightarrow>
     (\<forall>sr head w x sr' w'. G sr \<longrightarrow> so_poll_send_request rops sr head w = (x, sr', w') \<longrightarrow>
        G sr' \<and> (x = Pending \<or> (\<exists>e. x = Ready (Err e) \<and> kind e = K_remote_closing)))"

text \<open>A connection whose requests do not fail: its senders \<open>S\<close> and the receive halves \<open>R\<close> of its streams.\<close>

definition good_conn where
  "good_conn rops S R \<longleftrightarrow>
     (\<forall>sr head w x sr' w'. S sr \<longrightarrow> so_poll_send_request rops sr head w = (x, sr', w') \<longrightarrow>
        S sr' \<and> (\<forall>e. x \<noteq> Ready (Err e)) \<and> (\<forall>st. x = Ready (Ok st) \<longrightarrow> R (snd (so_split rops st)))) \<and>
     (\<forall>r w x r' w'. R r \<longrightarrow> so_poll_recv_response rops r w = (x, r', w') \<longrightarrow> R r' \<and> (\<forall>e. x \<noteq> Ready (Err e)))"

text \<open>A connector whose attempts do not fail and yield senders in \<open>S\<close>.\<close>

definition good_connector where
  "good_connector cops S \<longleftrightarrow>
     (\<forall>cf w x cf' w'. co_poll_connect cops cf w = (x, cf', w') \<longrightarrow> (\<forall>e. x \<noteq> Ready (Err e))) \<and>
     (\<forall>hf w x hf' w'. co_poll_h3_new cops hf w = (x, hf', w') \<longrightarrow>
        (\<forall>e. x \<noteq> Ready (Err e)) \<and> (\<forall>d sr. x = Ready (Ok (d, sr)) \<longrightarrow> S sr))"

text \<open>Drivers that keep running: the channels \<open>D\<close> stay empty.\<close>

definition drivers_run where
  "drivers_run cops D \<longleftrightarrow>
     (\<forall>w tx rx w'. co_channel cops w = ((tx, rx), w') \<longrightarrow> D rx) \<and>
     (\<forall>rx w x rx' w'. D rx \<longrightarrow> co_try_recv cops rx w = (x, rx', w') \<longrightarrow> x = Recv_empty \<and> D rx')"

definition goaway_world ::
  "('conn, 'cf, 'qc, 'hf, 'drv, 'sr, 'dtx, 'rx, 'se, 'x, 'w) conn_ops \<Rightarrow>
   ('sr, uri \<times> 'm, 'st, 's, 'r, 'tx, 'c, 'resp, 'se, 'b, 'h, 'x, 'w) request_ops \<Rightarrow>
   (string \<Rightarrow> string \<Rightarrow> string \<Rightarrow> 'x + uri) \<Rightarrow> string \<Rightarrow> string \<Rightarrow> ('sr \<Rightarrow> bool) \<Rightarrow> ('sr \<Rightarrow> bool) \<Rightarrow> ('r \<Rightarrow> bool) \<Rightarrow>
   ('rx \<Rightarrow> bool) \<Rightarrow> ('se \<Rightarrow> stream_error_kind) \<Rightarrow> bool" where
  "goaway_world cops rops build_uri sc au G S R D kind \<longleftrightarrow>
     display_ok (so_to_string rops) kind \<and> healthy_body (so_body rops) \<and> (\<forall>pq e. build_uri sc au pq \<noteq> Err e) \<and>
     closing_conn rops kind G \<and> good_conn rops S R \<and> good_connector cops S \<and> drivers_run cops D"

text \<open>A wrapper changes none of this.\<close>

lemma wrapped_requests:
  "closing_conn rops kind G \<Longrightarrow> closing_conn (wrap_request rops) kind G"
  "good_conn rops S R \<Longrightarrow> good_conn (wrap_request rops) S R"
  by (fastforce simp: closing_conn_def wrap_request_def under_def split: prod.splits)
    (fastforce simp: good_conn_def wrap_request_def under_def split: prod.splits)

lemma counted_drivers: "drivers_run cops D \<Longrightarrow> drivers_run (count_ops cops) D"
  by (fastforce simp: drivers_run_def count_ops_def wrap_conn_def under_def under_new_def split: prod.splits)

lemma counted_connector: "good_connector cops S \<Longrightarrow> good_connector (count_ops cops) S"
proof -
  assume g: "good_connector cops S"
  have "x \<noteq> Ready (Err e)" if "count_poll cops cf w = (x, cf', w')" for cf w x cf' w' e
    using that g by (cases cf) (fastforce simp: good_connector_def count_inner_def split: prod.splits)+
  with g show ?thesis
    by (fastforce simp: good_connector_def count_ops_def wrap_conn_def under_def split: prod.splits)
qed

section \<open>The phases\<close>

definition based :: "string \<Rightarrow> string \<Rightarrow> ('conn, 'cf, 'hf, 'sr, 'rx, 'ex, 'se, 'x) RequestSender \<Rightarrow> bool" where
  "based sc au rs \<longleftrightarrow> rs_base_scheme rs = Some sc \<and> rs_base_authority rs = Some au"

text \<open>The cached connection is the one that is closing; \<open>up\<close> tells whether a request has noticed.\<close>

definition pinned where
  "pinned G D sc au up n rs cs \<longleftrightarrow>
     sender_ok rs cs \<and> based sc au rs \<and>
     (\<exists>sr rx. rs_send_request rs = Some sr \<and> G sr \<and> rs_driver_rx rs = Some rx \<and> D rx) \<and>
     load_cell (rs_closing rs) cs = up \<and> fst (net cs) = n"

text \<open>A new connection is there, or on its way.\<close>

definition renewed where
  "renewed S D sc au n rs cs \<longleftrightarrow>
     sender_ok rs cs \<and> based sc au rs \<and> rs_connect_error rs = None \<and> fst (net cs) = n \<and> \<not> load_cell (rs_closing rs) cs \<and>
     (case rs_send_request rs of
        Some sr \<Rightarrow> S sr \<and> (\<exists>rx. rs_driver_rx rs = Some rx \<and> D rx)
      | None \<Rightarrow> \<exists>f. rs_make_send_request_fut rs = Some f \<and> started f)"

lemma alive_poll:
  assumes d: "drivers_run ops D" and ok: "sender_ok rs cs" and c: "rs_send_request rs = Some sr"
    "rs_driver_rx rs = Some rx" "D rx" "\<not> load_cell (rs_closing rs) cs"
    and p: "poll_ready ops rs cs = (out, rs', cs', sp)"
  shows "\<exists>rx' w. out = Return (Ready (Ok ())) \<and> D rx' \<and> co_try_recv ops rx (net cs) = (Recv_empty, rx', w) \<and>
    rs' = rs\<lparr>rs_driver_rx := Some rx'\<rparr> \<and> cs' = cs\<lparr>net := w\<rparr>"
proof -
  obtain x rx' w where t: "co_try_recv ops rx (net cs) = (x, rx', w)" by (metis prod_cases3)
  with d c(3) have "x = Recv_empty" "D rx'" unfolding drivers_run_def by blast+
  with t p ok c show ?thesis
    by (auto simp: poll_ready_def check_driver_def check_closing_def sender_ok_def)
qed

lemma renew_make:
  assumes g: "good_connector ops S" "drivers_run ops D" and m: "make_poll ops f w = (r, f', sp, w')"
  shows "(\<forall>e. r \<noteq> Ready (Err e)) \<and> (\<forall>sr rx. r = Ready (Ok (sr, rx)) \<longrightarrow> S sr \<and> D rx)"
proof -
  let ?P = "(\<forall>e. r \<noteq> Ready (Err e)) \<and> (\<forall>sr rx. r = Ready (Ok (sr, rx)) \<longrightarrow> S sr \<and> D rx)"
  have h3: ?P if "make_h3 ops hf w1 = (r, f', sp, w')" for hf w1
  proof -
    obtain x hf' w2 where x: "co_poll_h3_new ops hf w1 = (x, hf', w2)" by (metis prod_cases3)
    with g(1) have "\<And>e. x \<noteq> Ready (Err e)" "\<And>d sr. x = Ready (Ok (d, sr)) \<Longrightarrow> S sr"
      unfolding good_connector_def by blast+
    moreover have "\<And>tx rx w3. co_channel ops w2 = ((tx, rx), w3) \<Longrightarrow> D rx"
      using g(2) unfolding drivers_run_def by blast
    ultimately show ?thesis using that x by (auto simp: make_h3_def split: poll.splits sum.splits prod.splits)
  qed
  have cn: ?P if "make_connecting ops cf w = (r, f', sp, w')" for cf
  proof -
    obtain x cf' w2 where x: "co_poll_connect ops cf w = (x, cf', w2)" by (metis prod_cases3)
    with g(1) have "\<And>e. x \<noteq> Ready (Err e)" unfolding good_connector_def by blast
    with that x h3 show ?thesis by (auto simp: make_connecting_def split: poll.splits sum.splits)
  qed
  from m h3 cn show ?thesis by (cases f) auto
qed

lemma renew_drive:
  assumes g: "good_connector (count_ops cops) S" "drivers_run (count_ops cops) D"
    and ok: "sender_ok rs cs" "based sc au rs" "rs_connect_error rs = None" "rs_send_request rs = None"
      "\<not> load_cell (rs_closing rs) cs"
    and p: "drive_connect (count_ops cops) rs w = (res, rs', sp, w')"
  shows "renewed S D sc au (fst w + (case rs_make_send_request_fut rs of None \<Rightarrow> 1 | Some f \<Rightarrow> if started f then 0 else 1))
    rs' (cs\<lparr>net := w'\<rparr>)"
proof -
  let ?f = "case rs_make_send_request_fut rs of None \<Rightarrow> MF_start (rs_conn rs) | Some f \<Rightarrow> f"
  obtain r f' sp1 w1 where m: "make_poll (count_ops cops) ?f w = (r, f', sp1, w1)" by (metis prod_cases4)
  note c = count_make_poll [OF m] and n = renew_make [OF g m]
  have s: "sender_ok rs' cs" using sender_ok_connect [OF ok(1,3,4) p] .
  have b: "based sc au rs'" using base_connect [OF p] ok(2) by (simp add: based_def base_of_def)
  have cl: "rs_closing rs' = rs_closing rs" using drive_connect_closing [OF p] .
  have w: "w' = w1" using p m by (auto simp: drive_connect_def Let_def split: poll.splits sum.splits)
  have e: "rs_connect_error rs' = None \<and> (case rs_send_request rs' of
        Some sr \<Rightarrow> S sr \<and> (\<exists>rx. rs_driver_rx rs' = Some rx \<and> D rx)
      | None \<Rightarrow> \<exists>f. rs_make_send_request_fut rs' = Some f \<and> started f)"
    using p m c n ok(3,4) by (auto simp: drive_connect_def Let_def split: poll.splits sum.splits)
  have "fst w1 = fst w + (case rs_make_send_request_fut rs of None \<Rightarrow> 1 | Some f \<Rightarrow> if started f then 0 else 1)"
    using c by (simp split: option.splits)
  with s b cl e w ok(5) show ?thesis by (simp add: renewed_def)
qed

lemma renewed_poll:
  assumes g: "good_connector (count_ops cops) S" "drivers_run (count_ops cops) D"
    and r: "renewed S D sc au n rs cs" and p: "poll_ready (count_ops cops) rs cs = (out, rs', cs', sp)"
  shows "renewed S D sc au n rs' cs'"
proof (cases "rs_send_request rs")
  case (Some sr)
  with r obtain rx where c: "S sr" "rs_driver_rx rs = Some rx" "D rx" "\<not> load_cell (rs_closing rs) cs" "sender_ok rs cs"
    by (auto simp: renewed_def)
  from alive_poll [OF g(2) c(5) Some c(2,3,4) p] obtain rx' w where
    t: "D rx'" "co_try_recv (count_ops cops) rx (net cs) = (Recv_empty, rx', w)"
    "rs' = rs\<lparr>rs_driver_rx := Some rx'\<rparr>" "cs' = cs\<lparr>net := w\<rparr>" by blast
  have "fst w = fst (net cs)" using count_try_recv [OF t(2)] .
  with t r c Some sender_ok_rx [OF c(5,2)] show ?thesis by (simp add: renewed_def based_def)
next
  case None
  with r obtain f where f: "rs_make_send_request_fut rs = Some f" "started f" and k: "sender_ok rs cs" "based sc au rs"
    "rs_connect_error rs = None" "\<not> load_cell (rs_closing rs) cs" "fst (net cs) = n"
    by (auto simp: renewed_def)
  with None have "rs_driver_rx rs = None" by (simp add: sender_ok_def)
  with p None k obtain res w' where d: "drive_connect (count_ops cops) rs (net cs) = (res, rs', sp, w')"
    and cs': "cs' = cs\<lparr>net := w'\<rparr>"
    by (auto simp: poll_ready_def check_driver_def check_closing_def split: prod.splits)
  from renew_drive [OF g k(1,2,3) None k(4) d] f k(5) cs' show ?thesis by simp
qed

lemma pinned_up_poll:
  assumes g: "good_connector (count_ops cops) S" "drivers_run (count_ops cops) D"
    and r: "pinned G D sc au True n rs cs" and p: "poll_ready (count_ops cops) rs cs = (out, rs', cs', sp)"
  shows "renewed S D sc au (n + 1) rs' cs'"
proof -
  from r obtain sr rx where c: "rs_send_request rs = Some sr" "rs_driver_rx rs = Some rx" "D rx"
    and k: "sender_ok rs cs" "based sc au rs" "load_cell (rs_closing rs) cs" "fst (net cs) = n"
    by (auto simp: pinned_def)
  obtain x rx' w where t: "co_try_recv (count_ops cops) rx (net cs) = (x, rx', w)" by (metis prod_cases3)
  with g(2) c(3) have x: "x = Recv_empty" unfolding drivers_run_def by blast
  have n: "fst w = n" using count_try_recv [OF t] k(4) by simp
  let ?rs = "rs\<lparr>rs_driver_rx := Some rx'\<rparr>" and ?cs = "cs\<lparr>net := w\<rparr>"
  obtain rs2 cs2 where rt: "retire_connection ?rs ?cs = (rs2, cs2)" by fastforce
  have ok2: "sender_ok rs2 cs2" using sender_ok_retire [OF _ rt] sender_ok_rx [OF k(1) c(2)] by simp
  have s2: "based sc au rs2" "rs_connect_error rs2 = None" "rs_send_request rs2 = None"
    "rs_make_send_request_fut rs2 = None" "\<not> load_cell (rs_closing rs2) cs2" "net cs2 = w"
    using rt k c by (auto simp: retire_connection_def based_def sender_ok_def new_cell_def load_cell_def)
  have "check_driver (count_ops cops) rs cs = (?rs, ?cs)" using c t x by (simp add: check_driver_def)
  moreover have "check_closing ?rs ?cs = (rs2, cs2)" using k(3) rt by (simp add: check_closing_def)
  ultimately obtain res w' where d: "drive_connect (count_ops cops) rs2 w = (res, rs', sp, w')" and cs': "cs' = cs2\<lparr>net := w'\<rparr>"
    using p s2 by (auto simp: poll_ready_def split: prod.splits)
  from renew_drive [OF g ok2 s2(1-3,5) d] s2(4) n cs' show ?thesis by simp
qed

section \<open>Calls and requests in the phases\<close>

lemma based_call:
  assumes "based sc au rs" "rs_connect_error rs = None" "rs_send_request rs = Some sr" "\<And>pq e. build_uri sc au pq \<noteq> Err e"
    and "call build_uri req rs = (f, rs')"
  shows "rs' = rs \<and> (\<exists>head b. f = Call_send (RF_sending head b sr (rs_closing rs)))"
  using assms by (auto simp: call_def based_def Let_def send_request_inner_def split: option.splits sum.splits)

lemma pinned_net: "pinned G D sc au up n rs (cs\<lparr>net := w\<rparr>) \<longleftrightarrow> pinned G D sc au up (fst (net cs)) rs cs \<and> fst w = n"
  by (auto simp: pinned_def)

lemma pinned_count: "pinned G D sc au up n rs cs \<Longrightarrow> fst (net cs) = n"
  by (simp add: pinned_def)

lemma closing_request:
  assumes w: "goaway_world cops rops build_uri sc au G S R D kind" and g: "G sr"
    and p: "request_poll (wrap_request rops) (RF_sending head b sr a) cs = Some (res, f', cs', eff)"
  shows "(\<exists>sr' v. res = Pending \<and> f' = RF_sending head b sr' a \<and> G sr' \<and> cs' = cs\<lparr>net := (fst (net cs), v)\<rparr>) \<or>
    (\<exists>e v. res = Ready (Err (StreamErr e)) \<and> kind e = K_remote_closing \<and>
       cs' = store_cell a True (cs\<lparr>net := (fst (net cs), v)\<rparr>))"
proof -
  obtain x sr' w' where x: "so_poll_send_request (wrap_request rops) sr head (net cs) = (x, sr', w')" by (metis prod_cases3)
  obtain v where n: "w' = (fst (net cs), v)" using x by (auto simp: wrap_request_def under_def split: prod.splits)
  have "closing_conn rops kind G" using w by (simp add: goaway_world_def)
  from wrapped_requests(1) [OF this, unfolded closing_conn_def, rule_format, OF g x]
  have c: "G sr' \<and> (x = Pending \<or> (\<exists>e. x = Ready (Err e) \<and> kind e = K_remote_closing))" .
  have "is_connection_closing (so_to_string rops) e" if "kind e = K_remote_closing" for e
  proof -
    have "prefix (display_prefix (kind e)) (so_to_string rops e)" using w by (simp add: goaway_world_def display_ok_def)
    with that show ?thesis by (simp add: is_connection_closing_def Let_def)
  qed
  with c p x n show ?thesis by (auto simp: note_error_def intro!: exI [of _ v])
qed

fun request_good :: "('sr \<Rightarrow> bool) \<Rightarrow> ('r \<Rightarrow> bool) \<Rightarrow> ('sr, 'hd, 'r, 'tx, 'b) request_fut \<Rightarrow> bool" where
  "request_good S R (RF_sending head b sr a) = S sr"
| "request_good S R (RF_receiving r tx a) = R r"
| "request_good S R RF_done = True"

lemma good_receive:
  assumes g: "good_conn rops S R" and r: "R r" and p: "request_receive rops r tx a cs = (res, f', cs', eff)"
  shows "request_good S R f' \<and> (\<forall>e. res \<noteq> Ready (Err e))"
proof -
  obtain x r' w where x: "so_poll_recv_response rops r (net cs) = (x, r', w)" by (metis prod_cases3)
  with g r have "R r'" "\<And>e. x \<noteq> Ready (Err e)" unfolding good_conn_def by blast+
  with p x show ?thesis by (auto simp: request_receive_def split: poll.splits sum.splits)
qed

lemma good_request:
  assumes g: "good_conn rops S R" "healthy_body (so_body rops)" and f: "request_good S R f"
    and p: "request_poll rops f cs = Some (res, f', cs', eff)"
  shows "request_good S R f' \<and> (\<forall>e. res \<noteq> Ready (Err e))"
proof -
  have b: "request_good S R f' \<and> (\<forall>e. res \<noteq> Ready (Err e))"
    if q: "request_body rops st body a cs1 = Some (res, f', cs', eff)" and r: "R (snd (so_split rops st))" for st body a cs1
  proof -
    obtain s rh where s: "so_split rops st = (s, rh)" by fastforce
    obtain tx rx nw where c: "so_channel rops (net cs1) = ((tx, rx), nw)" by (metis prod.exhaust)
    obtain y u where y: "client_body_poll (so_body rops) (send_h3_client_body s body rx) = Some (y, u)"
      using q s c by (auto simp: request_body_def split: option.splits)
    have ne: "y = Ready (Err e) \<Longrightarrow> False" for e
      using healthy_upload [OF g(2)] y unfolding send_h3_client_body_def by blast
    from r s have rh: "R rh" by simp
    show ?thesis
      using q s c y ne
      by (auto simp: request_body_def split: poll.splits sum.splits prod.splits dest: good_receive [OF g(1) rh])
  qed
  show ?thesis
  proof (cases f)
    case (RF_sending head body sr a)
    obtain x sr' w where x: "so_poll_send_request rops sr head (net cs) = (x, sr', w)" by (metis prod_cases3)
    with g(1) f RF_sending have "S sr'" "\<And>e. x = Ready (Err e) \<Longrightarrow> False" "\<And>st. x = Ready (Ok st) \<Longrightarrow> R (snd (so_split rops st))"
      unfolding good_conn_def by (metis request_good.simps(1))+
    with p x RF_sending b show ?thesis by (auto split: poll.splits sum.splits)
  next
    case (RF_receiving r tx a)
    with p f good_receive [OF g(1)] show ?thesis by simp
  qed (use p in simp)
qed

lemma renewed_request:
  assumes w: "goaway_world cops rops build_uri sc au G S R D kind" and f: "request_good S R f"
    and r: "renewed S D sc au n rs cs" and p: "request_poll (wrap_request rops) f cs = Some (res, f', cs', eff)"
  shows "renewed S D sc au n rs cs' \<and> request_good S R f' \<and> (\<forall>e. res \<noteq> Ready (Err e))"
proof -
  have h: "good_conn rops S R" "healthy_body (so_body (wrap_request rops))"
    using w by (simp_all add: goaway_world_def)
  from good_request [OF wrapped_requests(2) [OF h(1)] _ f p] h(2) have g: "request_good S R f'" "\<And>e. res \<noteq> Ready (Err e)" by blast+
  with request_poll_flag [OF p] have "same_flags cs cs'" by (auto simp: flag_effect_def split: poll.splits sum.splits)
  moreover have "fst (net cs') = fst (net cs)" using wrap_request_poll [OF p] by simp
  ultimately have "renewed S D sc au n rs cs'"
    using r sender_ok_same [of cs cs' rs] same_flagsD [of cs cs' "rs_closing rs"] by (simp add: renewed_def)
  with g show ?thesis by simp
qed

section \<open>The contracts of the phases\<close>

text \<open>While the flag is down, a send fails with the closing error and raises it.\<close>

lemma pinned_poll:
  assumes d: "drivers_run (count_ops cops) D" and r: "pinned G D sc au False n rs cs"
    and p: "poll_ready (count_ops cops) rs cs = (out, rs', cs', sp)"
  shows "pinned G D sc au False n rs' cs' \<and> out = Return (Ready (Ok ()))"
proof -
  from r obtain sr rx where c: "rs_send_request rs = Some sr" "G sr" "rs_driver_rx rs = Some rx" "D rx"
    and k: "sender_ok rs cs" "based sc au rs" "\<not> load_cell (rs_closing rs) cs" "fst (net cs) = n"
    by (auto simp: pinned_def)
  from alive_poll [OF d k(1) c(1,3,4) k(3) p] obtain rx' w where
    t: "out = Return (Ready (Ok ()))" "D rx'" "co_try_recv (count_ops cops) rx (net cs) = (Recv_empty, rx', w)"
    "rs' = rs\<lparr>rs_driver_rx := Some rx'\<rparr>" "cs' = cs\<lparr>net := w\<rparr>" by blast
  have "fst w = n" using count_try_recv [OF t(3)] k(4) by simp
  with t c k sender_ok_rx [OF k(1) c(3)] show ?thesis by (simp add: pinned_def based_def)
qed

lemma pinned_flag: "pinned G D sc au False n rs cs \<Longrightarrow> pinned G D sc au True n rs (store_cell (rs_closing rs) True cs)"
  by (auto simp: pinned_def intro: sender_ok_store)

definition rejecting where
  "rejecting G f rs \<longleftrightarrow> (\<exists>head b sr. f = RF_sending head b sr (rs_closing rs) \<and> G sr)"

definition closing_failure where
  "closing_failure kind r \<longleftrightarrow> (\<exists>e. r = Err (StreamErr e) \<and> kind e = K_remote_closing)"

interpretation gp: send_contract False "under_moves (\<lambda>w w'. True)" "count_ops cops" "wrap_request rops" build_uri
  "\<lambda>rs cs. goaway_world cops rops build_uri sc au G S R D kind \<and> pinned G D sc au False n rs cs"
  "\<lambda>f rs cs. goaway_world cops rops build_uri sc au G S R D kind \<and> pinned G D sc au False n rs cs \<and> rejecting G f rs"
  "\<lambda>r rs cs. goaway_world cops rops build_uri sc au G S R D kind \<and> closing_failure kind r \<and> pinned G D sc au True n rs cs"
  for cops :: "('conn, 'cf, 'qc, 'hf, 'drv, 'sr, 'dtx, 'rx, 'se, 'x, 'w) conn_ops"
    and rops :: "('sr, uri \<times> 'm, 'st, 's, 'r, 'tx, 'c, 'resp, 'se, 'b, 'h, 'x, 'w) request_ops"
    and build_uri sc au G S R D kind n
proof (unfold_locales, goal_cases)
  case (2 rs cs rs' cs' sp)
  then show ?case using pinned_poll [OF counted_drivers] unfolding goaway_world_def by blast
next
  case (3 rs cs rs1 cs1 sp req e rs2)
  then have "pinned G D sc au False n rs1 cs1" using pinned_poll [OF counted_drivers] unfolding goaway_world_def by blast
  then obtain sr where s: "based sc au rs1" "rs_send_request rs1 = Some sr" "rs_connect_error rs1 = None"
    by (auto simp: pinned_def sender_ok_def)
  from based_call [OF s(1,3,2) _ 3(3)] 3(1) show ?case by (auto simp: goaway_world_def)
next
  case (4 rs cs rs1 cs1 sp req f rs2)
  then have p: "pinned G D sc au False n rs1 cs1" using pinned_poll [OF counted_drivers] unfolding goaway_world_def by blast
  then obtain sr where s: "based sc au rs1" "rs_send_request rs1 = Some sr" "G sr" "rs_connect_error rs1 = None"
    by (auto simp: pinned_def sender_ok_def)
  from based_call [OF s(1,4,2) _ 4(3)] 4(1) have "rs2 = rs1" "\<exists>head b. f = RF_sending head b sr (rs_closing rs1)"
    by (auto simp: goaway_world_def)
  with p s 4(1) show ?case by (auto simp: rejecting_def)
next
  case (5 f rs cs f' cs' eff)
  then obtain head b sr where f: "f = RF_sending head b sr (rs_closing rs)" "G sr" by (auto simp: rejecting_def)
  with 5 closing_request [of cops rops build_uri sc au G S R D kind sr head b "rs_closing rs" cs Pending f' cs' eff]
    pinned_count [of G D sc au False n rs cs]
  show ?case by (auto simp: rejecting_def pinned_net)
next
  case (6 f rs cs r f' cs' eff)
  then obtain head b sr where f: "f = RF_sending head b sr (rs_closing rs)" "G sr" by (auto simp: rejecting_def)
  with 6 closing_request [of cops rops build_uri sc au G S R D kind sr head b "rs_closing rs" cs "Ready r" f' cs' eff]
    pinned_count [of G D sc au False n rs cs]
  show ?case by (auto simp: closing_failure_def pinned_net intro!: pinned_flag)
next
  case (8 rs cs w)
  then show ?case using pinned_count [of G D sc au False n rs cs] by (auto simp: pinned_net under_moves_def)
next
  case (9 f rs cs w)
  then show ?case using pinned_count [of G D sc au False n rs cs] by (auto simp: pinned_net under_moves_def)
qed (auto simp: pinned_def)

text \<open>From then on a send goes over a new connection, the only one that is made.\<close>

lemma renewed_net: "renewed S D sc au n rs (cs\<lparr>net := w\<rparr>) \<longleftrightarrow> renewed S D sc au (fst (net cs)) rs cs \<and> fst w = n"
  by (auto simp: renewed_def)

lemma renewed_count: "renewed S D sc au n rs cs \<Longrightarrow> fst (net cs) = n"
  by (simp add: renewed_def)

definition renewing where
  "renewing G S D sc au n rs cs \<longleftrightarrow> pinned G D sc au True n rs cs \<or> renewed S D sc au (n + 1) rs cs"

lemma renewing_poll:
  assumes w: "goaway_world cops rops build_uri sc au G S R D kind" and r: "renewing G S D sc au n rs cs"
    and p: "poll_ready (count_ops cops) rs cs = (out, rs', cs', sp)"
  shows "renewed S D sc au (n + 1) rs' cs'"
proof -
  have g: "good_connector (count_ops cops) S" "drivers_run (count_ops cops) D"
    using w counted_connector counted_drivers by (auto simp: goaway_world_def)
  from r renewed_poll [OF g _ p] pinned_up_poll [OF g _ p] show ?thesis by (auto simp: renewing_def)
qed

interpretation gr: send_contract False "under_moves (\<lambda>w w'. True)" "count_ops cops" "wrap_request rops" build_uri
  "\<lambda>rs cs. goaway_world cops rops build_uri sc au G S R D kind \<and> renewing G S D sc au n rs cs"
  "\<lambda>f rs cs. goaway_world cops rops build_uri sc au G S R D kind \<and> renewed S D sc au (n + 1) rs cs \<and> request_good S R f"
  "\<lambda>r rs cs. (\<exists>x. r = Ok x) \<and> renewed S D sc au (n + 1) rs cs"
  for cops :: "('conn, 'cf, 'qc, 'hf, 'drv, 'sr, 'dtx, 'rx, 'se, 'x, 'w) conn_ops"
    and rops :: "('sr, uri \<times> 'm, 'st, 's, 'r, 'tx, 'c, 'resp, 'se, 'b, 'h, 'x, 'w) request_ops"
    and build_uri sc au G S R D kind n
proof (unfold_locales, goal_cases)
  case (2 rs cs rs' cs' sp)
  then show ?case using renewing_poll unfolding renewing_def by blast
next
  case (3 rs cs rs1 cs1 sp req e rs2)
  have n: "renewed S D sc au (n + 1) rs1 cs1" using renewing_poll [OF _ _ 3(2)] 3(1) by blast
  with poll_ready_leaves [OF 3(2)] obtain sr where s: "based sc au rs1" "rs_send_request rs1 = Some sr"
    "rs_connect_error rs1 = None" by (auto simp: renewed_def)
  from based_call [OF s(1,3,2) _ 3(3)] 3(1) show ?case by (auto simp: goaway_world_def)
next
  case (4 rs cs rs1 cs1 sp req f rs2)
  have n: "renewed S D sc au (n + 1) rs1 cs1" using renewing_poll [OF _ _ 4(2)] 4(1) by blast
  with poll_ready_leaves [OF 4(2)] obtain sr where s: "based sc au rs1" "rs_send_request rs1 = Some sr" "S sr"
    "rs_connect_error rs1 = None" by (auto simp: renewed_def)
  from based_call [OF s(1,4,2) _ 4(3)] 4(1) n s show ?case by (auto simp: goaway_world_def)
next
  case (5 f rs cs f' cs' eff)
  from renewed_request [OF _ _ _ 5(2)] 5(1) show ?case by blast
next
  case (6 f rs cs r f' cs' eff)
  then have n: "renewed S D sc au (n + 1) rs cs'" and g: "r = Err e \<Longrightarrow> False" for e
    using renewed_request [OF _ _ _ 6(2)] by blast+
  show ?case using n g by (cases r) auto
next
  case (8 rs cs w)
  then show ?case using renewed_count [of S D sc au "n + 1" rs cs] pinned_count [of G D sc au True n rs cs]
    by (auto simp: renewing_def renewed_net pinned_net under_moves_def)
next
  case (9 f rs cs w)
  then show ?case using renewed_count [of S D sc au "n + 1" rs cs] by (auto simp: renewed_net under_moves_def)
qed (auto simp: renewing_def renewed_def pinned_def)

section \<open>The loop over the phases\<close>

text \<open>
  What the scenario assumes of its turns: each is a send of the same request, awaited or dropped at its
  timeout; the error of a stream is printed as the library prints it.
\<close>

definition probes where
  "probes tsend to_string cops rops build_uri req \<longleftrightarrow>
     (\<forall>i cl r cl'. tsend i cl = (r, cl') \<longrightarrow> client_ok cl \<longrightarrow>
        awaits False (under_moves (\<lambda>w w'. True)) (count_ops cops) (wrap_request rops) build_uri (HS_waiting req) cl r cl') \<and>
     (\<forall>e. to_string (StreamErr e) = so_to_string rops e)"

definition in_time where
  "in_time tsend i \<longleftrightarrow> (\<forall>cl. fst (tsend i cl) \<noteq> None)"

lemma closing_failure_text:
  assumes "goaway_world cops rops build_uri sc au G S R D kind" "\<forall>e. to_string (StreamErr e) = so_to_string rops e"
    "closing_failure kind (Err e)"
  shows "sublist ''closing'' (to_string e)"
proof -
  from assms(3) obtain s where s: "e = StreamErr s" "kind s = K_remote_closing" by (auto simp: closing_failure_def)
  have "prefix (display_prefix (kind s)) (so_to_string rops s)" using assms(1) by (simp add: goaway_world_def display_ok_def)
  with s(2) have "prefix ''Remote is closing the connection'' (so_to_string rops s)" by simp
  then obtain t where "so_to_string rops s = ''Remote is '' @ ''closing'' @ '' the connection'' @ t" by (auto simp: prefix_def)
  then have "sublist ''closing'' (so_to_string rops s)" unfolding sublist_def by blast
  with s assms(2) show ?thesis by simp
qed

lemma probe_renewing:
  assumes t: "probes tsend to_string cops rops build_uri req" and w: "goaway_world cops rops build_uri sc au G S R D kind"
  shows "renewing G S D sc au n rs cs \<Longrightarrow> probe_loop tsend to_string xs saw (client_of rs cs) = (saw', again, c') \<Longrightarrow>
    saw' = saw \<and> (again \<longrightarrow> wrapper_value c' = n + 1) \<and> ((\<exists>i\<in>set xs. in_time tsend i) \<longrightarrow> again)"
proof (induction xs arbitrary: rs cs)
  case (Cons i xs)
  obtain r cl where s: "tsend i (client_of rs cs) = (r, cl)" by fastforce
  have "client_ok (client_of rs cs)" using Cons.prems(1) by (auto simp: renewing_def renewed_def pinned_def client_ok_def)
  with t s have "awaits False (under_moves (\<lambda>w w'. True)) (count_ops cops) (wrap_request rops) build_uri (HS_waiting req)
      (client_of rs cs) r cl" by (simp add: probes_def)
  from gr.awaits_result [OF this] w Cons.prems(1) obtain rs' cs' where
    c: "cl = client_of rs' cs'" "case r of None \<Rightarrow> renewing G S D sc au n rs' cs'
      | Some x \<Rightarrow> (\<exists>y. x = Ok y) \<and> renewed S D sc au (n + 1) rs' cs'"
    by (fastforce split: option.splits)
  show ?case
  proof (cases r)
    case None
    with s have "\<not> in_time tsend i" by (auto simp: in_time_def intro!: exI [of _ "client_of rs cs"])
    with Cons None s c show ?thesis by auto
  next
    case (Some x)
    with Cons.prems(2) s c renewed_count [of S D sc au "n + 1" rs' cs'] show ?thesis by auto
  qed
qed simp

lemma probe_pinned:
  assumes t: "probes tsend to_string cops rops build_uri req" and w: "goaway_world cops rops build_uri sc au G S R D kind"
  shows "pinned G D sc au False n rs cs \<Longrightarrow> probe_loop tsend to_string xs False (client_of rs cs) = (saw', again, c') \<Longrightarrow>
    (again \<longrightarrow> saw' \<and> wrapper_value c' = n + 1) \<and> (2 \<le> length (filter (in_time tsend) xs) \<longrightarrow> again)"
proof (induction xs arbitrary: rs cs)
  case (Cons i xs)
  obtain r cl where s: "tsend i (client_of rs cs) = (r, cl)" by fastforce
  have "client_ok (client_of rs cs)" using Cons.prems(1) by (auto simp: pinned_def client_ok_def)
  with t s have "awaits False (under_moves (\<lambda>w w'. True)) (count_ops cops) (wrap_request rops) build_uri (HS_waiting req)
      (client_of rs cs) r cl" by (simp add: probes_def)
  from gp.awaits_result [OF this] w Cons.prems(1) obtain rs' cs' where
    c: "cl = client_of rs' cs'" "case r of None \<Rightarrow> pinned G D sc au False n rs' cs'
      | Some x \<Rightarrow> closing_failure kind x \<and> pinned G D sc au True n rs' cs'"
    by (fastforce split: option.splits)
  show ?case
  proof (cases r)
    case None
    with s have "\<not> in_time tsend i" by (auto simp: in_time_def intro!: exI [of _ "client_of rs cs"])
    with Cons None s c show ?thesis by auto
  next
    case (Some x)
    with c have f: "closing_failure kind x" and u: "renewing G S D sc au n rs' cs'" by (auto simp: renewing_def)
    then obtain e where e: "x = Err e" by (auto simp: closing_failure_def)
    have "sublist ''closing'' (to_string e)" using closing_failure_text [OF w _ f [unfolded e]] t by (simp add: probes_def)
    with Cons.prems(2) s Some e c have "probe_loop tsend to_string xs True (client_of rs' cs') = (saw', again, c')" by simp
    from probe_renewing [OF t w u this]
    have p: "saw'" "again \<longrightarrow> wrapper_value c' = n + 1" "(\<exists>i\<in>set xs. in_time tsend i) \<longrightarrow> again" by simp_all
    have "again" if "2 \<le> length (filter (in_time tsend) (i # xs))"
    proof -
      from that have "filter (in_time tsend) xs \<noteq> []" by (auto split: if_splits)
      with p(3) show ?thesis by (auto simp: filter_empty_conv)
    qed
    with p show ?thesis by blast
  qed
qed simp

section \<open>Results\<close>

text \<open>
  After a GOAWAY the probe of \<open>quinn_goaway_triggers_reconnect\<close> passes. The client is pinned to the
  closing connection, its driver keeps running, its flag is down and \<open>connect\<close> was called once; new
  connections work. If at least two of the twenty sends are not cut off by their timeout, a failure with
  the closing signal is seen, a later send succeeds, and exactly one more connection was made, whatever the
  network does between the polls and whichever sends are cut off.
\<close>

lemma goaway_probe_run:
  assumes "goaway_world cops rops build_uri sc au G S R D kind" "probes tsend to_string cops rops build_uri req"
    and "pinned G D sc au False 1 rs cs" and "i < j" "j < 20" "in_time tsend i" "in_time tsend j"
  shows "\<exists>c'. goaway_probe tsend to_string wrapper_value (client_of rs cs) = Return c' \<and> wrapper_value c' = 2"
proof -
  obtain saw again c' where l: "probe_loop tsend to_string [0..<20] False (client_of rs cs) = (saw, again, c')"
    by (metis prod_cases3)
  let ?t = "filter (in_time tsend) [0..<20]"
  have "{i, j} \<subseteq> {k \<in> {0..<20}. in_time tsend k}" using assms(4-7) by auto
  then have "card {i, j} \<le> card {k \<in> {0..<20}. in_time tsend k}" by (rule card_mono [rotated]) simp
  also have "\<dots> \<le> length ?t" using card_length [of ?t] by simp
  finally have "2 \<le> length ?t" using assms(4) by simp
  with probe_pinned [OF assms(2,1,3) l] have "saw" "again" "wrapper_value c' = 2" by auto
  with l show ?thesis by (simp add: goaway_probe_def)
qed

text \<open>A run in which the time of the first turn is up. The sender of the closing connection is 1, that of a new one 5.\<close>

definition probe_conn_ops :: "(nat, nat, nat, nat, nat, nat, unit, bool, stream_error_kind, nat, nat) conn_ops" where
  "probe_conn_ops = sample_conn_ops\<lparr>co_poll_connect := (\<lambda>cf w. (Ready (Ok cf), cf, w)),
     co_poll_h3_new := (\<lambda>hf w. (Ready (Ok (hf, 5)), hf, w))\<rparr>"

definition probe_sender :: "(nat CountConnect, (nat, nat) count_fut, nat, nat, bool, unit SharedExec, stream_error_kind, nat) RequestSender" where
  "probe_sender = \<lparr>rs_conn = \<lparr>cc_inner = 1\<rparr>, rs_send_request = Some 1, rs_driver_rx = Some False,
     rs_make_send_request_fut = None, rs_executor = SharedExec_tokio (), rs_base_scheme = Some ''https'',
     rs_base_authority = Some ''host:1'', rs_connect_error = None, rs_closing = 0\<rparr>"

definition probe_send where
  "probe_send i cl = (if i = (0::nat) then (None, cl)
     else case eager_send (count_ops probe_conn_ops) (wrap_request sample_request_ops) sample_build sample_req cl of
       (r, cl') \<Rightarrow> (Some r, cl'))"

lemma probe_eager: "eager_world (count_ops probe_conn_ops) (wrap_request sample_request_ops)"
proof -
  have "fst (count_poll probe_conn_ops cf w) \<noteq> Pending" for cf w
    by (cases cf) (simp_all add: count_inner_def probe_conn_ops_def)
  then show ?thesis using sample_upload_returns
    by (simp add: eager_world_def count_ops_def under_defs case_prod_unfold)
      (simp add: probe_conn_ops_def sample_request_ops_def)
qed

fun probe_text :: "(stream_error_kind, nat) error \<Rightarrow> string" where
  "probe_text (StreamErr e) = display_prefix e"
| "probe_text _ = []"

lemma goaway_probe_sample:
  "\<exists>c'. goaway_probe probe_send probe_text wrapper_value
     (client_of probe_sender \<lparr>cells = (\<lambda>a. False), next_cell = 1, net = (1, 0)\<rparr>) = Return c' \<and> wrapper_value c' = 2"
proof -
  let ?cs = "\<lparr>cells = (\<lambda>a. False), next_cell = 1, net = (1, 0)\<rparr> :: (64 word \<times> nat) cell_store"
  have w: "goaway_world probe_conn_ops sample_request_ops sample_build ''https'' ''host:1''
      (\<lambda>sr. sr = 1) (\<lambda>sr. sr = 5) (\<lambda>r. r = 5) Not id"
    by (simp add: goaway_world_def display_ok_def healthy_body_def closing_conn_def good_conn_def good_connector_def
        drivers_run_def probe_conn_ops_def sample_conn_ops_def sample_request_ops_def sample_body_ops_def sample_build_def)
  have t: "probes probe_send probe_text probe_conn_ops sample_request_ops sample_build sample_req"
    using eager_send_awaits [OF probe_eager] awaits.aw_drop
    by (auto simp: probes_def probe_send_def sample_request_ops_def split: if_splits prod.splits)
  have p: "pinned (\<lambda>sr. sr = 1) Not ''https'' ''host:1'' False 1 probe_sender ?cs"
    by (auto simp: pinned_def probe_sender_def sender_ok_def based_def load_cell_def intro: exI [of _ False])
  have i: "in_time probe_send 1" "in_time probe_send 2" by (simp_all add: in_time_def probe_send_def split: prod.splits)
  from goaway_probe_run [OF w t p _ _ i] show ?thesis by simp
qed

end
