(* ===== verification/ClientScenarios.thy ===== *)
theory ClientScenarios
  imports Awaiting Connect
begin

text \<open>
  Regression scenarios of \<open>tonic-h3-tests/src\<close> that drive one client: \<open>uri_boundary.rs\<close>,
  \<open>cert_error.rs\<close> and \<open>buffered_reconnect.rs\<close>. A scenario is a function of the awaited
  \<open>send\<close> of the client; a failed assertion is a panic. The theorems say that the scenarios pass for
  every way the sends can run.
\<close>

section \<open>Running a scenario\<close>

fun is_err :: "'e + 'a \<Rightarrow> bool" where
  "is_err (Err e) = True"
| "is_err (Ok x) = False"

text \<open>
  \<open>send req c\<close> is \<open>c.send(req).await\<close>: some run of the polls of \<open>send\<close> to its result, with anything
  happening in between.
\<close>

definition awaited ::
  "('w \<Rightarrow> 'w \<Rightarrow> bool) \<Rightarrow> ('conn, 'cf, 'qc, 'hf, 'drv, 'sr, 'dtx, 'rx, 'se, 'x, 'w) conn_ops \<Rightarrow>
   ('sr, uri \<times> 'm, 'st, 's, 'r, 'tx, 'c, 'resp, 'se, 'b, 'h, 'x, 'w) request_ops \<Rightarrow>
   (string \<Rightarrow> string \<Rightarrow> string \<Rightarrow> 'x + uri) \<Rightarrow>
   (('m, 'b) request \<Rightarrow> ('conn, 'cf, 'hf, 'sr, 'rx, 'ex, 'se, 'x, 'w) h3_client \<Rightarrow>
    (('se, 'x) error + 'resp \<times> ('r, 'tx) H3IncomingClient) \<times> ('conn, 'cf, 'hf, 'sr, 'rx, 'ex, 'se, 'x, 'w) h3_client) \<Rightarrow>
   bool" where
  "awaited moves cops rops build_uri send \<longleftrightarrow>
     (\<forall>req cl res cl'. client_ok cl \<longrightarrow> send req cl = (res, cl') \<longrightarrow>
        awaits True moves cops rops build_uri (HS_waiting req) cl (Some res) cl')"

text \<open>
  \<open>Request::builder().method("POST").uri(u).body(b).unwrap()\<close>; the method and the headers are the other
  parts.
\<close>

definition post_request :: "'m \<Rightarrow> 'b \<Rightarrow> uri \<Rightarrow> ('m, 'b) request" where
  "post_request post body u = \<lparr>req_uri = u, req_parts = post, req_body = body\<rparr>"

section \<open>\<open>uri_boundary.rs\<close>\<close>

definition make_client ::
  "'ep \<Rightarrow> 'ex SharedExec \<Rightarrow> 'w \<Rightarrow> uri \<Rightarrow> uri \<Rightarrow>
   ('ep H3QuinnConnector, 'cf, 'hf, 'sr, 'rx, 'ex SharedExec, 'se, 'x, 'w) h3_client" where
  "make_client client_endpoint tokio w server_uri base_uri =
     (let cc = H3QuinnConnector_new server_uri ''localhost'' client_endpoint;
          conn = H3Connection_new tokio cc base_uri None (empty_cells w)
      in H3Client_new conn)"

text \<open>\<open>finish\<close> stands for the end of every scenario: cancel the server and join its task.\<close>

definition missing_scheme_test where
  "missing_scheme_test send client req base_uri finish =
     (if uri_scheme base_uri \<noteq> None then Panic ''test setup: base must lack scheme''
      else if uri_authority base_uri = None then Panic ''test setup: base should carry an authority''
      else (case send req (client base_uri) of
          (res, c) \<Rightarrow>
            if \<not> is_err res then Panic ''expected a clean error for a base URI missing a scheme, got Ok'' else finish))"

definition missing_authority_test where
  "missing_authority_test send client req base_uri finish =
     (if uri_authority base_uri \<noteq> None then Panic ''test setup: base must lack authority''
      else (case send req (client base_uri) of
          (res, c) \<Rightarrow>
            if \<not> is_err res then Panic ''expected a clean error for a base URI missing an authority, got Ok''
            else finish))"

definition missing_path_test where
  "missing_path_test send client req server_uri finish =
     (if uri_path_and_query (req_uri req) \<noteq> None then Panic ''test setup: request URI must lack path_and_query''
      else (case send req (client server_uri) of
          (res, c) \<Rightarrow>
            if is_err res then Panic ''expected the request to succeed with a defaulted '' else finish))"

section \<open>\<open>cert_error.rs\<close> and \<open>buffered_reconnect.rs\<close>\<close>

text \<open>\<open>say_hello\<close> is the call of the generated client, with the channel it was made from as state.\<close>

definition cert_error_test where
  "cert_error_test say_hello client finish =
     (case say_hello ''Tonic'' client of
        (result, c1) \<Rightarrow>
          if \<not> is_err result then Panic ''expected TLS cert error, got Ok''
          else (case say_hello ''Tonic2'' c1 of
            (result2, c2) \<Rightarrow>
              if \<not> is_err result2 then Panic ''expected TLS cert error on retry, got Ok'' else finish))"

text \<open>The clone of the channel that the third call goes through reaches the same request sender.\<close>

definition buffered_test where
  "buffered_test say_hello channel finish =
     (case say_hello ''one'' channel of
        (first, c1) \<Rightarrow>
          if \<not> is_err first then Panic ''expected first RPC to fail with the transient connect error''
          else (case say_hello ''two'' c1 of
            (second, c2) \<Rightarrow>
              if is_err second then Panic ''expected second RPC on the same channel to succeed after reconnect''
              else (case say_hello ''clone'' c2 of
                (via_clone, c3) \<Rightarrow>
                  if is_err via_clone then Panic ''expected a cloned channel handle to serve requests (not bricked)''
                  else finish)))"

definition non_buffered_test where
  "non_buffered_test send build_req client finish =
     (case send build_req client of
        (first, c1) \<Rightarrow>
          if \<not> is_err first then Panic ''expected first non-buffered request to fail with the transient connect error''
          else (case send build_req c1 of
            (second, c2) \<Rightarrow>
              if is_err second then Panic ''expected second non-buffered request to succeed after reconnect''
              else finish))"

text \<open>
  What is relied on of the generated client and of tonic: a call sends one request, and its status is an
  error exactly if the transport failed or the service answered so; the service of the scenarios answers
  every greeting.
\<close>

definition calls_over where
  "calls_over send request_of say_hello \<longleftrightarrow>
     (\<forall>name c. snd (say_hello name c) = snd (send (request_of name) c) \<and>
        is_err (fst (say_hello name c)) = is_err (fst (send (request_of name) c)))"

section \<open>New clients\<close>

lemma new_client:
  assumes "c0 = H3Client_new (H3Connection_new tokio conn u ex cs)"
  shows "\<exists>rs cs'. c0 = client_of rs cs' \<and> sender_ok rs cs' \<and>
    rs_base_scheme rs = uri_scheme u \<and> rs_base_authority rs = uri_authority u \<and> rs_connect_error rs = None \<and>
    rs_send_request rs = None \<and> rs_make_send_request_fut rs = None \<and> rs_conn rs = conn \<and> net cs' = net cs"
proof -
  obtain rs cs' where c: "c0 = client_of rs cs'" using client_parts by blast
  from assms have "hc_inner (hl_channel c0) = RequestSender_new conn u (case ex of None \<Rightarrow> tokio | Some e \<Rightarrow> e) cs"
    by (simp add: H3Connection_new_def Let_def)
  with c have n: "RequestSender_new conn u (case ex of None \<Rightarrow> tokio | Some e \<Rightarrow> e) cs = (rs, cs')" by simp
  have "sender_ok rs cs'" using sender_ok_new [OF n] .
  with n c show ?thesis
    by (intro exI [of _ rs] exI [of _ cs']) (auto simp: RequestSender_new_def new_cell_def)
qed

lemma client_ok_of [simp]: "client_ok (client_of rs cs) = sender_ok rs cs"
  by (simp add: client_ok_def)

lemma awaited_run:
  "awaited moves cops rops build_uri send \<Longrightarrow> sender_ok rs cs \<Longrightarrow> send req (client_of rs cs) = (res, cl') \<Longrightarrow>
   awaits True moves cops rops build_uri (HS_waiting req) (client_of rs cs) (Some res) cl'"
  by (simp add: awaited_def)

section \<open>Concrete worlds\<close>

text \<open>A world in which everything succeeds at once, and one in which every handshake is refused.\<close>

definition good_conn_ops :: "(nat, nat, nat, nat, nat, nat, unit, bool, stream_error_kind, nat, nat) conn_ops" where
  "good_conn_ops = sample_conn_ops\<lparr>co_poll_connect := (\<lambda>cf w. (Ready (Ok cf), cf, w))\<rparr>"

definition refusing_conn_ops :: "(nat, nat, nat, nat, nat, nat, unit, bool, stream_error_kind, nat, nat) conn_ops" where
  "refusing_conn_ops = sample_conn_ops\<lparr>co_poll_connect := (\<lambda>cf w. (Ready (Err (Foreign 7)), cf, w))\<rparr>"

definition good_request_ops ::
  "(nat, uri \<times> unit, nat, unit, nat, unit, unit, unit, stream_error_kind, unit, unit, nat, nat) request_ops" where
  "good_request_ops = sample_request_ops\<lparr>so_poll_send_request := (\<lambda>sr h w. (Ready (Ok sr), sr, w)),
     so_poll_recv_response := (\<lambda>r w. (Ready (Ok ()), r, w))\<rparr>"

text \<open>The same connections behind a quinn connector.\<close>

definition quinn_conn_ops ::
  "(nat H3QuinnConnector, nat, nat, nat, nat, nat, unit, bool, stream_error_kind, nat, nat) conn_ops" where
  "quinn_conn_ops = \<lparr>co_connect = qc_ep, co_poll_connect = co_poll_connect good_conn_ops,
     co_h3_new = co_h3_new good_conn_ops, co_poll_h3_new = co_poll_h3_new good_conn_ops,
     co_channel = co_channel good_conn_ops, co_try_recv = co_try_recv good_conn_ops,
     co_poll_close = co_poll_close good_conn_ops, co_tx_send = co_tx_send good_conn_ops\<rparr>"

lemmas good_defs = good_conn_ops_def good_request_ops_def quinn_conn_ops_def sample_conn_ops_def sample_request_ops_def
  sample_body_ops_def

lemma good_healthy:
  "healthy good_conn_ops good_request_ops sample_build sc au" "healthy quinn_conn_ops good_request_ops sample_build sc au"
  by (simp_all add: healthy_def healthy_body_def good_defs sample_build_def)

lemma good_eager:
  "eager_world good_conn_ops good_request_ops" "eager_world quinn_conn_ops good_request_ops"
  using sample_upload_returns by (simp_all add: eager_world_def good_defs)

lemma eager_awaited: "eager_world cops rops \<Longrightarrow> awaited moves cops rops build_uri (eager_send cops rops build_uri)"
  unfolding awaited_def using eager_send_awaits by blast

lemma eager_two_sends:
  assumes e: "eager_world cops rops" and ok: "client_ok cl"
  shows "\<exists>r r' cl'. sends drv moves cops rops build_uri cl [q, q'] [Some r, Some r'] cl'"
proof -
  obtain r f cl1 eff where p: "send_poll cops rops build_uri (HS_waiting q) cl = Return (Some (Ready r, f, cl1, eff))"
    using eager_send_poll [OF e ok] by blast
  have "send_ok (HS_waiting q) cl" using ok by simp
  from send_poll_ok [OF this, of cops rops build_uri] p have "client_ok cl1" by (auto intro: send_ok_client)
  from eager_send_poll [OF e this] obtain r' f' cl2 eff' where
    p': "send_poll cops rops build_uri (HS_waiting q') cl1 = Return (Some (Ready r', f', cl2, eff'))" by blast
  have "sends drv moves cops rops build_uri cl (([] @ [q]) @ [q']) (([] @ [Some r]) @ [Some r']) cl2"
    by (rule sends_next, rule sends_next, rule sends_none, rule aw_ready [OF p], rule aw_ready [OF p'])
  then show ?thesis by auto
qed

lemma sample_client_ok: "client_ok (sample_client_life n)"
  unfolding sample_client_life_def using new_client [OF refl] by (metis client_ok_of)

section \<open>Sends over one client\<close>

text \<open>
  A base URI without a scheme or an authority never sends anything. Every send of such a client that
  completes, however often it is tried and whatever the network does, returns an error.
\<close>

theorem incomplete_base_always_errors:
  assumes "uri_scheme u = None \<or> uri_authority u = None"
    and "sends True (\<lambda>w w'. True) cops rops build_uri
      (H3Client_new (H3Connection_new tokio conn u ex (empty_cells w))) reqs results cl" (is "sends _ _ _ _ _ ?c0 _ _ _")
    and "Some r \<in> set results"
  shows "\<exists>e. r = Err e"
proof -
  obtain rs cs where n: "?c0 = client_of rs cs"
    "sender_ok rs cs" "rs_base_scheme rs = uri_scheme u" "rs_base_authority rs = uri_authority u" using new_client [of ?c0, OF refl] by blast
  have "sender_ok rs cs \<and> base_incomplete rs" using n assms(1) by (simp add: base_incomplete_def)
  from mb.sends_results [OF assms(2) n(1) this] assms(3) show ?thesis by blast
qed

text \<open>
  A client whose connector is always refused keeps failing cleanly. Every completed send returns an
  error, the tenth like the first; no send is answered and none panics.
\<close>

theorem refused_sends_all_fail:
  assumes "refusing cops"
    and "sends True (\<lambda>w w'. True) cops rops build_uri
      (H3Client_new (H3Connection_new tokio conn u ex (empty_cells w))) reqs results cl" (is "sends _ _ _ _ _ ?c0 _ _ _")
  shows "client_ok cl \<and> (\<forall>r. Some r \<in> set results \<longrightarrow> (\<exists>e. r = Err e))"
proof -
  obtain rs cs where n: "?c0 = client_of rs cs"
    "sender_ok rs cs" "rs_send_request rs = None" "rs_make_send_request_fut rs = None" using new_client [of ?c0, OF refl] by blast
  have "unconnected cops rs cs" using n assms(1) by (simp add: unconnected_def)
  from rf.sends_results [OF assms(2) n(1) this] show ?thesis by (auto simp: unconnected_def)
qed

theorem refused_sends_all_fail_witness:
  "\<exists>r r' cl. sends True (\<lambda>w w'. True) refusing_conn_ops good_request_ops sample_build (sample_client_life 5)
      [sample_req, sample_req] [Some r, Some r'] cl \<and> is_err r \<and> is_err r'"
proof -
  have e: "eager_world refusing_conn_ops good_request_ops"
    using sample_upload_returns by (simp add: eager_world_def good_defs refusing_conn_ops_def)
  obtain r r' cl where s: "sends True (\<lambda>w w'. True) refusing_conn_ops good_request_ops sample_build (sample_client_life 5)
      [sample_req, sample_req] [Some r, Some r'] cl"
    using eager_two_sends [OF e sample_client_ok] by blast
  have "refusing refusing_conn_ops" by (simp add: refusing_def refusing_conn_ops_def)
  note all = refused_sends_all_fail [OF this s [unfolded sample_client_life_def], THEN conjunct2, rule_format]
  from all [of r] all [of r'] obtain e e' where "r = Err e" "r' = Err e'" by auto
  with s show ?thesis by (intro exI [of _ r] exI [of _ r'] exI [of _ cl]) simp
qed



section \<open>A connector that fails once\<close>

definition fail_phase :: "bool \<Rightarrow> string \<Rightarrow> string \<Rightarrow>
  ('conn, 'cf, 'hf, 'sr, 'rx, 'ex, 'se, 'x) RequestSender \<Rightarrow> (bool \<times> 'w) cell_store \<Rightarrow> bool" where
  "fail_phase failed sc au rs cs \<longleftrightarrow>
     sender_ok rs cs \<and> rs_send_request rs = None \<and> rs_make_send_request_fut rs = None \<and> rs_connect_error rs = None \<and>
     rs_base_scheme rs = Some sc \<and> rs_base_authority rs = Some au \<and> fst (net cs) = failed"

lemma first_poll:
  assumes "fail_phase False sc au rs cs"
  shows "poll_ready (fail_ops cops) rs cs =
    (Return (Ready (Ok ())), rs\<lparr>rs_make_send_request_fut := None, rs_connect_error := Some transient_failure\<rparr>,
     cs\<lparr>net := (True, snd (net cs))\<rparr>, [])"
proof -
  from assms have "rs_driver_rx rs = None" "\<not> load_cell (rs_closing rs) cs"
    by (auto simp: fail_phase_def sender_ok_def)
  with assms show ?thesis
    by (simp add: fail_phase_def poll_ready_def check_driver_def check_closing_def drive_connect_def Let_def
        make_connecting_def fail_ops_def wrap_conn_def fail_connect_def)
qed

interpretation ft: send_contract True "under_moves (\<lambda>w w'. True)" "fail_ops cops" "wrap_request rops" build_uri
  "fail_phase False sc au" "\<lambda>f rs cs. False"
  "\<lambda>r rs cs. r = Err transient_failure \<and> fail_phase True sc au rs cs"
  for cops :: "('conn, 'cf, 'qc, 'hf, 'drv, 'sr, 'dtx, 'rx, 'se, 'x, 'w) conn_ops"
    and rops :: "('sr, uri \<times> 'm, 'st, 's, 'r, 'tx, 'c, 'resp, 'se, 'b, 'h, 'x, 'w) request_ops" and build_uri sc au
proof (unfold_locales, goal_cases)
  case (3 rs cs rs1 cs1 sp req e rs2)
  have "rs1 = rs\<lparr>rs_make_send_request_fut := None, rs_connect_error := Some transient_failure\<rparr>"
    and cs1: "cs1 = cs\<lparr>net := (True, snd (net cs))\<rparr>" using 3(2) first_poll [OF 3(1), of cops] by simp_all
  with 3(3) have "e = transient_failure" "rs2 = rs\<lparr>rs_make_send_request_fut := None, rs_connect_error := None\<rparr>"
    by (simp_all add: call_def)
  moreover have "rs\<lparr>rs_make_send_request_fut := None, rs_connect_error := None\<rparr> = rs"
    using 3(1) by (cases rs) (simp add: fail_phase_def)
  ultimately show ?case using 3(1) cs1 by (simp add: fail_phase_def)
next
  case (4 rs cs rs1 cs1 sp req f rs2)
  with first_poll [OF 4(1), of cops] show ?case by (auto simp: call_def)
next
  case (2 rs cs rs' cs' sp)
  with first_poll [OF 2(1), of cops] show ?case by simp
qed (auto simp: fail_phase_def under_moves_def intro: sender_ok_rx)

lemma inner_sender_ok [simp]: "sender_ok (inner_sender c f rs) (inner_cells cs) = sender_ok rs cs"
  by (auto simp: sender_ok_def)

text \<open>After the failure the wrapped client is an ordinary client of the real connector.\<close>

lemma after_failure:
  assumes "healthy cops rops build_uri sc au" "fail_phase True sc au rs cs"
  shows "healthy_sender cops rops build_uri sc au (inner_sender fo_inner (fail_fut_of cops) rs) (inner_cells cs)"
  using assms by (simp add: healthy_sender_def fail_phase_def)

text \<open>
  What stays true of the wrapped client between sends: it is healthy below the wrapper, and the wrapper
  has failed already.
\<close>

definition recovered ::
  "('conn, 'cf, 'qc, 'hf, 'drv, 'sr, 'dtx, 'rx, 'se, 'x, 'w) conn_ops \<Rightarrow>
   ('sr, uri \<times> 'm, 'st, 's, 'r, 'tx, 'c, 'resp, 'se, 'b, 'h, 'x, 'w) request_ops \<Rightarrow>
   (string \<Rightarrow> string \<Rightarrow> string \<Rightarrow> 'x + uri) \<Rightarrow> string \<Rightarrow> string \<Rightarrow>
   ('conn FailOnce, ('conn, 'cf) fail_fut, 'hf, 'sr, 'rx, 'ex, 'se, 'x, bool \<times> 'w) h3_client \<Rightarrow> bool" where
  "recovered cops rops build_uri sc au c \<longleftrightarrow>
     (\<exists>rs cs. c = client_of rs cs \<and> fst (net cs) \<and> sender_ok rs cs \<and>
        healthy_sender cops rops build_uri sc au (inner_sender fo_inner (fail_fut_of cops) rs) (inner_cells cs))"

lemma after_failure_keeps:
  assumes "healthy_sender cops rops build_uri sc au (inner_sender fo_inner (fail_fut_of cops) rs) (inner_cells cs)"
    and "fst (net cs)"
    and "awaits True (under_moves (\<lambda>w w'. True)) (fail_ops cops) (wrap_request rops) build_uri (HS_waiting req)
      (client_of rs cs) (Some r) cl"
  shows "\<exists>rs' cs' x. r = Ok x \<and> cl = client_of rs' cs' \<and> fst (net cs') \<and>
    healthy_sender cops rops build_uri sc au (inner_sender fo_inner (fail_fut_of cops) rs') (inner_cells cs')"
proof -
  let ?c = "fo_inner" and ?f = "fail_fut_of cops"
  have a: "awaits True (\<lambda>w w'. True) cops rops build_uri (HS_waiting req)
      (client_of (inner_sender ?c ?f rs) (inner_cells cs)) (Some r) (inner_client ?c ?f cl)"
    and g: "wrapper_value cl"
    using fo.awaits_of [OF assms(3) [unfolded fail_ops_def]] assms(2) by simp_all
  obtain rs' cs' where cl: "cl = client_of rs' cs'" using client_parts by blast
  from hw.awaits_result [OF a assms(1)] cl obtain x where "r = Ok x"
    "healthy_sender cops rops build_uri sc au (inner_sender ?c ?f rs') (inner_cells cs')"
    by auto
  with cl g show ?thesis by auto
qed

section \<open>The scenarios pass\<close>

lemma make_client_new:
  assumes "c0 = make_client ep tokio w server_uri base_uri"
  shows "\<exists>rs cs. c0 = client_of rs cs \<and> sender_ok rs cs \<and> rs_base_scheme rs = uri_scheme base_uri \<and>
    rs_base_authority rs = uri_authority base_uri \<and> rs_connect_error rs = None"
  using new_client [of c0 tokio "H3QuinnConnector_new server_uri ''localhost'' ep" base_uri None "empty_cells w"] assms
  by (auto simp: make_client_def Let_def)

lemma is_err_iff: "is_err r \<longleftrightarrow> (\<exists>e. r = Err e)" "\<not> is_err r \<longleftrightarrow> (\<exists>x. r = Ok x)"
  by (cases r; simp)+



text \<open>
  The scenario of \<open>cert_error.rs\<close> passes: when the handshake of the connector fails every time, both calls
  return an error and the second does not panic.
\<close>

lemma cert_error_passes:
  assumes "refusing cops" "awaited (\<lambda>w w'. True) cops rops build_uri send" "calls_over send request_of say_hello"
    and "cl = H3Client_new (H3Connection_new tokio conn u ex (empty_cells w))"
  shows "cert_error_test say_hello cl finish = finish"
proof -
  have step: "is_err (fst (say_hello name (client_of rs cs))) \<and>
      (\<exists>rs' cs'. snd (say_hello name (client_of rs cs)) = client_of rs' cs' \<and> unconnected cops rs' cs')"
    if "unconnected cops rs cs" for name rs cs
  proof -
    obtain res cl' where s: "send (request_of name) (client_of rs cs) = (res, cl')" by fastforce
    have "sender_ok rs cs" using that by (simp add: unconnected_def)
    from rf.awaits_result [OF awaited_run [OF assms(2) this s] that] s assms(3) show ?thesis
      by (auto simp: calls_over_def)
  qed
  obtain rs cs where n: "cl = client_of rs cs" "sender_ok rs cs" "rs_send_request rs = None"
    "rs_make_send_request_fut rs = None" using new_client [OF assms(4)] by blast
  then have "unconnected cops rs cs" using assms(1) by (simp add: unconnected_def)
  from step [OF this, of "''Tonic''"] n step [of _ _ "''Tonic2''"] show ?thesis
    by (auto simp: cert_error_test_def case_prod_unfold)
qed



end
