(* ===== verification/StreamErrors.thy ===== *)
theory StreamErrors
  imports GoawayProbe ClientScenarios Uploads
begin

text \<open>
  The scenario \<open>quinn_stream_error_does_not_reconnect\<close> of \<open>tonic-h3-tests/src/goaway_reconnect.rs\<close>: errors that concern
  one stream leave the connection in place. It is proved for every sequence of sends on a counting client
  whose connection only ever reports such errors, whatever the request bodies do.
\<close>

section \<open>The scenario\<close>

text \<open>
  The calls are awaited under a timeout, \<open>None\<close> when the time was up. \<open>received\<close> is what the server reports on the
  upload: \<open>None\<close> when the time was up, \<open>Some None\<close> when the channel was closed.
\<close>

definition stream_error_test where
  "stream_error_test tsend success connect_count req ok_req received finish client =
     (case tsend req client of
        (None, c1) \<Rightarrow> Panic ''first request send timed out''
      | (Some (Err e), c1) \<Rightarrow> Panic ''first request send failed''
      | (Some (Ok resp), c1) \<Rightarrow>
          if \<not> success resp then Panic ''the `/drain` route responds 200 before the body error''
          else if connect_count c1 \<noteq> (1 :: 64 word) then Panic ''exactly one connect for the first request''
          else (case received of
                  None \<Rightarrow> Panic ''timed out waiting for the drain outcome''
                | Some None \<Rightarrow> Panic ''server outcome channel closed''
                | Some (Some (Drain_CleanEof n)) \<Rightarrow> Panic ''interrupted body must reset the request stream''
                | Some (Some (Drain_StreamError s)) \<Rightarrow>
                    if \<not> sublist ''H3_INTERNAL_ERROR'' s then Panic ''expected a stream-level reset (H3_INTERNAL_ERROR)''
                    else if connect_count c1 \<noteq> 1 then Panic ''a per-stream error must NOT trigger a reconnect''
                    else (case tsend ok_req c1 of
                            (None, c2) \<Rightarrow> Panic ''second request send timed out''
                          | (Some (Err e), c2) \<Rightarrow> Panic ''second request send failed''
                          | (Some (Ok ok_resp), c2) \<Rightarrow>
                              if \<not> success ok_resp then Panic ''a subsequent normal request should succeed on the same connection''
                              else if connect_count c2 \<noteq> 1 then Panic ''the subsequent request must reuse the same connection''
                              else finish c2)))"

section \<open>A connection that only loses streams\<close>

definition stream_conn where
  "stream_conn rops S R \<longleftrightarrow>
     (\<forall>sr head w x sr' w'. S sr \<longrightarrow> so_poll_send_request rops sr head w = (x, sr', w') \<longrightarrow>
        S sr' \<and> (\<forall>e. x = Ready (Err e) \<longrightarrow> \<not> is_connection_closing (so_to_string rops) e) \<and>
        (\<forall>st. x = Ready (Ok st) \<longrightarrow> R (snd (so_split rops st)))) \<and>
     (\<forall>r w x r' w'. R r \<longrightarrow> so_poll_recv_response rops r w = (x, r', w') \<longrightarrow>
        R r' \<and> (\<forall>e. x = Ready (Err e) \<longrightarrow> \<not> is_connection_closing (so_to_string rops) e))"

lemma wrapped_stream: "stream_conn rops S R \<Longrightarrow> stream_conn (wrap_request rops) S R"
  by (fastforce simp: stream_conn_def wrap_request_def under_def split: prod.splits)

definition steady_world ::
  "('conn, 'cf, 'qc, 'hf, 'drv, 'sr, 'dtx, 'rx, 'se, 'x, 'w) conn_ops \<Rightarrow>
   ('sr, uri \<times> 'm, 'st, 's, 'r, 'tx, 'c, 'resp, 'se, 'b, 'h, 'x, 'w) request_ops \<Rightarrow>
   (string \<Rightarrow> string \<Rightarrow> string \<Rightarrow> 'x + uri) \<Rightarrow> string \<Rightarrow> string \<Rightarrow> ('sr \<Rightarrow> bool) \<Rightarrow> ('r \<Rightarrow> bool) \<Rightarrow> ('rx \<Rightarrow> bool) \<Rightarrow> bool" where
  "steady_world cops rops build_uri sc au S R D \<longleftrightarrow>
     (\<forall>pq e. build_uri sc au pq \<noteq> Err e) \<and> stream_conn rops S R \<and> good_connector cops S \<and> drivers_run cops D"

lemma stream_receive:
  assumes g: "stream_conn rops S R" and r: "R r" and p: "request_receive rops r tx a cs = (res, f', cs', eff)"
  shows "request_good S R f' \<and> same_flags cs cs'"
proof -
  obtain x r' w where x: "so_poll_recv_response rops r (net cs) = (x, r', w)" by (metis prod_cases3)
  with g r have "R r'" "\<And>e. x = Ready (Err e) \<Longrightarrow> \<not> is_connection_closing (so_to_string rops) e"
    unfolding stream_conn_def by blast+
  with p x show ?thesis
    by (auto simp: request_receive_def note_error_def split: poll.splits sum.splits)
qed

lemma stream_request:
  assumes g: "stream_conn rops S R" and f: "request_good S R f"
    and p: "request_poll rops f cs = Some (res, f', cs', eff)"
  shows "request_good S R f' \<and> same_flags cs cs'"
proof -
  have b: "request_good S R f' \<and> same_flags cs1 cs'"
    if q: "request_body rops st body a cs1 = Some (res, f', cs', eff)" and r: "R (snd (so_split rops st))" for st body a cs1
  proof -
    obtain s rh where s: "so_split rops st = (s, rh)" by fastforce
    obtain tx rx nw where c: "so_channel rops (net cs1) = ((tx, rx), nw)" by (metis prod.exhaust)
    from r s have rh: "R rh" by simp
    show ?thesis
      using q s c
      by (auto simp: request_body_def split: option.splits poll.splits sum.splits prod.splits dest: stream_receive [OF g rh])
  qed
  show ?thesis
  proof (cases f)
    case (RF_sending head body sr a)
    obtain x sr' w where x: "so_poll_send_request rops sr head (net cs) = (x, sr', w)" by (metis prod_cases3)
    with g f RF_sending have "S sr'" "\<And>e. x = Ready (Err e) \<Longrightarrow> \<not> is_connection_closing (so_to_string rops) e"
      "\<And>st. x = Ready (Ok st) \<Longrightarrow> R (snd (so_split rops st))"
      unfolding stream_conn_def by (metis request_good.simps(1))+
    with p x RF_sending b show ?thesis
      by (auto simp: note_error_def split: poll.splits sum.splits dest: b)
  next
    case (RF_receiving r tx a)
    with p f stream_receive [OF g] show ?thesis by simp
  qed (use p in simp)
qed

section \<open>The contract of a send\<close>

text \<open>No connection was asked for yet.\<close>

definition newborn where
  "newborn sc au rs cs \<longleftrightarrow>
     sender_ok rs cs \<and> based sc au rs \<and> rs_connect_error rs = None \<and> rs_send_request rs = None \<and>
     rs_make_send_request_fut rs = None \<and> \<not> load_cell (rs_closing rs) cs \<and> fst (net cs) = (0 :: 64 word)"

definition steady where
  "steady fresh S D sc au rs cs \<longleftrightarrow> fresh \<and> newborn sc au rs cs \<or> renewed S D sc au 1 rs cs"

lemma steady_poll:
  assumes w: "steady_world cops rops build_uri sc au S R D" and r: "steady fresh S D sc au rs cs"
    and p: "poll_ready (count_ops cops) rs cs = (out, rs', cs', sp)"
  shows "renewed S D sc au 1 rs' cs'"
proof -
  have g: "good_connector (count_ops cops) S" "drivers_run (count_ops cops) D"
    using w counted_connector counted_drivers by (auto simp: steady_world_def)
  show ?thesis
  proof (cases "newborn sc au rs cs")
    case True
    then have k: "sender_ok rs cs" "based sc au rs" "rs_connect_error rs = None" "rs_send_request rs = None"
      "\<not> load_cell (rs_closing rs) cs" "rs_make_send_request_fut rs = None" "fst (net cs) = 0"
      by (simp_all add: newborn_def)
    then have "rs_driver_rx rs = None" by (auto simp: sender_ok_def)
    with k obtain res w' where d: "drive_connect (count_ops cops) rs (net cs) = (res, rs', sp, w')" and cs': "cs' = cs\<lparr>net := w'\<rparr>"
      using p by (auto simp: poll_ready_def check_driver_def check_closing_def split: prod.splits)
    from renew_drive [OF g k(1-5) d] k(6,7) cs' show ?thesis by simp
  next
    case False
    with r renewed_poll [OF g _ p] show ?thesis by (simp add: steady_def)
  qed
qed

lemma steady_request:
  assumes w: "steady_world cops rops build_uri sc au S R D" and f: "request_good S R f"
    and r: "renewed S D sc au n rs cs" and p: "request_poll (wrap_request rops) f cs = Some (res, f', cs', eff)"
  shows "renewed S D sc au n rs cs' \<and> request_good S R f'"
proof -
  have "stream_conn rops S R" using w by (simp add: steady_world_def)
  from stream_request [OF wrapped_stream [OF this] f p] have g: "request_good S R f'" "same_flags cs cs'" by blast+
  moreover have "fst (net cs') = fst (net cs)" using wrap_request_poll [OF p] by simp
  ultimately have "renewed S D sc au n rs cs'"
    using r sender_ok_same [of cs cs' rs] same_flagsD [of cs cs' "rs_closing rs"] by (simp add: renewed_def)
  with g show ?thesis by simp
qed

interpretation st: repeatable_sends False "under_moves (\<lambda>w w'. True)" "count_ops cops" "wrap_request rops" build_uri
  "\<lambda>rs cs. steady_world cops rops build_uri sc au S R D \<and> steady fresh S D sc au rs cs"
  "\<lambda>f rs cs. steady_world cops rops build_uri sc au S R D \<and> renewed S D sc au 1 rs cs \<and> request_good S R f"
  "\<lambda>r rs cs. steady_world cops rops build_uri sc au S R D \<and> renewed S D sc au 1 rs cs"
  for cops :: "('conn, 'cf, 'qc, 'hf, 'drv, 'sr, 'dtx, 'rx, 'se, 'x, 'w) conn_ops"
    and rops :: "('sr, uri \<times> 'm, 'st, 's, 'r, 'tx, 'c, 'resp, 'se, 'b, 'h, 'x, 'w) request_ops"
    and build_uri sc au S R D fresh
proof (unfold_locales, goal_cases)
  case (2 rs cs rs' cs' sp)
  then show ?case using steady_poll unfolding steady_def by blast
next
  case (3 rs cs rs1 cs1 sp req e rs2)
  have n: "renewed S D sc au 1 rs1 cs1" using steady_poll [OF _ _ 3(2)] 3(1) by blast
  with poll_ready_leaves [OF 3(2)] obtain sr where s: "based sc au rs1" "rs_send_request rs1 = Some sr"
    "rs_connect_error rs1 = None" by (auto simp: renewed_def)
  from based_call [OF s(1,3,2) _ 3(3)] 3(1) show ?case by (auto simp: steady_world_def)
next
  case (4 rs cs rs1 cs1 sp req f rs2)
  have n: "renewed S D sc au 1 rs1 cs1" using steady_poll [OF _ _ 4(2)] 4(1) by blast
  with poll_ready_leaves [OF 4(2)] obtain sr where s: "based sc au rs1" "rs_send_request rs1 = Some sr" "S sr"
    "rs_connect_error rs1 = None" by (auto simp: renewed_def)
  from based_call [OF s(1,4,2) _ 4(3)] 4(1) n s show ?case by (auto simp: steady_world_def)
next
  case (5 f rs cs f' cs' eff)
  from steady_request [OF _ _ _ 5(2)] 5(1) show ?case by blast
next
  case (6 f rs cs r f' cs' eff)
  from steady_request [OF _ _ _ 6(2)] 6(1) show ?case by blast
next
  case (8 rs cs w)
  then show ?case using renewed_count [of S D sc au 1 rs cs]
    by (auto simp: steady_def newborn_def renewed_net under_moves_def)
next
  case (9 f rs cs w)
  then show ?case using renewed_count [of S D sc au 1 rs cs] by (auto simp: renewed_net under_moves_def)
qed (auto simp: steady_def renewed_def newborn_def)

section \<open>Results\<close>

lemma steady_sends:
  assumes w: "steady_world cops rops build_uri sc au S R D"
  shows "sends False (under_moves (\<lambda>w w'. True)) (count_ops cops) (wrap_request rops) build_uri cl reqs res cl' \<Longrightarrow>
    cl = client_of rs cs \<Longrightarrow> steady True S D sc au rs cs \<Longrightarrow>
    \<exists>rs' cs'. cl' = client_of rs' cs' \<and> steady (\<forall>x. Some x \<notin> set res) S D sc au rs' cs'"
proof (induction rule: sends.induct)
  case (sends_next cl reqs res cl1 req r cl2)
  then obtain rs1 cs1 where 1: "cl1 = client_of rs1 cs1" "steady (\<forall>x. Some x \<notin> set res) S D sc au rs1 cs1" by blast
  from st.awaits_result [OF sends_next.hyps(2) [unfolded 1(1)]] w 1(2) obtain rs2 cs2 where
    2: "cl2 = client_of rs2 cs2" "case r of None \<Rightarrow> steady (\<forall>x. Some x \<notin> set res) S D sc au rs2 cs2
      | Some x \<Rightarrow> renewed S D sc au 1 rs2 cs2"
    by (fastforce split: option.splits)
  then show ?case by (intro exI [of _ rs2] exI [of _ cs2]) (auto simp: steady_def split: option.splits)
qed auto

lemma steady_value:
  "steady fresh S D sc au rs cs \<Longrightarrow> wrapper_value (client_of rs cs) \<le> 1 \<and> (\<not> fresh \<longrightarrow> wrapper_value (client_of rs cs) = 1)"
  by (auto simp: steady_def newborn_def dest: renewed_count)

lemma new_counting_client:
  assumes "CountConnect_new inner w0 = (cc, w)" "c0 = H3Client_new (H3Connection_new tokio cc u ex (empty_cells w))"
    "uri_scheme u = Some sc" "uri_authority u = Some au"
  shows "\<exists>rs cs. c0 = client_of rs cs \<and> steady True S D sc au rs cs"
proof -
  from new_client [OF assms(2)] obtain rs cs where c: "c0 = client_of rs cs" "sender_ok rs cs"
    "rs_base_scheme rs = uri_scheme u" "rs_base_authority rs = uri_authority u" "rs_connect_error rs = None"
    "rs_send_request rs = None" "rs_make_send_request_fut rs = None" "net cs = w"
    by (auto simp: empty_cells_def)
  from assms(1) have "fst w = 0" by (auto simp: CountConnect_new_def)
  with c assms(3,4) show ?thesis
    by (intro exI [of _ rs] exI [of _ cs]) (auto simp: steady_def newborn_def based_def sender_ok_def)
qed


text \<open>The scenario: its three assertions on the number of connections hold in every run.\<close>

theorem stream_error_test_passes:
  assumes w: "steady_world cops rops build_uri sc au S R D"
    and n: "CountConnect_new inner w0 = (cc, w)" "c0 = H3Client_new (H3Connection_new tokio cc u ex (empty_cells w))"
      "uri_scheme u = Some sc" "uri_authority u = Some au"
    and t: "\<And>q cl r cl'. tsend q cl = (r, cl') \<Longrightarrow> client_ok cl \<Longrightarrow>
      awaits False (under_moves (\<lambda>w w'. True)) (count_ops cops) (wrap_request rops) build_uri (HS_waiting q) cl r cl'"
    and a: "\<And>q cl. \<exists>resp cl'. tsend q cl = (Some (Ok resp), cl') \<and> success resp"
    and s: "sublist ''H3_INTERNAL_ERROR'' s"
  shows "\<exists>c2. stream_error_test tsend success wrapper_value req ok_req (Some (Some (Drain_StreamError s))) finish c0 = finish c2 \<and>
    wrapper_value c2 = 1"
proof -
  obtain rs cs where c: "c0 = client_of rs cs" "steady True S D sc au rs cs" using new_counting_client [OF n] by blast
  have ok: "client_ok (client_of rs cs)" if "steady fr S D sc au rs cs" for fr rs cs
    using that by (auto simp: steady_def newborn_def renewed_def)
  have one: "\<exists>resp rs' cs'. tsend q (client_of rs cs) = (Some (Ok resp), client_of rs' cs') \<and> success resp \<and>
      steady False S D sc au rs' cs'" if "steady fr S D sc au rs cs" for q fr rs cs
  proof -
    obtain resp cl' where r: "tsend q (client_of rs cs) = (Some (Ok resp), cl')" "success resp" using a by blast
    from st.awaits_result [OF t [OF r(1) ok [OF that]]] w that obtain rs' cs' where
      "cl' = client_of rs' cs'" "renewed S D sc au 1 rs' cs'" by fastforce
    with r show ?thesis by (auto simp: steady_def)
  qed
  from one [OF c(2), of req] obtain resp rs1 cs1 where
    1: "tsend req c0 = (Some (Ok resp), client_of rs1 cs1)" "success resp" "steady False S D sc au rs1 cs1" using c(1) by auto
  from one [OF 1(3), of ok_req] obtain resp2 rs2 cs2 where
    2: "tsend ok_req (client_of rs1 cs1) = (Some (Ok resp2), client_of rs2 cs2)" "success resp2" "steady False S D sc au rs2 cs2"
    by auto
  from steady_value [OF 1(3)] steady_value [OF 2(3)] 1 2 s show ?thesis
    by (intro exI [of _ "client_of rs2 cs2"]) (simp add: stream_error_test_def)
qed

text \<open>A connection on which every request loses its stream.\<close>

definition lossy_conn_ops :: "(nat, nat, nat, nat, nat, nat, unit, bool, stream_error_kind, nat, nat) conn_ops" where
  "lossy_conn_ops = sample_conn_ops\<lparr>co_poll_connect := (\<lambda>cf w. (Ready (Ok cf), cf, w)),
     co_poll_h3_new := (\<lambda>hf w. (Ready (Ok (hf, 2)), hf, w))\<rparr>"

definition lossy_client ::
  "(nat CountConnect, (nat, nat) count_fut, nat, nat, bool, unit SharedExec, stream_error_kind, nat, 64 word \<times> nat) h3_client" where
  "lossy_client = (case CountConnect_new 5 0 of
     (cc, w) \<Rightarrow> H3Client_new (H3Connection_new (SharedExec_tokio ()) cc sample_uri None (empty_cells w)))"


end
