(* ===== verification/GoawayTest.thy ===== *)
theory GoawayTest
  imports StreamErrors
begin

text \<open>
  The whole of \<open>quinn_goaway_triggers_reconnect\<close> in \<open>tonic-h3-tests/src/goaway_reconnect.rs\<close>: a new client sends its first request over its first
  connection, the GOAWAY arrives, and the probe of theory \<open>GoawayProbe\<close> runs.
\<close>

section \<open>The test\<close>

text \<open>\<open>send\<close> is the awaited first send, \<open>tsend\<close> a send under the timeout of the probe.\<close>

definition quinn_goaway_triggers_reconnect where
  "quinn_goaway_triggers_reconnect send tsend to_string connect_count client =
     (case send client of
        (Err e, c1) \<Rightarrow> Panic ''first request should succeed on connection 1''
      | (Ok resp, c1) \<Rightarrow>
          if connect_count c1 \<noteq> 1 then Panic ''exactly one connect for the first request''
          else goaway_probe tsend to_string connect_count c1)"

section \<open>The first send\<close>

lemma good_is_steady: "goaway_world cops rops build_uri sc au G S R D kind \<Longrightarrow> steady_world cops rops build_uri sc au S R D"
  by (auto simp: goaway_world_def steady_world_def good_conn_def stream_conn_def)

text \<open>The client is new, or its first connection is there or on its way; a send that has returned leaves it connected.\<close>

interpretation fs: send_contract False "under_moves (\<lambda>w w'. True)" "count_ops cops" "wrap_request rops" build_uri
  "\<lambda>rs cs. goaway_world cops rops build_uri sc au G S R D kind \<and> steady True S D sc au rs cs"
  "\<lambda>f rs cs. goaway_world cops rops build_uri sc au G S R D kind \<and> renewed S D sc au 1 rs cs \<and> request_good S R f \<and> rs_send_request rs \<noteq> None"
  "\<lambda>r rs cs. (\<exists>x. r = Ok x) \<and> renewed S D sc au 1 rs cs \<and> rs_send_request rs \<noteq> None"
  for cops :: "('conn, 'cf, 'qc, 'hf, 'drv, 'sr, 'dtx, 'rx, 'se, 'x, 'w) conn_ops"
    and rops :: "('sr, uri \<times> 'm, 'st, 's, 'r, 'tx, 'c, 'resp, 'se, 'b, 'h, 'x, 'w) request_ops"
    and build_uri sc au G S R D kind
proof (unfold_locales, goal_cases)
  case (2 rs cs rs' cs' sp)
  then show ?case using steady_poll [OF good_is_steady] unfolding steady_def by blast
next
  case (3 rs cs rs1 cs1 sp req e rs2)
  have n: "renewed S D sc au 1 rs1 cs1" using steady_poll [OF good_is_steady _ 3(2)] 3(1) by blast
  with poll_ready_leaves [OF 3(2)] obtain sr where s: "based sc au rs1" "rs_send_request rs1 = Some sr"
    "rs_connect_error rs1 = None" by (auto simp: renewed_def)
  from based_call [OF s(1,3,2) _ 3(3)] 3(1) show ?case by (auto simp: goaway_world_def)
next
  case (4 rs cs rs1 cs1 sp req f rs2)
  have n: "renewed S D sc au 1 rs1 cs1" using steady_poll [OF good_is_steady _ 4(2)] 4(1) by blast
  with poll_ready_leaves [OF 4(2)] obtain sr where s: "based sc au rs1" "rs_send_request rs1 = Some sr" "S sr"
    "rs_connect_error rs1 = None" by (auto simp: renewed_def)
  from based_call [OF s(1,4,2) _ 4(3)] 4(1) n s show ?case by (auto simp: goaway_world_def)
next
  case (5 f rs cs f' cs' eff)
  from renewed_request [OF _ _ _ 5(2)] 5(1) show ?case by blast
next
  case (6 f rs cs r f' cs' eff)
  then have n: "renewed S D sc au 1 rs cs'" and g: "r = Err e \<Longrightarrow> False" and c: "rs_send_request rs \<noteq> None" for e
    using renewed_request [OF _ _ _ 6(2)] by blast+
  show ?case using n g c by (cases r) auto
next
  case (8 rs cs w)
  then show ?case using renewed_count [of S D sc au 1 rs cs] by (auto simp: steady_def newborn_def renewed_net under_moves_def)
next
  case (9 f rs cs w)
  then show ?case using renewed_count [of S D sc au 1 rs cs] by (auto simp: renewed_net under_moves_def)
qed (auto simp: steady_def renewed_def newborn_def)

text \<open>When the GOAWAY has arrived, the connection that was made is the closing one.\<close>

lemma renewed_pinned:
  assumes "renewed S D sc au n rs cs" "rs_send_request rs \<noteq> None" "\<And>sr. S sr \<Longrightarrow> G sr"
  shows "pinned G D sc au False n rs cs"
  using assms by (auto simp: renewed_def pinned_def)

section \<open>Result\<close>

text \<open>
  C16: a GOAWAY costs one failed request and one new connection, from the first request on. \<open>cops0\<close> and \<open>rops0\<close> are the libraries before the GOAWAY
  has reached the client, \<open>cops\<close> and \<open>rops\<close> after it: the senders \<open>S0\<close> of the first connection then reject new requests as closing, and connections
  that are made from then on work. The test of a new client passes, whatever the network does between the polls, if two of the sends of
  the probe are not cut off by their timeout, and \<open>connect\<close> was called exactly twice.
\<close>

theorem goaway_test_passes:
  assumes before: "goaway_world cops0 rops0 build_uri sc au G0 S0 R0 D kind"
    and after: "goaway_world cops rops build_uri sc au G S R D kind" "\<And>sr. S0 sr \<Longrightarrow> G sr"
    and client: "CountConnect_new inner w0 = (cc, w)" "c0 = H3Client_new (H3Connection_new tokio cc u ex (empty_cells w))"
      "uri_scheme u = Some sc" "uri_authority u = Some au"
    and first: "\<And>cl r cl'. send cl = (r, cl') \<Longrightarrow> client_ok cl \<Longrightarrow>
      awaits False (under_moves (\<lambda>w w'. True)) (count_ops cops0) (wrap_request rops0) build_uri (HS_waiting req) cl (Some r) cl'"
    and probe: "probes tsend to_string cops rops build_uri req" "i < j" "j < 20" "in_time tsend i" "in_time tsend j"
  shows "\<exists>c'. quinn_goaway_triggers_reconnect send tsend to_string wrapper_value c0 = Return c' \<and> wrapper_value c' = 2"
proof -
  obtain rs cs where c: "c0 = client_of rs cs" "steady True S0 D sc au rs cs" using new_counting_client [OF client] by blast
  then have "client_ok c0" by (auto simp: steady_def newborn_def renewed_def)
  obtain r c1 where s: "send c0 = (r, c1)" by fastforce
  note res = fs.awaits_result [where S = S0 and R = R0 and D = D and G = G0 and kind = kind and sc = sc and au = au,
      OF first [OF s \<open>client_ok c0\<close>, unfolded c(1)]]
  from res before c(2) obtain rs1 cs1 where
    1: "c1 = client_of rs1 cs1" "\<exists>x. r = Ok x" "renewed S0 D sc au 1 rs1 cs1" "rs_send_request rs1 \<noteq> None" by auto
  have p: "pinned G D sc au False 1 rs1 cs1" using renewed_pinned [OF 1(3,4) after(2)] .
  have "wrapper_value c1 = 1" using renewed_count [OF 1(3)] 1(1) by simp
  with goaway_probe_run [OF after(1) probe(1) p probe(2-5)] s 1 show ?thesis
    by (auto simp: quinn_goaway_triggers_reconnect_def)
qed

text \<open>Before the GOAWAY the sender 1 of the first connection works; after it the libraries are those of the sample in theory \<open>GoawayProbe\<close>.\<close>

definition before_conn_ops :: "(nat, nat, nat, nat, nat, nat, unit, bool, stream_error_kind, nat, nat) conn_ops" where
  "before_conn_ops = probe_conn_ops\<lparr>co_poll_h3_new := (\<lambda>hf w. (Ready (Ok (hf, 1)), hf, w))\<rparr>"

definition before_request_ops where
  "before_request_ops = sample_request_ops\<lparr>so_poll_send_request := (\<lambda>sr head w.
     case so_poll_send_request sample_request_ops 5 head w of (x, sr', w') \<Rightarrow> (x, sr, w'))\<rparr>"

definition first_send where
  "first_send = eager_send (count_ops before_conn_ops) (wrap_request before_request_ops) sample_build sample_req"

lemma before_eager: "eager_world (count_ops before_conn_ops) (wrap_request before_request_ops)"
proof -
  have "fst (count_poll before_conn_ops cf w) \<noteq> Pending" for cf w
    by (cases cf) (simp_all add: count_inner_def before_conn_ops_def probe_conn_ops_def)
  then show ?thesis using sample_upload_returns
    by (simp add: eager_world_def count_ops_def under_defs case_prod_unfold)
      (simp add: before_conn_ops_def probe_conn_ops_def before_request_ops_def sample_request_ops_def)
qed

theorem goaway_test_passes_witness:
  "\<exists>c'. quinn_goaway_triggers_reconnect first_send probe_send probe_text wrapper_value lossy_client = Return c' \<and> wrapper_value c' = 2"
proof -
  note defs = goaway_world_def display_ok_def healthy_body_def closing_conn_def good_conn_def good_connector_def drivers_run_def
    probe_conn_ops_def sample_conn_ops_def sample_request_ops_def sample_body_ops_def sample_build_def
  have b: "goaway_world before_conn_ops before_request_ops sample_build ''https'' ''host:1''
      (\<lambda>sr. False) (\<lambda>sr. sr = 1) (\<lambda>r. r = 5) Not id"
    by (simp add: defs before_conn_ops_def before_request_ops_def)
  have w: "goaway_world probe_conn_ops sample_request_ops sample_build ''https'' ''host:1''
      (\<lambda>sr. sr = 1) (\<lambda>sr. sr = 5) (\<lambda>r. r = 5) Not id"
    by (simp add: defs)
  obtain cc w0 where n: "CountConnect_new 5 0 = (cc :: nat CountConnect, w0 :: 64 word \<times> nat)" by (simp add: CountConnect_new_def)
  then have c: "lossy_client = H3Client_new (H3Connection_new (SharedExec_tokio ()) cc sample_uri None (empty_cells w0))"
    by (simp add: lossy_client_def)
  have u: "uri_scheme sample_uri = Some ''https''" "uri_authority sample_uri = Some ''host:1''" by (simp_all add: sample_uri_def)
  have f: "awaits False (under_moves (\<lambda>w w'. True)) (count_ops before_conn_ops) (wrap_request before_request_ops) sample_build
      (HS_waiting sample_req) cl (Some r) cl'" if "first_send cl = (r, cl')" "client_ok cl" for cl r cl'
    using eager_send_awaits [OF before_eager] that by (auto simp: first_send_def)
  have t: "probes probe_send probe_text probe_conn_ops sample_request_ops sample_build sample_req"
    using eager_send_awaits [OF probe_eager] awaits.aw_drop
    by (auto simp: probes_def probe_send_def sample_request_ops_def split: if_splits prod.splits)
  have i: "in_time probe_send 1" "in_time probe_send 2" by (simp_all add: in_time_def probe_send_def split: prod.splits)
  from goaway_test_passes [OF b w _ n c u f t _ _ i] show ?thesis by simp
qed

end
