(* ===== verification/UploadTests.thy ===== *)
theory UploadTests
  imports Uploads
begin

text \<open>
  The three tests of \<open>tonic-h3-tests/src/cancel_reset.rs\<close>, with the request they send and the outcome they wait for. What the sender, the
  stream and the reading task of the server do is theory \<open>Uploads\<close>; here the verdicts of the tests follow from it.
\<close>

section \<open>The tests\<close>

text \<open>
  Calls are awaited under a timeout, \<open>None\<close> when the time was up; \<open>finish\<close> is the rest of a test: the endpoints are awaited and the server is
  shut down.
\<close>

definition client_body_error_resets_stream where
  "client_body_error_resets_stream tsend req received finish client =
     (case tsend req client of
        (None, c) \<Rightarrow> Panic ''send timed out''
      | (Some (Err e), c) \<Rightarrow> Panic ''send failed''
      | (Some (Ok resp), c) \<Rightarrow>
          (case received of
             None \<Rightarrow> Panic ''timed out waiting for server read outcome''
           | Some None \<Rightarrow> Panic ''server outcome channel closed''
           | Some (Some (Error s)) \<Rightarrow>
               if sublist ''H3_INTERNAL_ERROR'' s then finish c else Panic ''expected internal-error reset code''
           | Some (Some (CleanEof n)) \<Rightarrow> Panic ''interrupted body must reset the stream''))"

definition client_cancel_resets_stream where
  "client_cancel_resets_stream tsend req received finish client =
     (case tsend req client of
        (None, c) \<Rightarrow> Panic ''send timed out''
      | (Some (Err e), c) \<Rightarrow> Panic ''send failed''
      | (Some (Ok resp), c) \<Rightarrow>
          (case received of
             None \<Rightarrow> Panic ''timed out waiting for server read outcome''
           | Some None \<Rightarrow> Panic ''server outcome channel closed''
           | Some (Some (Error s)) \<Rightarrow>
               if sublist ''H3_REQUEST_CANCELLED'' s then finish c else Panic ''expected request-cancelled reset code''
           | Some (Some (CleanEof n)) \<Rightarrow> Panic ''cancelled upload must reset the stream''))"

definition normal_upload_completes_cleanly where
  "normal_upload_completes_cleanly tsend success req received finish client =
     (case tsend req client of
        (None, c) \<Rightarrow> Panic ''send timed out''
      | (Some (Err e), c) \<Rightarrow> Panic ''send failed''
      | (Some (Ok resp), c) \<Rightarrow>
          if \<not> success resp then Panic ''assertion failed: resp.status().is_success()''
          else (case received of
             None \<Rightarrow> Panic ''timed out waiting for server read outcome''
           | Some None \<Rightarrow> Panic ''server outcome channel closed''
           | Some (Some (CleanEof n)) \<Rightarrow> if 1 \<le> n then finish c else Panic ''expected at least one data frame''
           | Some (Some (Error s)) \<Rightarrow> Panic ''normal completion must not reset the stream''))"

text \<open>\<open>server.outcomes.recv()\<close> on what the handlers have sent; an empty channel lets the time run out.\<close>

definition recv_outcome :: "'o outcome_chan \<Rightarrow> 'o option option" where
  "recv_outcome ch = (case oc_queue ch of [] \<Rightarrow> None | x # _ \<Rightarrow> Some (Some x))"

section \<open>The verdicts\<close>

lemma recv_error:
  assumes "\<And>n. CleanEof n \<notin> set (oc_queue ch)"
  shows "recv_outcome ch = None \<or> (\<exists>s. recv_outcome ch = Some (Some (Error s)))"
  using assms
proof (cases "oc_queue ch")
  case (Cons x xs)
  with assms show ?thesis by (cases x) (auto simp: recv_outcome_def)
qed (simp add: recv_outcome_def)

lemma cancel_verdict:
  assumes "\<And>n. CleanEof n \<notin> set (oc_queue ch)"
  shows "client_cancel_resets_stream tsend req (recv_outcome ch) (\<lambda>c. Return ()) client \<noteq>
      Panic ''cancelled upload must reset the stream'' \<and>
    (client_cancel_resets_stream tsend req (recv_outcome ch) (\<lambda>c. Return ()) client = Return () \<longleftrightarrow>
      (\<exists>resp c. tsend req client = (Some (Ok resp), c)) \<and>
      (\<exists>e. recv_outcome ch = Some (Some (Error e)) \<and> sublist ''H3_REQUEST_CANCELLED'' e))"
  using recv_error [OF assms]
  by (auto simp: client_cancel_resets_stream_def split: option.splits sum.splits prod.splits if_splits)

lemma body_error_verdict:
  assumes "\<And>n. CleanEof n \<notin> set (oc_queue ch)"
  shows "client_body_error_resets_stream tsend req (recv_outcome ch) (\<lambda>c. Return ()) client \<noteq>
      Panic ''interrupted body must reset the stream'' \<and>
    (client_body_error_resets_stream tsend req (recv_outcome ch) (\<lambda>c. Return ()) client = Return () \<longleftrightarrow>
      (\<exists>resp c. tsend req client = (Some (Ok resp), c)) \<and>
      (\<exists>e. recv_outcome ch = Some (Some (Error e)) \<and> sublist ''H3_INTERNAL_ERROR'' e))"
  using recv_error [OF assms]
  by (auto simp: client_body_error_resets_stream_def split: option.splits sum.splits prod.splits if_splits)

text \<open>
  What the test of a cancelled upload says. The body of the request never ends; however the sender
  and the reading task are scheduled, and whenever the sender is dropped, the test never sees a clean end of the request body. It passes if
  and only if its request was answered and the server has reported an error whose text contains the code of the reset.
\<close>

theorem cancelled_upload_test:
  assumes "ops_ok ops status sent frames" "status w \<noteq> Send_fin" "sent w = []"
    and "bo_poll_frame ops = OneFrameThenPending_poll_frame"
    and "(client_body_moves ops)\<^sup>*\<^sup>* (send_h3_client_body w \<lparr>op_sent = False\<rparr> cancel) f"
    and "recv_ok rops rbytes rtrailers rfin" "carries status sent rbytes rtrailers rfin (client_body_drop ops f) r"
    and "rtranclp (read_task_step (server_poll_frame rops) drop_body describe)
      (snd (spawn_read_handler (H3IncomingServer_new r)), \<lparr>oc_queue = [], oc_open = b\<rparr>) s"
  shows "client_cancel_resets_stream tsend req (recv_outcome (snd s)) (\<lambda>c. Return ()) client \<noteq>
      Panic ''cancelled upload must reset the stream'' \<and>
    (client_cancel_resets_stream tsend req (recv_outcome (snd s)) (\<lambda>c. Return ()) client = Return () \<longleftrightarrow>
      (\<exists>resp c. tsend req client = (Some (Ok resp), c)) \<and>
      (\<exists>e. recv_outcome (snd s) = Some (Some (Error e)) \<and> sublist ''H3_REQUEST_CANCELLED'' e))"
  by (rule cancel_verdict, rule pending_upload_never_clean [OF assms])

text \<open>The same of the test whose body fails, and the verdict on a body that was read to its end.\<close>

theorem failing_upload_test:
  assumes "ops_ok ops status sent frames" "status w \<noteq> Send_fin" "sent w = []"
    and "bo_poll_frame ops = as_source (FailAfterOneFrame_poll_frame sleep poll_delay)"
    and "(client_body_moves ops)\<^sup>*\<^sup>* (send_h3_client_body w fail_start cancel) f"
    and "recv_ok rops rbytes rtrailers rfin" "carries status sent rbytes rtrailers rfin (client_body_drop ops f) r"
    and "rtranclp (read_task_step (server_poll_frame rops) drop_body describe)
      (snd (spawn_read_handler (H3IncomingServer_new r)), \<lparr>oc_queue = [], oc_open = b\<rparr>) s"
  shows "client_body_error_resets_stream tsend req (recv_outcome (snd s)) (\<lambda>c. Return ()) client \<noteq>
      Panic ''interrupted body must reset the stream''"
proof -
  have e: "endless_source (bo_poll_frame ops) fail_armed" unfolding assms(4) by unfold_locales
  have "CleanEof n \<notin> set (oc_queue (snd s))" for n
    using endless_upload_never_clean [OF e fail_start_armed assms(1-3,5-7) assms(8) [unfolded spawn_read_handler_def snd_conv]] by simp
  then show ?thesis by (rule body_error_verdict [THEN conjunct1])
qed

lemma normal_upload_verdict:
  assumes "tsend req client = (Some (Ok resp), c)" "success resp" "body_bytes fs \<noteq> []"
  shows "normal_upload_completes_cleanly tsend success req (Some (Some (CleanEof (length fs)))) finish client = finish c"
  using assms by (cases fs) (auto simp: normal_upload_completes_cleanly_def)

text \<open>A cancelled upload whose reset the server reads.\<close>

definition pending_ops_sample :: "(OneFrameThenPending, nat, sample_stream, string, string, bool) client_body_ops" where
  "pending_ops_sample = \<lparr>bo_poll_frame = OneFrameThenPending_poll_frame, bo_poll_send = sample_poll_send,
     bo_stop_stream = sample_stop, bo_drop_stream = sample_drop, cb_poll_cancel = (\<lambda>c. (c, c))\<rparr>"

definition pending_frames :: "OneFrameThenPending \<Rightarrow> nat frame list" where
  "pending_frames b = (if op_sent b then [] else [FData (replicate 512 7)])"

lemma pending_body_ok: "body_ok OneFrameThenPending_poll_frame pending_frames"
  by (auto simp: body_ok_def OneFrameThenPending_poll_frame_def pending_frames_def)

theorem cancelled_upload_test_witness:
  "\<exists>f s. (client_body_moves pending_ops_sample)\<^sup>*\<^sup>* (send_h3_client_body (Send_open, []) \<lparr>op_sent = False\<rparr> False) f \<and>
    rtranclp (read_task_step (server_poll_frame sample_recv_ops) (server_incoming_drop sample_recv_ops)
        (\<lambda>e. ErrNode e ''H3_REQUEST_CANCELLED'' None))
      (snd (spawn_read_handler (H3IncomingServer_new
        \<lparr>sr_chunks = [[7, 7]], sr_trailers = [], sr_fin = False, sr_stopped = None\<rparr>)),
       \<lparr>oc_queue = [], oc_open = True\<rparr>) s \<and>
    client_cancel_resets_stream (\<lambda>q c. (Some (Ok ()) :: (unit + unit) option, c)) () (recv_outcome (snd s)) (\<lambda>c. Return ()) () = Return ()"
proof -
  let ?r = "\<lparr>sr_chunks = [[7, 7]], sr_trailers = [], sr_fin = False, sr_stopped = None\<rparr>"
  let ?d = "\<lambda>e. ErrNode e ''H3_REQUEST_CANCELLED'' None" and ?ch = "\<lparr>oc_queue = [], oc_open = True\<rparr> :: ReadOutcome outcome_chan"
  let ?j = "\<lparr>is_s = ?r\<lparr>sr_chunks := []\<rparr>, is_data_done = True, is_finished = False\<rparr>"
  let ?p = "read_task_poll (server_poll_frame sample_recv_ops) (server_incoming_drop sample_recv_ops) ?d"
  let ?s = "(Read_done (?r\<lparr>sr_chunks := []\<rparr>), \<lparr>oc_queue = [Error ''reset | H3_REQUEST_CANCELLED''], oc_open = True\<rparr>)"
  note d = frame_loop.simps server_poll_frame_def H3IncomingServer_new_def sample_recv_ops_def buf_bytes_def
    server_incoming_drop_def send_outcome_def
  have m: "(client_body_moves pending_ops_sample)\<^sup>*\<^sup>* (send_h3_client_body (Send_open, []) \<lparr>op_sent = False\<rparr> False)
      (send_h3_client_body (Send_open, []) \<lparr>op_sent = False\<rparr> False)" by simp
  have ok: "ops_ok pending_ops_sample fst snd pending_frames"
    by (simp add: pending_ops_sample_def pending_body_ok sample_half_ok)
  have c: "carries fst snd (\<lambda>r. concat (sr_chunks r)) sr_trailers sr_fin
      (client_body_drop pending_ops_sample (send_h3_client_body (Send_open, []) \<lparr>op_sent = False\<rparr> False)) ?r"
    by (simp add: carries_def)
  have p1: "?p (Reading (H3IncomingServer_new ?r) 0) ?ch = Some (Pending, Reading ?j 1, ?ch)" by (simp add: d)
  have p2: "?p (Reading ?j 1) ?ch = Some (Ready (), fst ?s, snd ?s)" by (simp add: d)
  have run: "rtranclp (read_task_step (server_poll_frame sample_recv_ops) (server_incoming_drop sample_recv_ops) ?d)
      (snd (spawn_read_handler (H3IncomingServer_new ?r)), ?ch) ?s"
    unfolding spawn_read_handler_def snd_conv
    using read_two_polls [OF p1 p2] by simp
  have "\<exists>e. recv_outcome (snd ?s) = Some (Some (Error e)) \<and> sublist ''H3_REQUEST_CANCELLED'' e"
    using sublist_appendI [of "''H3_REQUEST_CANCELLED''" "''reset | ''" "[]"] by (simp add: recv_outcome_def)
  with cancelled_upload_test [OF ok _ _ _ m sample_recv_ok c run,
      of "\<lambda>q c. (Some (Ok ()) :: (unit + unit) option, c)" "()" "()"]
  have "client_cancel_resets_stream (\<lambda>q c. (Some (Ok ()) :: (unit + unit) option, c)) () (recv_outcome (snd ?s)) (\<lambda>c. Return ()) () = Return ()"
    by (simp add: pending_ops_sample_def)
  with m run show ?thesis by blast
qed

end
