(* ===== verification/AxumTests.thy ===== *)
theory AxumTests
  imports Serve ServerIncoming
begin

text \<open>
  The tests of \<open>tonic-h3-tests/src/axum.rs\<close>: which closes of a connection are benign, and that a request body the handler ignores is
  stopped without an error.
\<close>

section \<open>Benign closes\<close>

text \<open>A close by the transport; its error is not one of HTTP/3.\<close>

definition transport_close :: "64 word \<Rightarrow> connection_error" where
  "transport_close code = Remote_undefined False (Some (ConnectionClosed code))"

definition INTERNAL_ERROR :: "64 word" where
  "INTERNAL_ERROR = 1"

definition only_transport_no_error_is_benign :: "bool \<Rightarrow> unit outcome" where
  "only_transport_no_error_is_benign quinn =
     (if \<not> is_benign_connection_close quinn (transport_close TransportErrorCode_NO_ERROR)
      then Panic ''assertion failed: NO_ERROR is benign''
      else if is_benign_connection_close quinn (transport_close INTERNAL_ERROR)
      then Panic ''assertion failed: INTERNAL_ERROR is not benign''
      else Return ())"

section \<open>An ignored request body\<close>

text \<open>The handler of the test reads nothing of its request.\<close>

definition root :: bytes where
  "root = map (of_nat \<circ> of_char) ''Hello, World from axum!''"

text \<open>\<open>while let Some(data) = response.recv_data().await.unwrap() { body.extend_from_slice(..) }\<close>, over what is received.\<close>

fun read_response :: "('e + bytes) list \<Rightarrow> bytes \<Rightarrow> bytes outcome" where
  "read_response [] body = Return body"
| "read_response (Ok data # rest) body = read_response rest (body @ data)"
| "read_response (Err e # rest) body = Panic ''response.recv_data().await.unwrap()''"

datatype send_error = RemoteTerminate h3_code | Other_send_error

text \<open>
  The loop that sends until the peer stops it; \<open>sends\<close> is how many sends the second leaves time for.
\<close>

fun stop_loop :: "('s \<Rightarrow> (send_error + unit) \<times> 's) \<Rightarrow> nat \<Rightarrow> 's \<Rightarrow> send_error option" where
  "stop_loop send_data 0 s = None"
| "stop_loop send_data (Suc n) s =
     (case send_data s of (Ok _, s') \<Rightarrow> stop_loop send_data n s' | (Err e, s') \<Rightarrow> Some e)"

definition ignored_request_body_is_stopped ::
  "nat \<Rightarrow> ('e + bytes) list \<Rightarrow> ('s \<Rightarrow> (send_error + unit) \<times> 's) \<Rightarrow> nat \<Rightarrow> 's \<Rightarrow> unit outcome" where
  "ignored_request_body_is_stopped status response send_data in_time stream =
     (if status \<noteq> 200 then Panic ''assertion failed: status == OK''
      else (case read_response response [] of
              Panic m \<Rightarrow> Panic m
            | Return body \<Rightarrow>
                if body \<noteq> root then Panic ''assertion failed: body''
                else (case stop_loop send_data in_time stream of
                        None \<Rightarrow> Panic ''server did not stop the ignored request body''
                      | Some (RemoteTerminate code) \<Rightarrow>
                          if code = H3_NO_ERROR then Return () else Panic ''assertion failed: code == H3_NO_ERROR''
                      | Some Other_send_error \<Rightarrow> Panic ''expected remote stream termination'')))"

section \<open>Results\<close>

lemma transport_close_benign: "is_benign_connection_close quinn (transport_close code) \<longleftrightarrow> quinn \<and> code = TransportErrorCode_NO_ERROR"
  by (cases quinn) (simp_all add: is_benign_connection_close_def transport_close_def)

lemma benign_test_passes: "only_transport_no_error_is_benign quinn = Return () \<longleftrightarrow> quinn"
  by (simp add: only_transport_no_error_is_benign_def transport_close_benign TransportErrorCode_NO_ERROR_def INTERNAL_ERROR_def)

text \<open>
  What is relied on of the transport: the code that a receiver stops a stream with (\<open>stop_code\<close>) is what the sends of its peer fail with, after
  some that went through before the stop has arrived (\<open>lag\<close>).
\<close>

definition stops_peer :: "('r, 'buf, 'h, 'se) recv_ops \<Rightarrow> ('r \<Rightarrow> h3_code option) \<Rightarrow> bool" where
  "stops_peer rops stop_code \<longleftrightarrow> (\<forall>c r. stop_code r = None \<longrightarrow> stop_code (ro_stop_sending rops c r) = Some c)"

fun fails_after :: "('s \<Rightarrow> (send_error + unit) \<times> 's) \<Rightarrow> nat \<Rightarrow> h3_code \<Rightarrow> 's \<Rightarrow> bool" where
  "fails_after send_data 0 code s \<longleftrightarrow> fst (send_data s) = Err (RemoteTerminate code)"
| "fails_after send_data (Suc n) code s \<longleftrightarrow> (\<exists>s'. send_data s = (Ok (), s') \<and> fails_after send_data n code s')"

lemma stop_loop_ends: "fails_after send_data lag code s \<Longrightarrow> lag < n \<Longrightarrow> stop_loop send_data n s = Some (RemoteTerminate code)"
proof (induction lag arbitrary: s n)
  case 0
  then obtain m where "n = Suc m" by (cases n) auto
  with 0 show ?case by (auto split: prod.splits)
next
  case (Suc lag)
  then obtain m where "n = Suc m" "lag < m" by (cases n) auto
  with Suc show ?case by auto
qed

lemma read_response_oks: "read_response (map Ok cs) body = Return (body @ concat cs)"
  by (induction cs arbitrary: body) auto

text \<open>
  A request body that the handler ignores is stopped without an error. The handler may read any part of the body of its request and drops it
  before its end; the client that goes on sending is then stopped with \<open>H3_NO_ERROR\<close>, and the test passes if the stop
  arrives within the sends that it has time for, whatever the chunks of the response are.
\<close>

theorem ignored_body_is_stopped:
  assumes "recv_ok rops rbytes rtrailers rfin" "reads (server_poll_frame rops) (H3IncomingServer_new r) fs i"
    and "stops_peer rops stop_code" "stop_code (is_s i) = None"
    and "stop_code (server_incoming_drop rops i) = Some code" "fails_after send_data lag code s" "lag < in_time"
    and "concat chunks = root"
  shows "code = H3_NO_ERROR \<and> ignored_request_body_is_stopped 200 (map Ok chunks) send_data in_time s = Return ()"
proof -
  have i: "server_incoming_inv rops rbytes rtrailers rfin (H3IncomingServer_new r)" "\<not> is_finished (H3IncomingServer_new r)"
    using assms(1) by (simp_all add: server_incoming_inv_def H3IncomingServer_new_def)
  from si.early_drop_stops [OF assms(2) i] assms(3-5) have c: "code = H3_NO_ERROR" by (simp add: stops_peer_def)
  from stop_loop_ends [OF assms(6,7)] assms(8) c show ?thesis
    by (simp add: ignored_request_body_is_stopped_def read_response_oks)
qed

text \<open>A client whose third send is the first one to fail.\<close>

definition sample_send :: "nat \<Rightarrow> (send_error + unit) \<times> nat" where
  "sample_send n = (if n = 0 then Err (RemoteTerminate H3_NO_ERROR) else Ok (), n - 1)"

theorem ignored_body_is_stopped_witness:
  "ignored_request_body_is_stopped 200 [Ok (take 5 root), Ok (drop 5 root) :: string + bytes] sample_send 10 2 = Return ()"
proof -
  let ?r = "\<lparr>sr_chunks = [[7]], sr_trailers = [], sr_fin = False, sr_stopped = None\<rparr>"
  let ?i = "H3IncomingServer_new ?r"
  have s: "stops_peer sample_recv_ops sr_stopped" by (simp add: stops_peer_def sample_recv_ops_def)
  have "reads (server_poll_frame sample_recv_ops) ?i [] ?i" by (rule reads_nil)
  moreover have "sr_stopped (is_s ?i) = None" "sr_stopped (server_incoming_drop sample_recv_ops ?i) = Some H3_NO_ERROR"
    by (simp_all add: H3IncomingServer_new_def server_incoming_drop_def sample_recv_ops_def)
  moreover have "fails_after sample_send 2 H3_NO_ERROR 2" by (simp add: sample_send_def eval_nat_numeral)
  ultimately show ?thesis
    using ignored_body_is_stopped [OF sample_recv_ok _ s, of ?r "[]" ?i H3_NO_ERROR sample_send 2 2 10 "[take 5 root, drop 5 root]"]
    by simp
qed

end
