(* ===== verification/GoawayServer.thy ===== *)
theory GoawayServer
  imports H3Prelude
begin

text \<open>
  The server of \<open>tonic-h3-tests/src/goaway_reconnect.rs\<close> that the reconnect tests run against: its first connection serves
  one request, sends a GOAWAY and is then held open, every later connection is served until it ends. The peer
  behaviour that \<open>goaway_reconnects\<close> of theory \<open>ConnLifecycle\<close> starts from is produced here.
\<close>

section \<open>The libraries\<close>

text \<open>
  Operations of quinn, of the server side of h3 and of the cancellation token. \<open>go_rng\<close> is the order in which a \<open>select!\<close>
  polls its two branches.
\<close>

record ('inc, 'qc, 'hs, 'c, 'rq, 'st, 'w) goaway_ops =
  go_poll_accept_incoming :: "'w \<Rightarrow> 'inc option poll \<times> 'w"
  go_poll_incoming :: "'inc \<Rightarrow> 'w \<Rightarrow> (unit + 'qc) poll \<times> 'inc \<times> 'w"
  go_h3_new :: "'qc \<Rightarrow> 'hs"
  go_poll_h3_new :: "'hs \<Rightarrow> 'w \<Rightarrow> (unit + 'c) poll \<times> 'hs \<times> 'w"
  go_poll_accept :: "'c \<Rightarrow> 'w \<Rightarrow> (unit + 'rq option) poll \<times> 'c \<times> 'w"
  go_poll_resolve :: "'rq \<Rightarrow> 'w \<Rightarrow> (unit + 'st) poll \<times> 'rq \<times> 'w"
  go_poll_send_response :: "nat \<Rightarrow> 'st \<Rightarrow> 'w \<Rightarrow> (unit + unit) poll \<times> 'st \<times> 'w"
  go_poll_finish :: "'st \<Rightarrow> 'w \<Rightarrow> (unit + unit) poll \<times> 'st \<times> 'w"
  go_poll_shutdown :: "nat \<Rightarrow> 'c \<Rightarrow> 'w \<Rightarrow> (unit + unit) poll \<times> 'c \<times> 'w"
  go_poll_cancelled :: "'w \<Rightarrow> bool \<times> 'w"
  go_rng :: "'w \<Rightarrow> bool \<times> 'w"

text \<open>What a connection has done, as its peer sees it.\<close>

datatype conn_event = Accepted | Answered nat | Goaway nat

section \<open>One request\<close>

text \<open>\<open>serve_one_ok\<close> at its suspension points.\<close>

datatype ('rq, 'st) serve_one = SO_accept | SO_resolve 'rq | SO_send 'st | SO_finish 'st | SO_done

type_synonym ('rq, 'st, 'c, 'w) one_result = "bool poll \<times> ('rq, 'st) serve_one \<times> 'c \<times> conn_event list \<times> 'w"

definition one_finish ::
  "('inc, 'qc, 'hs, 'c, 'rq, 'st, 'w) goaway_ops \<Rightarrow> 'st \<Rightarrow> 'c \<Rightarrow> 'w \<Rightarrow> ('rq, 'st, 'c, 'w) one_result" where
  "one_finish ops stream c w0 =
     (case go_poll_finish ops stream w0 of
        (Pending, stream', w) \<Rightarrow> (Pending, SO_finish stream', c, [], w)
      | (Ready _, stream', w) \<Rightarrow> (Ready True, SO_done, c, [], w))"

definition one_send ::
  "('inc, 'qc, 'hs, 'c, 'rq, 'st, 'w) goaway_ops \<Rightarrow> 'st \<Rightarrow> 'c \<Rightarrow> 'w \<Rightarrow> ('rq, 'st, 'c, 'w) one_result" where
  "one_send ops stream c w0 =
     (case go_poll_send_response ops 200 stream w0 of
        (Pending, stream', w) \<Rightarrow> (Pending, SO_send stream', c, [], w)
      | (Ready (Err _), stream', w) \<Rightarrow> (Ready True, SO_done, c, [], w)
      | (Ready (Ok _), stream', w) \<Rightarrow>
          (case one_finish ops stream' c w of (r, f, c', ev, w') \<Rightarrow> (r, f, c', Answered 200 # ev, w')))"

definition one_resolve ::
  "('inc, 'qc, 'hs, 'c, 'rq, 'st, 'w) goaway_ops \<Rightarrow> 'rq \<Rightarrow> 'c \<Rightarrow> 'w \<Rightarrow> ('rq, 'st, 'c, 'w) one_result" where
  "one_resolve ops resolver c w0 =
     (case go_poll_resolve ops resolver w0 of
        (Pending, resolver', w) \<Rightarrow> (Pending, SO_resolve resolver', c, [], w)
      | (Ready (Ok stream), resolver', w) \<Rightarrow> one_send ops stream c w
      | (Ready (Err _), resolver', w) \<Rightarrow> (Ready True, SO_done, c, [], w))"

definition one_accept ::
  "('inc, 'qc, 'hs, 'c, 'rq, 'st, 'w) goaway_ops \<Rightarrow> 'c \<Rightarrow> 'w \<Rightarrow> ('rq, 'st, 'c, 'w) one_result" where
  "one_accept ops c w0 =
     (case go_poll_accept ops c w0 of
        (Pending, c', w) \<Rightarrow> (Pending, SO_accept, c', [], w)
      | (Ready (Ok (Some resolver)), c', w) \<Rightarrow>
          (case one_resolve ops resolver c' w of (r, f, c2, ev, w') \<Rightarrow> (r, f, c2, Accepted # ev, w'))
      | (Ready (Ok None), c', w) \<Rightarrow> (Ready False, SO_done, c', [], w)
      | (Ready (Err _), c', w) \<Rightarrow> (Ready False, SO_done, c', [], w))"

fun serve_one_ok ::
  "('inc, 'qc, 'hs, 'c, 'rq, 'st, 'w) goaway_ops \<Rightarrow> ('rq, 'st) serve_one \<Rightarrow> 'c \<Rightarrow> 'w \<Rightarrow> ('rq, 'st, 'c, 'w) one_result" where
  "serve_one_ok ops SO_accept c w = one_accept ops c w"
| "serve_one_ok ops (SO_resolve resolver) c w = one_resolve ops resolver c w"
| "serve_one_ok ops (SO_send stream) c w = one_send ops stream c w"
| "serve_one_ok ops (SO_finish stream) c w = one_finish ops stream c w"
| "serve_one_ok ops SO_done c w = (Ready True, SO_done, c, [], w)"

lemmas one_defs = one_finish_def one_send_def one_resolve_def one_accept_def

section \<open>A connection\<close>

text \<open>
  A poll of \<open>serve_forever\<close>: the \<open>select!\<close> of the token and a \<open>serve_one_ok\<close>, repeated. A connection with requests
  without end keeps it running, which is the value \<open>None\<close>.
\<close>

datatype ('rq, 'st) turn = Turn_pending "('rq, 'st) serve_one" | Turn_again | Turn_break

definition forever_serve where
  "forever_serve ops f c w0 =
     (case serve_one_ok ops f c w0 of
        (Pending, f', c', ev, w) \<Rightarrow> (Turn_pending f', c', ev, w)
      | (Ready served, f', c', ev, w) \<Rightarrow> (if served then Turn_again else Turn_break, c', ev, w))"

definition forever_turn where
  "forever_turn ops f c w0 =
     (case go_rng ops w0 of
        (True, w1) \<Rightarrow>
          (case go_poll_cancelled ops w1 of
             (True, w) \<Rightarrow> (Turn_break, c, [], w)
           | (False, w) \<Rightarrow> forever_serve ops f c w)
      | (False, w1) \<Rightarrow>
          (case forever_serve ops f c w1 of
             (Turn_pending f', c', ev, w) \<Rightarrow>
               (case go_poll_cancelled ops w of
                  (True, w') \<Rightarrow> (Turn_break, c', ev, w')
                | (False, w') \<Rightarrow> (Turn_pending f', c', ev, w'))
           | (t, c', ev, w) \<Rightarrow> (t, c', ev, w)))"

partial_function (option) serve_forever ::
  "('inc, 'qc, 'hs, 'c, 'rq, 'st, 'w) goaway_ops \<Rightarrow> ('rq, 'st) serve_one \<Rightarrow> 'c \<Rightarrow> conn_event list \<Rightarrow> 'w \<Rightarrow>
   (unit poll \<times> ('rq, 'st) serve_one \<times> 'c \<times> conn_event list \<times> 'w) option" where
  "serve_forever ops f c evs w0 =
     (case forever_turn ops f c w0 of
        (Turn_pending f', c', ev, w) \<Rightarrow> Some (Pending, f', c', evs @ ev, w)
      | (Turn_again, c', ev, w) \<Rightarrow> serve_forever ops SO_accept c' (evs @ ev) w
      | (Turn_break, c', ev, w) \<Rightarrow> Some (Ready (), SO_done, c', evs @ ev, w))"

text \<open>The task of a connection.\<close>

datatype ('inc, 'hs, 'c, 'rq, 'st) conn_fut =
    GC_incoming 'inc
  | GC_handshake 'hs
  | GC_first "('rq, 'st) serve_one" 'c
  | GC_shutdown 'c
  | GC_hold 'c
  | GC_forever "('rq, 'st) serve_one" 'c
  | GC_end

type_synonym ('inc, 'hs, 'c, 'rq, 'st, 'w) conn_result =
  "(unit poll \<times> ('inc, 'hs, 'c, 'rq, 'st) conn_fut \<times> conn_event list \<times> 'w) option"

definition conn_hold ::
  "('inc, 'qc, 'hs, 'c, 'rq, 'st, 'w) goaway_ops \<Rightarrow> 'c \<Rightarrow> conn_event list \<Rightarrow> 'w \<Rightarrow> ('inc, 'hs, 'c, 'rq, 'st, 'w) conn_result" where
  "conn_hold ops c ev w0 =
     (case go_poll_cancelled ops w0 of
        (True, w) \<Rightarrow> Some (Ready (), GC_end, ev, w)
      | (False, w) \<Rightarrow> Some (Pending, GC_hold c, ev, w))"

definition conn_shutdown ::
  "('inc, 'qc, 'hs, 'c, 'rq, 'st, 'w) goaway_ops \<Rightarrow> 'c \<Rightarrow> conn_event list \<Rightarrow> 'w \<Rightarrow> ('inc, 'hs, 'c, 'rq, 'st, 'w) conn_result" where
  "conn_shutdown ops c ev w0 =
     (case go_poll_shutdown ops 0 c w0 of
        (Pending, c', w) \<Rightarrow> Some (Pending, GC_shutdown c', ev, w)
      | (Ready _, c', w) \<Rightarrow> conn_hold ops c' (ev @ [Goaway 0]) w)"

definition conn_first ::
  "('inc, 'qc, 'hs, 'c, 'rq, 'st, 'w) goaway_ops \<Rightarrow> ('rq, 'st) serve_one \<Rightarrow> 'c \<Rightarrow> 'w \<Rightarrow> ('inc, 'hs, 'c, 'rq, 'st, 'w) conn_result" where
  "conn_first ops f c w0 =
     (case serve_one_ok ops f c w0 of
        (Pending, f', c', ev, w) \<Rightarrow> Some (Pending, GC_first f' c', ev, w)
      | (Ready _, f', c', ev, w) \<Rightarrow> conn_shutdown ops c' ev w)"

definition conn_forever ::
  "('inc, 'qc, 'hs, 'c, 'rq, 'st, 'w) goaway_ops \<Rightarrow> ('rq, 'st) serve_one \<Rightarrow> 'c \<Rightarrow> 'w \<Rightarrow> ('inc, 'hs, 'c, 'rq, 'st, 'w) conn_result" where
  "conn_forever ops f c w0 =
     (case serve_forever ops f c [] w0 of
        None \<Rightarrow> None
      | Some (Pending, f', c', ev, w) \<Rightarrow> Some (Pending, GC_forever f' c', ev, w)
      | Some (Ready _, f', c', ev, w) \<Rightarrow> Some (Ready (), GC_end, ev, w))"

definition conn_handshake ::
  "('inc, 'qc, 'hs, 'c, 'rq, 'st, 'w) goaway_ops \<Rightarrow> bool \<Rightarrow> 'hs \<Rightarrow> 'w \<Rightarrow> ('inc, 'hs, 'c, 'rq, 'st, 'w) conn_result" where
  "conn_handshake ops is_first hs w0 =
     (case go_poll_h3_new ops hs w0 of
        (Pending, hs', w) \<Rightarrow> Some (Pending, GC_handshake hs', [], w)
      | (Ready (Err _), hs', w) \<Rightarrow> Some (Ready (), GC_end, [], w)
      | (Ready (Ok c), hs', w) \<Rightarrow> if is_first then conn_first ops SO_accept c w else conn_forever ops SO_accept c w)"

fun goaway_conn_poll ::
  "('inc, 'qc, 'hs, 'c, 'rq, 'st, 'w) goaway_ops \<Rightarrow> bool \<Rightarrow> ('inc, 'hs, 'c, 'rq, 'st) conn_fut \<Rightarrow> 'w \<Rightarrow>
   ('inc, 'hs, 'c, 'rq, 'st, 'w) conn_result" where
  "goaway_conn_poll ops is_first (GC_incoming incoming) w0 =
     (case go_poll_incoming ops incoming w0 of
        (Pending, incoming', w) \<Rightarrow> Some (Pending, GC_incoming incoming', [], w)
      | (Ready (Err _), incoming', w) \<Rightarrow> Some (Ready (), GC_end, [], w)
      | (Ready (Ok qc), incoming', w) \<Rightarrow> conn_handshake ops is_first (go_h3_new ops qc) w)"
| "goaway_conn_poll ops is_first (GC_handshake hs) w = conn_handshake ops is_first hs w"
| "goaway_conn_poll ops is_first (GC_first f c) w = conn_first ops f c w"
| "goaway_conn_poll ops is_first (GC_shutdown c) w = conn_shutdown ops c [] w"
| "goaway_conn_poll ops is_first (GC_hold c) w = conn_hold ops c [] w"
| "goaway_conn_poll ops is_first (GC_forever f c) w = conn_forever ops f c w"
| "goaway_conn_poll ops is_first GC_end w = Some (Ready (), GC_end, [], w)"

section \<open>The accept loop\<close>

text \<open>One turn of the loop of \<open>run_goaway_server\<close>, with the number of connections taken so far.\<close>

datatype 'inc accept_turn = GA_pending | GA_break | GA_spawn 'inc bool

definition goaway_accept ::
  "('inc, 'qc, 'hs, 'c, 'rq, 'st, 'w) goaway_ops \<Rightarrow> nat \<Rightarrow> 'w \<Rightarrow> 'inc accept_turn \<times> nat \<times> 'w" where
  "goaway_accept ops idx w0 =
     (case go_poll_accept_incoming ops w0 of
        (Pending, w) \<Rightarrow> (GA_pending, idx, w)
      | (Ready None, w) \<Rightarrow> (GA_break, idx, w)
      | (Ready (Some incoming), w) \<Rightarrow> (GA_spawn incoming (idx + 1 = 1), idx + 1, w))"

definition goaway_turn ::
  "('inc, 'qc, 'hs, 'c, 'rq, 'st, 'w) goaway_ops \<Rightarrow> nat \<Rightarrow> 'w \<Rightarrow> 'inc accept_turn \<times> nat \<times> 'w" where
  "goaway_turn ops idx w0 =
     (case go_rng ops w0 of
        (True, w1) \<Rightarrow>
          (case go_poll_cancelled ops w1 of (True, w) \<Rightarrow> (GA_break, idx, w) | (False, w) \<Rightarrow> goaway_accept ops idx w)
      | (False, w1) \<Rightarrow>
          (case goaway_accept ops idx w1 of
             (GA_pending, idx', w) \<Rightarrow>
               (case go_poll_cancelled ops w of (True, w') \<Rightarrow> (GA_break, idx', w') | (False, w') \<Rightarrow> (GA_pending, idx', w'))
           | (t, idx', w) \<Rightarrow> (t, idx', w)))"

text \<open>The loop with the tasks it has spawned. A task is kept with its flag and with what it has done.\<close>

record ('inc, 'hs, 'c, 'rq, 'st, 'w) goaway_sys =
  gs_idx :: nat
  gs_running :: bool
  gs_tasks :: "(bool \<times> ('inc, 'hs, 'c, 'rq, 'st) conn_fut \<times> conn_event list) list"
  gs_world :: 'w

inductive goaway_step for ops where
  gs_accept: "gs_running s \<Longrightarrow> goaway_turn ops (gs_idx s) (gs_world s) = (t, idx, w) \<Longrightarrow>
     goaway_step ops s (s\<lparr>gs_idx := idx, gs_running := (t \<noteq> GA_break), gs_world := w,
       gs_tasks := (case t of GA_spawn incoming is_first \<Rightarrow> gs_tasks s @ [(is_first, GC_incoming incoming, [])] | _ \<Rightarrow> gs_tasks s)\<rparr>)"
| gs_task: "i < length (gs_tasks s) \<Longrightarrow> gs_tasks s ! i = (is_first, fut, log) \<Longrightarrow>
     goaway_conn_poll ops is_first fut (gs_world s) = Some (r, fut', ev, w) \<Longrightarrow>
     goaway_step ops s (s\<lparr>gs_tasks := (gs_tasks s)[i := (is_first, fut', log @ ev)], gs_world := w\<rparr>)"
| gs_net: "goaway_step ops s (s\<lparr>gs_world := w\<rparr>)"

definition goaway_init where
  "goaway_init s \<longleftrightarrow> gs_idx s = 0 \<and> gs_running s \<and> gs_tasks s = []"

section \<open>The invariant\<close>

definition quiet :: "conn_event list \<Rightarrow> bool" where
  "quiet l \<longleftrightarrow> (\<forall>k. Goaway k \<notin> set l)"

text \<open>At most one request, then the GOAWAY.\<close>

definition goaway_last :: "conn_event list \<Rightarrow> bool" where
  "goaway_last log \<longleftrightarrow> (\<exists>l. log = l @ [Goaway 0] \<and> quiet l \<and> count_list l Accepted \<le> 1)"

lemma quiet_simps [simp]:
  "quiet []" "quiet (e # l) = ((\<forall>k. e \<noteq> Goaway k) \<and> quiet l)" "quiet (l @ l') = (quiet l \<and> quiet l')"
  by (auto simp: quiet_def)

fun first_ok :: "('inc, 'hs, 'c, 'rq, 'st) conn_fut \<Rightarrow> conn_event list \<Rightarrow> bool" where
  "first_ok (GC_incoming _) log \<longleftrightarrow> log = []"
| "first_ok (GC_handshake _) log \<longleftrightarrow> log = []"
| "first_ok (GC_first f c) log \<longleftrightarrow> quiet log \<and> count_list log Accepted = (if f = SO_accept then 0 else 1)"
| "first_ok (GC_shutdown c) log \<longleftrightarrow> quiet log \<and> count_list log Accepted \<le> 1"
| "first_ok (GC_hold c) log \<longleftrightarrow> goaway_last log"
| "first_ok (GC_forever f c) log \<longleftrightarrow> False"
| "first_ok GC_end log \<longleftrightarrow> log = [] \<or> goaway_last log"

fun later_ok :: "('inc, 'hs, 'c, 'rq, 'st) conn_fut \<Rightarrow> conn_event list \<Rightarrow> bool" where
  "later_ok (GC_first f c) log \<longleftrightarrow> False"
| "later_ok (GC_shutdown c) log \<longleftrightarrow> False"
| "later_ok (GC_hold c) log \<longleftrightarrow> False"
| "later_ok _ log \<longleftrightarrow> quiet log"

lemma one_events:
  assumes "serve_one_ok ops f c w = (r, f', c', ev, w')"
  shows "quiet ev \<and> count_list ev Accepted \<le> (if f = SO_accept then 1 else 0) \<and>
    (r = Pending \<longrightarrow> (f' = SO_accept \<longrightarrow> f = SO_accept) \<and>
       (f = SO_accept \<longrightarrow> count_list ev Accepted = (if f' = SO_accept then 0 else 1)))"
  using assms
  by (cases f) (auto simp: one_defs split: prod.splits poll.splits sum.splits option.splits)

lemma forever_turn_quiet:
  assumes "forever_turn ops f c w = (t, c', ev, w')"
  shows "quiet ev"
proof -
  have "quiet ev1" if "forever_serve ops f c w1 = (t1, c1, ev1, w2)" for w1 t1 c1 ev1 w2
    using that one_events [of ops f c w1] by (auto simp: forever_serve_def split: prod.splits poll.splits if_splits)
  with assms show ?thesis
    by (fastforce simp: forever_turn_def split: prod.splits bool.splits turn.splits)
qed

lemma serve_forever_quiet:
  assumes "serve_forever ops f c evs w = Some y" "quiet evs"
  shows "quiet (fst (snd (snd (snd y))))"
  using assms(2)
proof (induction rule: serve_forever.raw_induct [OF _ assms(1), consumes 0])
  case (1 loop ops f c evs w y)
  obtain t c' ev w' where t: "forever_turn ops f c w = (t, c', ev, w')" by (metis prod_cases4)
  note q = forever_turn_quiet [OF t]
  show ?case
  proof (cases t)
    case Turn_again
    with t 1(2) have "loop ops SO_accept c' (evs @ ev) w' = Some y" by simp
    from 1(1) [OF this] q 1(3) show ?thesis by simp
  qed (use t q 1(2,3) in auto)
qed

lemma conn_hold_ok: "conn_hold ops c ev w = Some (r, fut, ev', w') \<Longrightarrow> goaway_last (log @ ev) \<Longrightarrow> first_ok fut (log @ ev')"
  by (auto simp: conn_hold_def split: prod.splits bool.splits)

lemma conn_shutdown_ok:
  assumes "conn_shutdown ops c ev w = Some (r, fut, ev', w')" "quiet (log @ ev)" "count_list (log @ ev) Accepted \<le> 1"
  shows "first_ok fut (log @ ev')"
proof (cases "go_poll_shutdown ops 0 c w")
  case (fields x c' w1)
  have l: "goaway_last (log @ ev @ [Goaway 0])"
    unfolding goaway_last_def by (rule exI [of _ "log @ ev"]) (use assms(2,3) in simp)
  from assms fields conn_hold_ok [of ops c' "ev @ [Goaway 0]" w1 r fut ev' w' log] l show ?thesis
    by (cases x) (auto simp: conn_shutdown_def)
qed

lemma conn_first_ok:
  assumes "conn_first ops f c w = Some (r, fut, ev, w')" "first_ok (GC_first f c) log"
  shows "first_ok fut (log @ ev)"
proof -
  obtain x f' c' ev1 w1 where o: "serve_one_ok ops f c w = (x, f', c', ev1, w1)" by (metis prod_cases5)
  note e = one_events [OF o]
  show ?thesis
  proof (cases x)
    case Pending
    with assms o e show ?thesis by (auto simp: conn_first_def split: if_splits)
  next
    case (Ready b)
    with assms(1) o have "conn_shutdown ops c' ev1 w1 = Some (r, fut, ev, w')" by (simp add: conn_first_def)
    then show ?thesis by (rule conn_shutdown_ok) (use assms(2) e in \<open>auto split: if_splits\<close>)
  qed
qed

lemma conn_forever_ok:
  assumes "conn_forever ops f c w = Some (r, fut, ev, w')"
  shows "later_ok fut ev"
  using assms serve_forever_quiet [of ops f c "[]" w]
  by (fastforce simp: conn_forever_def split: option.splits prod.splits poll.splits)

lemma conn_handshake_ok:
  assumes "conn_handshake ops is_first hs w = Some (r, fut, ev, w')"
  shows "if is_first then first_ok fut ev else later_ok fut ev"
proof (cases "go_poll_h3_new ops hs w")
  case (fields x hs' w1)
  have "first_ok fut ([] @ ev)" if "conn_first ops SO_accept c w1 = Some (r, fut, ev, w')" for c
    by (rule conn_first_ok [OF that]) simp
  moreover have "later_ok fut ev" if "conn_forever ops SO_accept c w1 = Some (r, fut, ev, w')" for c
    by (rule conn_forever_ok [OF that])
  ultimately show ?thesis
    using assms fields by (auto simp: conn_handshake_def split: poll.splits sum.splits if_splits)
qed

lemma first_poll_ok:
  assumes "goaway_conn_poll ops True fut w = Some (r, fut', ev, w')" "first_ok fut log"
  shows "first_ok fut' (log @ ev)"
proof (cases fut)
  case (GC_incoming inc)
  with assms show ?thesis
    by (auto split: prod.splits poll.splits sum.splits dest: conn_handshake_ok)
next
  case (GC_handshake hs)
  with assms conn_handshake_ok [of ops True hs] show ?thesis by fastforce
next
  case (GC_first f c)
  with assms have "conn_first ops f c w = Some (r, fut', ev, w')" "first_ok (GC_first f c) log" by simp_all
  then show ?thesis by (rule conn_first_ok)
next
  case (GC_shutdown c)
  with assms conn_shutdown_ok [of ops c "[]"] show ?thesis by auto
next
  case (GC_hold c)
  with assms conn_hold_ok [of ops c "[]"] show ?thesis by auto
qed (use assms in auto)

lemma later_poll_ok:
  assumes "goaway_conn_poll ops False fut w = Some (r, fut', ev, w')" "later_ok fut log"
  shows "later_ok fut' (log @ ev)"
proof -
  have l: "later_ok fut' ev \<Longrightarrow> quiet log \<Longrightarrow> later_ok fut' (log @ ev)" by (cases fut') simp_all
  show ?thesis
  proof (cases fut)
    case (GC_incoming inc)
    with assms l show ?thesis
      by (auto split: prod.splits poll.splits sum.splits dest: conn_handshake_ok)
  next
    case (GC_handshake hs)
    with assms l conn_handshake_ok [of ops False hs] show ?thesis by fastforce
  next
    case (GC_forever f c)
    with assms l conn_forever_ok show ?thesis by fastforce
  qed (use assms in auto)
qed

definition goaway_inv where
  "goaway_inv s \<longleftrightarrow> gs_idx s = length (gs_tasks s) \<and>
     (\<forall>i < length (gs_tasks s). case gs_tasks s ! i of (is_first, fut, log) \<Rightarrow>
        is_first = (i = 0) \<and> (if is_first then first_ok fut log else later_ok fut log))"

lemma goaway_accept_idx:
  assumes "goaway_accept ops idx w = (t, idx', w')"
  shows "case t of GA_spawn incoming is_first \<Rightarrow> idx' = idx + 1 \<and> is_first = (idx = 0) | _ \<Rightarrow> idx' = idx"
  using assms by (auto simp: goaway_accept_def split: prod.splits poll.splits option.splits)

lemma goaway_turn_idx:
  assumes "goaway_turn ops idx w = (t, idx', w')"
  shows "case t of GA_spawn incoming is_first \<Rightarrow> idx' = idx + 1 \<and> is_first = (idx = 0) | _ \<Rightarrow> idx' = idx"
  using assms
  by (auto simp: goaway_turn_def split: prod.splits bool.splits accept_turn.splits dest: goaway_accept_idx)

lemma goaway_inv_step:
  assumes inv: "goaway_inv s" and step: "goaway_step ops s s'"
  shows "goaway_inv s'"
  using step
proof cases
  case (gs_accept t idx w)
  with goaway_turn_idx [OF gs_accept(3)] inv show ?thesis
    by (cases t) (auto simp: goaway_inv_def nth_append less_Suc_eq split: prod.splits)
next
  case (gs_task i is_first fut log r fut' ev w)
  from inv gs_task(2,3) have old: "is_first = (i = 0)" "if is_first then first_ok fut log else later_ok fut log"
    by (auto simp: goaway_inv_def split: prod.splits)
  have "if is_first then first_ok fut' (log @ ev) else later_ok fut' (log @ ev)"
    using old gs_task(4) first_poll_ok [of ops fut] later_poll_ok [of ops fut] by (cases is_first) auto
  with inv gs_task(1,2) old show ?thesis
    by (auto simp: goaway_inv_def nth_list_update split: prod.splits)
qed (use inv in \<open>simp add: goaway_inv_def\<close>)

interpretation gs: invariant_system goaway_init "goaway_step ops" goaway_inv
  for ops :: "('inc, 'qc, 'hs, 'c, 'rq, 'st, 'w) goaway_ops"
  by unfold_locales (simp add: goaway_init_def goaway_inv_def, rule goaway_inv_step)

section \<open>Properties\<close>

text \<open>
  Exactly the first connection is told to go away, once and last. In every reachable state of the accept loop and its
  connection tasks, in whatever order they run, a connection that has sent a GOAWAY is the first one; it is the GOAWAY for
  identifier 0, it is the last thing the connection has done, and at most one request was accepted before it.
\<close>

theorem goaway_only_first:
  assumes "reach goaway_init (goaway_step ops) s" "i < length (gs_tasks s)" "gs_tasks s ! i = (is_first, fut, log)"
    and "Goaway k \<in> set log"
  shows "i = 0 \<and> k = 0 \<and> (\<exists>l. log = l @ [Goaway 0] \<and> (\<forall>m. Goaway m \<notin> set l) \<and> count_list l Accepted \<le> 1)"
proof -
  have t: "is_first = (i = 0)" "if is_first then first_ok fut log else later_ok fut log"
    using gs.reach_inv [OF assms(1)] assms(2,3) by (auto simp: goaway_inv_def split: prod.splits)
  have nq: "\<not> quiet log" using assms(4) by (auto simp: quiet_def)
  then have "is_first" using t(2) by (cases is_first; cases fut) auto
  with t nq have "goaway_last log" by (cases fut) (auto split: if_splits)
  then obtain l where l: "log = l @ [Goaway 0]" "quiet l" "count_list l Accepted \<le> 1" by (auto simp: goaway_last_def)
  with assms(4) have "k = 0" by (auto simp: quiet_def)
  with l t(1) \<open>is_first\<close> show ?thesis by (auto simp: quiet_def)
qed

text \<open>A peer that connects, sends one request and stays; everything is ready at once.\<close>

definition sample_goaway_ops :: "(unit, unit, unit, unit, unit, unit, bool) goaway_ops" where
  "sample_goaway_ops = \<lparr>go_poll_accept_incoming = (\<lambda>w. (Ready (Some ()), w)), go_poll_incoming = (\<lambda>i w. (Ready (Ok ()), i, w)),
     go_h3_new = (\<lambda>q. q), go_poll_h3_new = (\<lambda>h w. (Ready (Ok ()), h, w)), go_poll_accept = (\<lambda>c w. (Ready (Ok (Some ())), c, w)),
     go_poll_resolve = (\<lambda>q w. (Ready (Ok ()), q, w)), go_poll_send_response = (\<lambda>n s w. (Ready (Ok ()), s, w)),
     go_poll_finish = (\<lambda>s w. (Ready (Ok ()), s, w)), go_poll_shutdown = (\<lambda>n c w. (Ready (Ok ()), c, w)),
     go_poll_cancelled = (\<lambda>w. (False, w)), go_rng = (\<lambda>w. (w, w))\<rparr>"

definition sample_goaway_start :: "(unit, unit, unit, unit, unit, bool) goaway_sys" where
  "sample_goaway_start = \<lparr>gs_idx = 0, gs_running = True, gs_tasks = [], gs_world = True\<rparr>"

definition sample_goaway_end :: "(unit, unit, unit, unit, unit, bool) goaway_sys" where
  "sample_goaway_end = \<lparr>gs_idx = 1, gs_running = True,
     gs_tasks = [(True, GC_hold (), [Accepted, Answered 200, Goaway 0])], gs_world = True\<rparr>"

lemma sample_goaway_reach: "reach goaway_init (goaway_step sample_goaway_ops) sample_goaway_end"
proof -
  let ?s = "sample_goaway_start\<lparr>gs_idx := 1, gs_tasks := [(True, GC_incoming (), [])]\<rparr>"
  have r0: "reach goaway_init (goaway_step sample_goaway_ops) sample_goaway_start"
    by (rule reach_init) (simp add: goaway_init_def sample_goaway_start_def)
  have t: "goaway_turn sample_goaway_ops 0 True = (GA_spawn () True, 1, True)"
    by (simp add: goaway_turn_def goaway_accept_def sample_goaway_ops_def)
  have "goaway_step sample_goaway_ops sample_goaway_start ?s"
    using gs_accept [of sample_goaway_start sample_goaway_ops] t by (simp add: sample_goaway_start_def)
  with r0 have r1: "reach goaway_init (goaway_step sample_goaway_ops) ?s" by (rule reach_step)
  have p: "goaway_conn_poll sample_goaway_ops True (GC_incoming ()) True =
      Some (Pending, GC_hold (), [Accepted, Answered 200, Goaway 0], True)"
    by (simp add: sample_goaway_ops_def conn_handshake_def conn_first_def conn_shutdown_def conn_hold_def one_defs)
  have "goaway_step sample_goaway_ops ?s sample_goaway_end"
    using gs_task [of 0 ?s True "GC_incoming ()" "[]" sample_goaway_ops] p
    by (simp add: sample_goaway_start_def sample_goaway_end_def)
  with r1 show ?thesis by (rule reach_step)
qed

theorem goaway_only_first_witness:
  "reach goaway_init (goaway_step sample_goaway_ops) sample_goaway_end \<and>
   (\<exists>l. [Accepted, Answered 200, Goaway 0] = l @ [Goaway 0] \<and> count_list l Accepted \<le> 1)"
  using goaway_only_first [OF sample_goaway_reach, of 0 True "GC_hold ()" "[Accepted, Answered 200, Goaway 0]" 0]
    sample_goaway_reach
  by (auto simp: sample_goaway_end_def)

end
