(* ===== verification/CertFiles.thy ===== *)
theory CertFiles
  imports H3Prelude
begin

text \<open>
  The certificates of the tests and of the benchmark: \<open>cert_gen.rs\<close> of \<open>tonic-h3-tests\<close> and the same
  functions of \<open>tests/bench/src/tls.rs\<close>. The file system is a map from paths to contents and a set of
  directories; every operation may be refused, and a refused write may leave a part of the content behind.
\<close>

section \<open>The file system\<close>

type_synonym path = "string list"

record fs =
  fs_files :: "path \<rightharpoonup> string"
  fs_dirs :: "path set"

text \<open>
  What goes wrong: \<open>ff_remove\<close>, \<open>ff_mkdir\<close> and \<open>ff_create\<close> refuse an operation, \<open>ff_write p = Some n\<close> lets a write to
  \<open>p\<close> fail after \<open>n\<close> characters.
\<close>

record fs_faults =
  ff_remove :: "path \<Rightarrow> bool"
  ff_mkdir :: "path \<Rightarrow> bool"
  ff_create :: "path \<Rightarrow> bool"
  ff_write :: "path \<Rightarrow> nat option"

definition under_dir :: "path \<Rightarrow> path \<Rightarrow> bool" where
  "under_dir d p \<longleftrightarrow> prefix d p"

text \<open>\<open>remove_dir_all\<close>; its result is ignored by the callers.\<close>

definition remove_dir_all :: "fs_faults \<Rightarrow> path \<Rightarrow> fs \<Rightarrow> (unit + unit) \<times> fs" where
  "remove_dir_all ff d s =
     (if ff_remove ff d \<or> d \<notin> fs_dirs s then (Err (), s)
      else (Ok (), s\<lparr>fs_files := (\<lambda>p. if under_dir d p then None else fs_files s p), fs_dirs := {p \<in> fs_dirs s. \<not> under_dir d p}\<rparr>))"

definition create_dir_all :: "fs_faults \<Rightarrow> path \<Rightarrow> fs \<Rightarrow> (unit + unit) \<times> fs" where
  "create_dir_all ff d s =
     (if ff_mkdir ff d then (Err (), s) else (Ok (), s\<lparr>fs_dirs := fs_dirs s \<union> set (prefixes d)\<rparr>))"

definition path_exists :: "path \<Rightarrow> fs \<Rightarrow> bool" where
  "path_exists p s \<longleftrightarrow> fs_files s p \<noteq> None \<or> p \<in> fs_dirs s"

text \<open>\<open>File::create\<close> truncates; \<open>write_all\<close> on the new handle.\<close>

definition file_create :: "fs_faults \<Rightarrow> path \<Rightarrow> fs \<Rightarrow> (unit + unit) \<times> fs" where
  "file_create ff p s = (if ff_create ff p then (Err (), s) else (Ok (), s\<lparr>fs_files := (fs_files s)(p \<mapsto> [])\<rparr>))"

definition write_all :: "fs_faults \<Rightarrow> path \<Rightarrow> string \<Rightarrow> fs \<Rightarrow> (unit + unit) \<times> fs" where
  "write_all ff p content s =
     (case ff_write ff p of
        None \<Rightarrow> (Ok (), s\<lparr>fs_files := (fs_files s)(p \<mapsto> content)\<rparr>)
      | Some n \<Rightarrow> (Err (), s\<lparr>fs_files := (fs_files s)(p \<mapsto> take n content)\<rparr>))"

section \<open>Generation\<close>

text \<open>
  \<open>kg_generate\<close> is \<open>rcgen::generate_simple_self_signed\<close>, which draws on entropy; a certified key prints as a
  certificate and as a key.
\<close>

record 'k keygen =
  kg_generate :: "nat \<Rightarrow> string list \<Rightarrow> 'k option"
  kg_cert_pem :: "'k \<Rightarrow> string"
  kg_key_pem :: "'k \<Rightarrow> string"

definition make_test_cert :: "'k keygen \<Rightarrow> nat \<Rightarrow> string list \<Rightarrow> 'k outcome" where
  "make_test_cert kg entropy subject_alt_names =
     (case kg_generate kg entropy subject_alt_names of
        None \<Rightarrow> Panic ''generate_simple_self_signed(subject_alt_names).unwrap()''
      | Some k \<Rightarrow> Return k)"

text \<open>The texts of the panics, in which the two crates differ.\<close>

record cert_texts =
  ct_dir :: string
  ct_cert_create :: string
  ct_cert_write :: string
  ct_key_create :: string
  ct_key_write :: string

text \<open>Both files, in the order of the code: the certificate first.\<close>

definition save_file :: "fs_faults \<Rightarrow> path \<Rightarrow> string \<Rightarrow> string \<Rightarrow> string \<Rightarrow> fs \<Rightarrow> unit outcome \<times> fs" where
  "save_file ff p content create_msg write_msg s =
     (case file_create ff p s of
        (Err _, s1) \<Rightarrow> (Panic create_msg, s1)
      | (Ok _, s1) \<Rightarrow> (case write_all ff p content s1 of
                       (Err _, s2) \<Rightarrow> (Panic write_msg, s2)
                     | (Ok _, s2) \<Rightarrow> (Return (), s2)))"

definition save_pair ::
  "cert_texts \<Rightarrow> 'k keygen \<Rightarrow> nat \<Rightarrow> fs_faults \<Rightarrow> path \<Rightarrow> path \<Rightarrow> fs \<Rightarrow> unit outcome \<times> fs" where
  "save_pair ct kg entropy ff cert_path key_path s =
     (case make_test_cert kg entropy [''localhost'', ''127.0.0.1''] of
        Panic m \<Rightarrow> (Panic m, s)
      | Return k \<Rightarrow>
          (case save_file ff cert_path (kg_cert_pem kg k) (ct_cert_create ct) (ct_cert_write ct) s of
             (Panic m, s1) \<Rightarrow> (Panic m, s1)
           | (Return _, s1) \<Rightarrow>
               save_file ff key_path (kg_key_pem kg k) (ct_key_create ct) (ct_key_write ct) s1))"

definition make_cert_files ::
  "string \<Rightarrow> cert_texts \<Rightarrow> path \<Rightarrow> 'k keygen \<Rightarrow> nat \<Rightarrow> fs_faults \<Rightarrow> string \<Rightarrow> bool \<Rightarrow> fs \<Rightarrow>
   (path \<times> path) outcome \<times> fs" where
  "make_cert_files base ct tmp kg entropy ff name regen s =
     (let temp_dir = tmp @ [base] @ [name];
          s1 = (if regen then snd (remove_dir_all ff temp_dir s) else s) in
      case create_dir_all ff temp_dir s1 of
        (Err _, s2) \<Rightarrow> (Panic (ct_dir ct), s2)
      | (Ok _, s2) \<Rightarrow>
          (let cert_path = temp_dir @ [''cert.pem'']; key_path = temp_dir @ [''key.pem''] in
           if \<not> path_exists key_path s2 \<or> \<not> path_exists cert_path s2
           then (case save_pair ct kg entropy ff cert_path key_path s2 of
                   (Panic m, s3) \<Rightarrow> (Panic m, s3)
                 | (Return _, s3) \<Rightarrow> (Return (cert_path, key_path), s3))
           else (Return (cert_path, key_path), s2)))"

definition make_test_cert_files where
  "make_test_cert_files = make_cert_files ''tonic_h3_test_certs''
     \<lparr>ct_dir = ''Failed to create temp directory'', ct_cert_create = ''Failed to create cert file'',
      ct_cert_write = ''Failed to write cert'', ct_key_create = ''Failed to create key file'',
      ct_key_write = ''Failed to write key''\<rparr>"

definition bench_cert_files where
  "bench_cert_files = make_cert_files ''tonic_h3_bench_certs''
     \<lparr>ct_dir = ''failed to create temp cert dir'', ct_cert_create = ''create cert file'',
      ct_cert_write = ''write cert file'', ct_key_create = ''create key file'', ct_key_write = ''write key file''\<rparr>"

lemmas file_defs = remove_dir_all_def create_dir_all_def path_exists_def file_create_def write_all_def save_file_def
  save_pair_def make_test_cert_def

section \<open>Results\<close>

text \<open>The files of a directory: a pair of one generation, or not both there.\<close>

definition cert_pair :: "'k keygen \<Rightarrow> path \<Rightarrow> path \<Rightarrow> fs \<Rightarrow> bool" where
  "cert_pair kg c k s \<longleftrightarrow>
     (\<exists>n x. kg_generate kg n [''localhost'', ''127.0.0.1''] = Some x \<and> fs_files s c = Some (kg_cert_pem kg x) \<and>
        fs_files s k = Some (kg_key_pem kg x))"

definition dir_consistent :: "'k keygen \<Rightarrow> path \<Rightarrow> fs \<Rightarrow> bool" where
  "dir_consistent kg d s \<longleftrightarrow>
     (path_exists (d @ [''cert.pem'']) s \<and> path_exists (d @ [''key.pem'']) s \<longrightarrow>
        cert_pair kg (d @ [''cert.pem'']) (d @ [''key.pem'']) s)"

text \<open>Every file or directory lies in a directory.\<close>

definition fs_ok :: "fs \<Rightarrow> bool" where
  "fs_ok s \<longleftrightarrow> (\<forall>p. path_exists p s \<longrightarrow> p \<noteq> [] \<longrightarrow> butlast p \<in> fs_dirs s)"

lemma consistent_create:
  assumes "create_dir_all ff d s = (Ok (), s')"
  shows "path_exists (d @ [x]) s' = path_exists (d @ [x]) s" "fs_files s' = fs_files s"
  using assms by (auto simp: create_dir_all_def path_exists_def split: if_splits dest: prefix_length_le)

lemma save_pair_result:
  assumes "c \<noteq> k" "save_pair ct kg n ff c k s = (Return (), s')"
  shows "cert_pair kg c k s' \<and> (\<forall>p. p \<noteq> c \<longrightarrow> p \<noteq> k \<longrightarrow> fs_files s' p = fs_files s p) \<and> fs_dirs s' = fs_dirs s"
  using assms by (auto simp: file_defs cert_pair_def split: outcome.splits option.splits if_splits intro: exI [of _ n])

lemma remove_consistent:
  assumes "fs_ok s" "\<not> ff_remove ff d" "d \<noteq> []"
  shows "\<not> path_exists (d @ [x]) (snd (remove_dir_all ff d s))"
  using assms by (auto simp: remove_dir_all_def path_exists_def under_dir_def fs_ok_def)

lemma remove_keeps:
  "\<not> prefix d p \<Longrightarrow> fs_files (snd (remove_dir_all ff d s)) p = fs_files s p"
  "remove_dir_all ff d s = (Err (), s') \<Longrightarrow> s' = s"
  by (auto simp: remove_dir_all_def under_dir_def split: if_splits)

lemma removed_consistent:
  assumes "fs_ok s" "d \<noteq> []" "dir_consistent kg d s \<or> \<not> ff_remove ff d"
  shows "dir_consistent kg d (snd (remove_dir_all ff d s))"
proof (cases "ff_remove ff d")
  case True
  with assms show ?thesis by (simp add: remove_dir_all_def)
next
  case False
  with remove_consistent [OF assms(1) False assms(2)] show ?thesis by (simp add: dir_consistent_def)
qed


text \<open>Keys are numbers here, the entropy they were made from.\<close>

definition sample_keygen :: "nat keygen" where
  "sample_keygen = \<lparr>kg_generate = (\<lambda>n sans. Some n), kg_cert_pem = (\<lambda>k. replicate k (CHR ''c'')),
     kg_key_pem = (\<lambda>k. replicate k (CHR ''k''))\<rparr>"

definition no_faults :: fs_faults where
  "no_faults = \<lparr>ff_remove = (\<lambda>_. False), ff_mkdir = (\<lambda>_. False), ff_create = (\<lambda>_. False), ff_write = (\<lambda>_. None)\<rparr>"

abbreviation "sample_root \<equiv> \<lparr>fs_files = Map.empty, fs_dirs = {[]}\<rparr>"


text \<open>
  Without \<open>regen\<close> an earlier run that failed is not repaired: when the write of the key fails, the call panics, and the
  next one, without any fault, returns the paths of a certificate and of an empty key.
\<close>

theorem failed_generation_sticks:
  "\<exists>s1 c k. make_test_cert_files [''tmp''] sample_keygen 3 (no_faults\<lparr>ff_write := (\<lambda>p. if last p = ''key.pem'' then Some 0 else None)\<rparr>)
       ''msquic'' False sample_root = (Panic ''Failed to write key'', s1) \<and>
     make_test_cert_files [''tmp''] sample_keygen 3 no_faults ''msquic'' False s1 = (Return (c, k), s1) \<and>
     fs_files s1 k = Some [] \<and> fs_files s1 c = Some ''ccc'' \<and> \<not> cert_pair sample_keygen c k s1"
  by (auto simp: make_test_cert_files_def make_cert_files_def Let_def file_defs no_faults_def sample_keygen_def cert_pair_def
      eval_nat_numeral intro: gr0I)

end
