(* ===== verification/Bench.thy ===== *)
theory Bench
  imports H3Prelude
begin

text \<open>
  The benchmark harness in \<open>tests/bench/src\<close>: \<open>metrics.rs\<close> (the recorder of a run and its summary),
  \<open>load.rs\<close> (the payload, a request, the workers that share a counter, the phases of a run) and the
  argument handling of \<open>lib.rs\<close>. Counters are words of 64 bits; the histogram and floating-point
  arithmetic are parameters.
\<close>

section \<open>\<open>metrics.rs\<close>\<close>

text \<open>
  The histogram library: creation with bounds and significant figures, which may be refused,
  recording, addition, which is refused for incompatible histograms, and quantiles in hundredths;
  and the floating-point operations the summary uses.
\<close>

record ('hi, 'f) metric_ops =
  mo_new :: "nat \<Rightarrow> nat \<Rightarrow> nat \<Rightarrow> 'hi option"
  mo_record :: "64 word \<Rightarrow> 'hi \<Rightarrow> 'hi"
  mo_add :: "'hi \<Rightarrow> 'hi \<Rightarrow> 'hi option"
  mo_quantile :: "nat \<Rightarrow> 'hi \<Rightarrow> 64 word"
  mo_float :: "64 word \<Rightarrow> 'f"
  mo_secs :: "nat \<Rightarrow> 'f"
  mo_pos :: "'f \<Rightarrow> bool"
  mo_div :: "'f \<Rightarrow> 'f \<Rightarrow> 'f"
  mo_zero :: 'f
  mo_thousand :: 'f

record 'hi Recorder =
  rc_hist :: 'hi
  rc_success :: "64 word"
  rc_failure :: "64 word"

definition Recorder_new :: "('hi, 'f) metric_ops \<Rightarrow> 'hi Recorder outcome" where
  "Recorder_new ops =
     (case mo_new ops 1 120000000 3 of
        None \<Rightarrow> Panic ''valid histogram bounds''
      | Some h \<Rightarrow> Return \<lparr>rc_hist = h, rc_success = 0, rc_failure = 0\<rparr>)"

text \<open>A \<open>Duration\<close> is a number of nanoseconds; \<open>as_micros\<close> is a \<open>u128\<close>, cut down to a \<open>u64\<close>.\<close>

definition as_micros :: "nat \<Rightarrow> nat" where
  "as_micros d = d div 1000"

definition record_success :: "('hi, 'f) metric_ops \<Rightarrow> nat \<Rightarrow> 'hi Recorder \<Rightarrow> 'hi Recorder" where
  "record_success ops latency r =
     (let us = (of_nat (min (as_micros latency) (2 ^ 64 - 1)) :: 64 word) in
      r\<lparr>rc_success := rc_success r + 1, rc_hist := mo_record ops (max us 1) (rc_hist r)\<rparr>)"

definition record_failure :: "'hi Recorder \<Rightarrow> 'hi Recorder" where
  "record_failure r = r\<lparr>rc_failure := rc_failure r + 1\<rparr>"

definition merge :: "('hi, 'f) metric_ops \<Rightarrow> 'hi Recorder \<Rightarrow> 'hi Recorder \<Rightarrow> 'hi Recorder outcome" where
  "merge ops r other =
     (case mo_add ops (rc_hist r) (rc_hist other) of
        None \<Rightarrow> Panic ''compatible histograms''
      | Some h \<Rightarrow> Return (r\<lparr>rc_hist := h, rc_success := rc_success r + rc_success other,
          rc_failure := rc_failure r + rc_failure other\<rparr>))"

record 'f BenchSummary =
  bs_total :: "64 word"
  bs_success :: "64 word"
  bs_failure :: "64 word"
  bs_elapsed :: nat
  bs_throughput_rps :: 'f
  bs_p50_us :: "64 word option"
  bs_p90_us :: "64 word option"
  bs_p99_us :: "64 word option"

definition from_recorder :: "('hi, 'f) metric_ops \<Rightarrow> 'hi Recorder \<Rightarrow> nat \<Rightarrow> 'f BenchSummary" where
  "from_recorder ops rec elapsed =
     (let total = rc_success rec + rc_failure rec;
          secs = mo_secs ops elapsed;
          throughput = (if mo_pos ops secs then mo_div ops (mo_float ops (rc_success rec)) secs else mo_zero ops);
          q = (\<lambda>n. if rc_success rec > 0 then Some (mo_quantile ops n (rc_hist rec)) else None) in
      \<lparr>bs_total = total, bs_success = rc_success rec, bs_failure = rc_failure rec, bs_elapsed = elapsed,
       bs_throughput_rps = throughput, bs_p50_us = q 50, bs_p90_us = q 90, bs_p99_us = q 99\<rparr>)"

text \<open>The JSON object, as the list of its members.\<close>

datatype 'f json = JStr string | JInt nat | JFloat 'f | JNull

definition to_json :: "('hi, 'f) metric_ops \<Rightarrow> 'f BenchSummary \<Rightarrow> string \<Rightarrow> nat \<Rightarrow> 32 word \<Rightarrow> (string \<times> 'f json) list" where
  "to_json ops s transport payload_size concurrency =
     (let ms = (\<lambda>v. case v of None \<Rightarrow> JNull | Some us \<Rightarrow> JFloat (mo_div ops (mo_float ops us) (mo_thousand ops))) in
      [(''transport'', JStr transport), (''payload_size'', JInt payload_size),
       (''concurrency'', JInt (unat concurrency)), (''count'', JInt (unat (bs_total s))),
       (''ok'', JInt (unat (bs_success s))), (''failed'', JInt (unat (bs_failure s))),
       (''elapsed_s'', JFloat (mo_secs ops (bs_elapsed s))), (''throughput_rps'', JFloat (bs_throughput_rps s)),
       (''p50_ms'', ms (bs_p50_us s)), (''p90_ms'', ms (bs_p90_us s)), (''p99_ms'', ms (bs_p99_us s))])"

text \<open>
  The text form: \<open>fmt n x\<close> prints a number with \<open>n\<close> digits after the point and \<open>dec\<close> a counter.
\<close>

definition fmt_us :: "('hi, 'f) metric_ops \<Rightarrow> (nat \<Rightarrow> 'f \<Rightarrow> string) \<Rightarrow> 64 word option \<Rightarrow> string" where
  "fmt_us ops fmt v =
     (case v of
        Some us \<Rightarrow> fmt 3 (mo_div ops (mo_float ops us) (mo_thousand ops)) @ '' ms''
      | None \<Rightarrow> ''n/a'')"

definition writeln :: "string list \<Rightarrow> string" where
  "writeln parts = concat parts @ [CHR 0x0A]"

definition summary_fmt ::
  "('hi, 'f) metric_ops \<Rightarrow> (nat \<Rightarrow> 'f \<Rightarrow> string) \<Rightarrow> (64 word \<Rightarrow> string) \<Rightarrow> 'f BenchSummary \<Rightarrow> string" where
  "summary_fmt ops fmt dec s =
     writeln [''=== Benchmark result ===''] @
     writeln [''requests:    '', dec (bs_total s), '' total ('', dec (bs_success s), '' ok, '', dec (bs_failure s), '' failed)''] @
     writeln [''elapsed:     '', fmt 3 (mo_secs ops (bs_elapsed s)), '' s''] @
     writeln [''throughput:  '', fmt 1 (bs_throughput_rps s), '' req/s''] @
     writeln [''latency p50: '', fmt_us ops fmt (bs_p50_us s)] @
     writeln [''latency p90: '', fmt_us ops fmt (bs_p90_us s)] @
     ''latency p99: '' @ fmt_us ops fmt (bs_p99_us s)"

section \<open>\<open>load.rs\<close>\<close>

datatype LoadLimit = Count "64 word" | Duration nat

record LoadConfig =
  lc_payload_size :: nat
  lc_concurrency :: nat
  lc_limit :: LoadLimit
  lc_warmup :: "nat option"
  lc_connect_timeout :: nat
  lc_request_timeout :: nat

definition make_payload :: "nat \<Rightarrow> bytes" where
  "make_payload size' = map (\<lambda>i. of_nat (i mod 251)) [0 ..< size']"

text \<open>What an RPC under a timeout gives.\<close>

datatype echo_result = Rpc_timeout | Rpc_error string | Rpc_reply bytes

definition one_request ::
  "('hi, 'f) metric_ops \<Rightarrow> bytes \<Rightarrow> nat \<Rightarrow> echo_result \<Rightarrow> 'hi Recorder \<Rightarrow> 'hi Recorder" where
  "one_request ops payload latency res rec =
     (case res of
        Rpc_reply p \<Rightarrow> (if length p = length payload then record_success ops latency rec else record_failure rec)
      | _ \<Rightarrow> record_failure rec)"

text \<open>
  The workers of \<open>run_count\<close>. Each one is at the head of its loop, inside a request, over, or it
  panicked inside a request; the counter is shared, and \<open>fetch_add\<close> wraps around.
\<close>

datatype worker_pc = W_pull | W_request | W_done | W_panicked

record 'hi worker =
  wk_pc :: worker_pc
  wk_rec :: "'hi Recorder"

record 'hi load_state =
  ls_counter :: "64 word"
  ls_workers :: "'hi worker list"

definition run_count_start :: "'hi Recorder \<Rightarrow> nat \<Rightarrow> 'hi load_state" where
  "run_count_start rec0 concurrency =
     \<lparr>ls_counter = 0, ls_workers = replicate (max concurrency 1) \<lparr>wk_pc = W_pull, wk_rec = rec0\<rparr>\<rparr>"

text \<open>\<open>let n = counter.fetch_add(1); if n >= total { break }\<close>.\<close>

definition worker_pull :: "64 word \<Rightarrow> nat \<Rightarrow> 'hi load_state \<Rightarrow> 'hi load_state" where
  "worker_pull count i s =
     (let n = ls_counter s; w = ls_workers s ! i in
      s\<lparr>ls_counter := n + 1,
        ls_workers := (ls_workers s)[i := w\<lparr>wk_pc := (if count \<le> n then W_done else W_request)\<rparr>]\<rparr>)"

definition worker_request ::
  "('hi, 'f) metric_ops \<Rightarrow> bytes \<Rightarrow> nat \<Rightarrow> echo_result \<Rightarrow> nat \<Rightarrow> 'hi load_state \<Rightarrow> 'hi load_state" where
  "worker_request ops payload latency res i s =
     (let w = ls_workers s ! i in
      s\<lparr>ls_workers := (ls_workers s)[i :=
          w\<lparr>wk_pc := W_pull, wk_rec := one_request ops payload latency res (wk_rec w)\<rparr>]\<rparr>)"

definition worker_panic :: "nat \<Rightarrow> 'hi load_state \<Rightarrow> 'hi load_state" where
  "worker_panic i s = s\<lparr>ls_workers := (ls_workers s)[i := (ls_workers s ! i)\<lparr>wk_pc := W_panicked\<rparr>]\<rparr>"

text \<open>The workers run concurrently: any of them makes the next step.\<close>

inductive load_step :: "('hi, 'f) metric_ops \<Rightarrow> bytes \<Rightarrow> 64 word \<Rightarrow> 'hi load_state \<Rightarrow> 'hi load_state \<Rightarrow> bool"
  for ops payload count where
  ld_pull: "i < length (ls_workers s) \<Longrightarrow> wk_pc (ls_workers s ! i) = W_pull \<Longrightarrow>
     load_step ops payload count s (worker_pull count i s)"
| ld_request: "i < length (ls_workers s) \<Longrightarrow> wk_pc (ls_workers s ! i) = W_request \<Longrightarrow>
     load_step ops payload count s (worker_request ops payload latency res i s)"
| ld_panic: "i < length (ls_workers s) \<Longrightarrow> wk_pc (ls_workers s ! i) = W_request \<Longrightarrow>
     load_step ops payload count s (worker_panic i s)"

text \<open>
  A worker of \<open>run_duration\<close> looks at the clock instead of a counter; the clock does not run backwards.
\<close>

definition worker_check :: "nat \<Rightarrow> nat \<Rightarrow> nat \<Rightarrow> 'hi load_state \<Rightarrow> 'hi load_state" where
  "worker_check deadline now i s =
     s\<lparr>ls_workers := (ls_workers s)[i :=
         (ls_workers s ! i)\<lparr>wk_pc := (if now < deadline then W_request else W_done)\<rparr>]\<rparr>"

inductive timed_step ::
  "('hi, 'f) metric_ops \<Rightarrow> bytes \<Rightarrow> nat \<Rightarrow> nat \<times> 'hi load_state \<Rightarrow> nat \<times> 'hi load_state \<Rightarrow> bool"
  for ops payload deadline where
  td_clock: "now \<le> now' \<Longrightarrow> timed_step ops payload deadline (now, s) (now', s)"
| td_check: "i < length (ls_workers s) \<Longrightarrow> wk_pc (ls_workers s ! i) = W_pull \<Longrightarrow>
     timed_step ops payload deadline (now, s) (now, worker_check deadline now i s)"
| td_request: "i < length (ls_workers s) \<Longrightarrow> wk_pc (ls_workers s ! i) = W_request \<Longrightarrow>
     timed_step ops payload deadline (now, s) (now, worker_request ops payload latency res i s)"
| td_panic: "i < length (ls_workers s) \<Longrightarrow> wk_pc (ls_workers s ! i) = W_request \<Longrightarrow>
     timed_step ops payload deadline (now, s) (now, worker_panic i s)"

text \<open>Joining the workers in order: a recorder is merged, a panic counts as one failure.\<close>

fun join_workers :: "('hi, 'f) metric_ops \<Rightarrow> 'hi Recorder \<Rightarrow> 'hi worker list \<Rightarrow> 'hi Recorder outcome" where
  "join_workers ops merged [] = Return merged"
| "join_workers ops merged (h # hs) =
     (if wk_pc h = W_panicked then join_workers ops (record_failure merged) hs
      else (case merge ops merged (wk_rec h) of
              Panic msg \<Rightarrow> Panic msg
            | Return m \<Rightarrow> join_workers ops m hs))"

text \<open>What \<open>run_count\<close> and \<open>run_duration\<close> return once their workers have ended.\<close>

definition join_all :: "('hi, 'f) metric_ops \<Rightarrow> 'hi worker list \<Rightarrow> 'hi Recorder outcome" where
  "join_all ops hs =
     (case Recorder_new ops of Panic msg \<Rightarrow> Panic msg | Return merged \<Rightarrow> join_workers ops merged hs)"

text \<open>
  The phases of \<open>drive_load\<close>: the probe with its byte-for-byte check, then the run that the limit
  selects, whose workers ended as \<open>counted\<close> or \<open>timed\<close>; \<open>elapsed\<close> is the time measured around the
  run and \<open>fmt\<close> prints a duration. The recorder of the warm-up is thrown away: all that can be seen
  of it is a panic while it is merged.
\<close>

definition drive_load ::
  "('hi, 'f) metric_ops \<Rightarrow> (nat \<Rightarrow> string) \<Rightarrow> (bytes \<Rightarrow> echo_result) \<Rightarrow> (bytes \<Rightarrow> 64 word \<Rightarrow> 'hi worker list) \<Rightarrow>
   (bytes \<Rightarrow> nat \<Rightarrow> 'hi worker list) \<Rightarrow> nat \<Rightarrow> LoadConfig \<Rightarrow> (string + 'f BenchSummary) outcome" where
  "drive_load ops fmt probe counted timed elapsed cfg =
     (let payload = make_payload (lc_payload_size cfg) in
      case probe payload of
        Rpc_timeout \<Rightarrow>
          Return (Err (''connect probe timed out after '' @ fmt (lc_connect_timeout cfg) @ ''; is the server running?''))
      | Rpc_error e \<Rightarrow> Return (Err (''connect probe failed: '' @ e))
      | Rpc_reply p \<Rightarrow>
          (if p \<noteq> payload
           then Return (Err ''echo self-check failed: reply payload does not match request (byte-for-byte comparison)'')
           else
             (case (case lc_warmup cfg of
                      None \<Rightarrow> Return ()
                    | Some w \<Rightarrow> (case join_all ops (timed payload w) of Panic msg \<Rightarrow> Panic msg | Return _ \<Rightarrow> Return ())) of
                Panic msg \<Rightarrow> Panic msg
              | Return _ \<Rightarrow>
                  (case join_all ops
                          (case lc_limit cfg of Count n \<Rightarrow> counted payload n | Duration d \<Rightarrow> timed payload d) of
                     Panic msg \<Rightarrow> Panic msg
                   | Return rec \<Rightarrow> Return (Ok (from_recorder ops rec elapsed))))))"

section \<open>\<open>lib.rs\<close>\<close>

datatype Transport = TcpTls | Quinn | Msquic | S2nQuic | Quiche

fun transport_display :: "Transport \<Rightarrow> string" where
  "transport_display TcpTls = ''tcp-tls''"
| "transport_display Quinn = ''quinn''"
| "transport_display Msquic = ''msquic''"
| "transport_display S2nQuic = ''s2n-quic''"
| "transport_display Quiche = ''quiche''"

datatype OutputFormat = Text | Json

definition echo :: "bytes \<Rightarrow> echo_result" where
  "echo payload = Rpc_reply payload"

record ServerArgs =
  sa_transport :: Transport
  sa_addr :: string

record ClientArgs =
  ca_transport :: Transport
  ca_addr :: string
  ca_format :: OutputFormat
  ca_payload_size :: nat
  ca_concurrency :: "32 word"
  ca_count :: "64 word option"
  ca_duration :: "64 word option"
  ca_warmup :: "64 word option"
  ca_connect_timeout :: "64 word"
  ca_request_timeout :: "64 word"

definition DEFAULT_COUNT :: "64 word" where
  "DEFAULT_COUNT = 10000"

definition from_secs :: "64 word \<Rightarrow> nat" where
  "from_secs s = unat s * 10 ^ 9"

definition limit :: "ClientArgs \<Rightarrow> LoadLimit" where
  "limit a =
     (case (ca_count a, ca_duration a) of
        (_, Some d) \<Rightarrow> Duration (from_secs d)
      | (Some n, None) \<Rightarrow> Count n
      | (None, None) \<Rightarrow> Count DEFAULT_COUNT)"

definition load_config :: "ClientArgs \<Rightarrow> LoadConfig" where
  "load_config a =
     \<lparr>lc_payload_size = ca_payload_size a, lc_concurrency = unat (ca_concurrency a), lc_limit = limit a,
      lc_warmup = map_option from_secs (ca_warmup a), lc_connect_timeout = from_secs (ca_connect_timeout a),
      lc_request_timeout = from_secs (ca_request_timeout a)\<rparr>"

section \<open>Accounting\<close>

definition rec_count :: "'hi Recorder \<Rightarrow> nat" where
  "rec_count r = unat (rc_success r) + unat (rc_failure r)"

definition in_pc :: "worker_pc \<Rightarrow> 'hi worker list \<Rightarrow> nat" where
  "in_pc pc ws = length (filter (\<lambda>w. wk_pc w = pc) ws)"

definition recorded :: "'hi worker list \<Rightarrow> nat" where
  "recorded ws = sum_list (map (\<lambda>w. rec_count (wk_rec w)) ws)"

lemma in_pc_sum: "in_pc pc ws = sum_list (map (\<lambda>w. if wk_pc w = pc then 1 else 0) ws)"
  by (induction ws) (simp_all add: in_pc_def)

lemma sum_map_update:
  fixes f :: "'a \<Rightarrow> nat"
  assumes "i < length ws"
  shows "sum_list (map f (ws[i := w])) + f (ws ! i) = sum_list (map f ws) + f w"
  using assms
proof (induction ws arbitrary: i)
  case (Cons v ws)
  then show ?case by (cases i) auto
qed simp

lemma in_pc_update:
  "i < length ws \<Longrightarrow> in_pc pc (ws[i := w]) + (if wk_pc (ws ! i) = pc then 1 else 0) = in_pc pc ws + (if wk_pc w = pc then 1 else 0)"
  unfolding in_pc_sum by (rule sum_map_update)

lemma recorded_update:
  "i < length ws \<Longrightarrow> recorded (ws[i := w]) + rec_count (wk_rec (ws ! i)) = recorded ws + rec_count (wk_rec w)"
  unfolding recorded_def by (rule sum_map_update)

lemma recorded_member: "i < length ws \<Longrightarrow> rec_count (wk_rec (ws ! i)) \<le> recorded ws"
  unfolding recorded_def
  by (induction ws arbitrary: i) (auto simp: nth_Cons split: nat.splits intro: trans_le_add2)

lemma in_pc_disjoint: "pc \<noteq> pc' \<Longrightarrow> in_pc pc ws + in_pc pc' ws \<le> length ws"
  by (induction ws) (auto simp: in_pc_def)

lemma in_pc_all: "\<forall>w \<in> set ws. wk_pc w \<noteq> pc \<Longrightarrow> in_pc pc ws = 0"
  by (simp add: in_pc_def filter_empty_conv)

lemma in_pc_pos: "w \<in> set ws \<Longrightarrow> 0 < in_pc (wk_pc w) ws"
  by (auto simp: in_pc_def filter_empty_conv)

lemma unat_inc: "unat (x :: 64 word) + 1 < 2 ^ 64 \<Longrightarrow> unat (x + 1) = unat x + 1"
  by (simp add: unat_word_ariths)

lemma one_request_counts:
  assumes "rec_count r + 1 < 2 ^ 64"
  shows "rec_count (one_request ops payload latency res r) = rec_count r + 1"
proof -
  have s: "unat (rc_success r + 1) = unat (rc_success r) + 1"
    by (rule unat_inc) (use assms in \<open>simp add: rec_count_def\<close>)
  have f: "unat (rc_failure r + 1) = unat (rc_failure r) + 1"
    by (rule unat_inc) (use assms in \<open>simp add: rec_count_def\<close>)
  show ?thesis
    using s f by (auto simp: one_request_def record_success_def record_failure_def rec_count_def Let_def
        split: echo_result.splits)
qed

text \<open>
  Every number that was pulled below the count is a request that was recorded, is under way or was
  lost to a panic, and every other one ended its worker; so the counter never wraps around.
\<close>

definition load_inv :: "64 word \<Rightarrow> nat \<Rightarrow> 'hi load_state \<Rightarrow> bool" where
  "load_inv count k s \<longleftrightarrow>
     length (ls_workers s) = k \<and> 0 < k \<and> unat count + k < 2 ^ 64 \<and>
     recorded (ls_workers s) + in_pc W_request (ls_workers s) + in_pc W_panicked (ls_workers s) =
       min (unat (ls_counter s)) (unat count) \<and>
     unat (ls_counter s) = min (unat (ls_counter s)) (unat count) + in_pc W_done (ls_workers s)"

lemma load_inv_pull:
  assumes inv: "load_inv count k s" and i: "i < length (ls_workers s)" "wk_pc (ls_workers s ! i) = W_pull"
  shows "load_inv count k (worker_pull count i s)"
proof -
  let ?ws = "ls_workers s" and ?n = "ls_counter s"
  let ?w = "(?ws ! i)\<lparr>wk_pc := (if count \<le> ?n then W_done else W_request)\<rparr>"
  have d: "in_pc W_done ?ws < k"
  proof -
    have "in_pc W_done ?ws + in_pc W_pull ?ws \<le> length ?ws"
      by (rule in_pc_disjoint) simp
    moreover have "0 < in_pc W_pull ?ws" using in_pc_pos [OF nth_mem [OF i(1)]] i(2) by simp
    ultimately show ?thesis using inv by (simp add: load_inv_def)
  qed
  have "unat ?n + 1 < 2 ^ 64" using inv d unfolding load_inv_def by linarith
  then have n: "unat (?n + 1) = unat ?n + 1" by (rule unat_inc)
  have le: "count \<le> ?n \<longleftrightarrow> unat count \<le> unat ?n" by (simp add: word_le_nat_alt)
  have r: "recorded (?ws[i := ?w]) = recorded ?ws" using recorded_update [OF i(1), of ?w] by simp
  note c = in_pc_update [OF i(1), of _ ?w]
  show ?thesis
    using inv n le r c [of W_request] c [of W_done] c [of W_panicked] i
    unfolding load_inv_def worker_pull_def Let_def by (auto split: if_splits)
qed

lemma load_inv_request:
  assumes inv: "load_inv count k s" and i: "i < length (ls_workers s)" "wk_pc (ls_workers s ! i) = W_request"
  shows "load_inv count k (worker_request ops payload latency res i s)"
proof -
  let ?ws = "ls_workers s"
  let ?r = "one_request ops payload latency res (wk_rec (?ws ! i))"
  let ?w = "(?ws ! i)\<lparr>wk_pc := W_pull, wk_rec := ?r\<rparr>"
  have "recorded ?ws \<le> unat count" using inv unfolding load_inv_def by linarith
  then have "rec_count (wk_rec (?ws ! i)) + 1 < 2 ^ 64"
    using recorded_member [OF i(1)] inv by (simp add: load_inv_def)
  then have "rec_count ?r = rec_count (wk_rec (?ws ! i)) + 1" by (rule one_request_counts)
  then have r: "recorded (?ws[i := ?w]) = recorded ?ws + 1" using recorded_update [OF i(1), of ?w] by simp
  note c = in_pc_update [OF i(1), of _ ?w]
  show ?thesis
    using inv r c [of W_request] c [of W_done] c [of W_panicked] i
    unfolding load_inv_def worker_request_def Let_def by auto
qed

lemma load_inv_panic:
  assumes inv: "load_inv count k s" and i: "i < length (ls_workers s)" "wk_pc (ls_workers s ! i) = W_request"
  shows "load_inv count k (worker_panic i s)"
proof -
  let ?ws = "ls_workers s"
  let ?w = "(?ws ! i)\<lparr>wk_pc := W_panicked\<rparr>"
  have r: "recorded (?ws[i := ?w]) = recorded ?ws" using recorded_update [OF i(1), of ?w] by simp
  note c = in_pc_update [OF i(1), of _ ?w]
  show ?thesis
    using inv r c [of W_request] c [of W_done] c [of W_panicked] i
    unfolding load_inv_def worker_panic_def by auto
qed

lemma load_inv_start:
  assumes "rec_count rec0 = 0" "unat count + max concurrency 1 < 2 ^ 64"
  shows "load_inv count (max concurrency 1) (run_count_start rec0 concurrency)"
  using assms by (simp add: load_inv_def run_count_start_def recorded_def in_pc_def sum_list_replicate)

interpretation ld: invariant_system
  "\<lambda>s. s = run_count_start rec0 concurrency \<and> rec_count rec0 = 0 \<and> unat count + max concurrency 1 < 2 ^ 64"
  "load_step ops payload count" "load_inv count (max concurrency 1)"
  for ops :: "('hi, 'f) metric_ops" and payload count rec0 concurrency
proof unfold_locales
  fix s
  show "load_inv count (max concurrency 1) s"
    if "s = run_count_start rec0 concurrency \<and> rec_count rec0 = 0 \<and> unat count + max concurrency 1 < 2 ^ 64"
    using that load_inv_start [of rec0 count concurrency] by blast
next
  fix s s'
  show "load_inv count (max concurrency 1) s'"
    if "load_step ops payload count s s'" "load_inv count (max concurrency 1) s"
    using that by cases (blast intro: load_inv_pull load_inv_request load_inv_panic)+
qed

text \<open>
  Joining adds up what the workers that ended have recorded, and one failure for each that panicked;
  what a panicked worker had recorded is lost.
\<close>

definition kept :: "'hi worker list \<Rightarrow> nat" where
  "kept ws = recorded (filter (\<lambda>w. wk_pc w \<noteq> W_panicked) ws)"

definition lost :: "'hi worker list \<Rightarrow> nat" where
  "lost ws = recorded (filter (\<lambda>w. wk_pc w = W_panicked) ws)"

lemma kept_lost: "recorded ws = kept ws + lost ws"
  by (induction ws) (auto simp: kept_def lost_def recorded_def)

lemma unat_sum: "unat (x :: 64 word) + unat y < 2 ^ 64 \<Longrightarrow> unat (x + y) = unat x + unat y"
  by (simp add: unat_word_ariths)

lemma merge_counts:
  assumes add: "mo_add ops (rc_hist r) (rc_hist other) = Some h" and fits: "rec_count r + rec_count other < 2 ^ 64"
  obtains m where "merge ops r other = Return m" "rec_count m = rec_count r + rec_count other"
proof -
  have "unat (rc_success r + rc_success other) = unat (rc_success r) + unat (rc_success other)"
    "unat (rc_failure r + rc_failure other) = unat (rc_failure r) + unat (rc_failure other)"
    using fits by (auto simp: rec_count_def intro!: unat_sum)
  then show thesis
    using add by (intro that) (simp add: merge_def, simp add: rec_count_def)
qed

lemma join_counts:
  assumes add: "\<And>a b. mo_add ops a b \<noteq> None"
    and fits: "rec_count m + kept ws + in_pc W_panicked ws < 2 ^ 64"
  shows "\<exists>r. join_workers ops m ws = Return r \<and> rec_count r = rec_count m + kept ws + in_pc W_panicked ws"
  using fits
proof (induction ws arbitrary: m)
  case (Cons w ws)
  show ?case
  proof (cases "wk_pc w = W_panicked")
    case True
    have "unat (rc_failure m + 1) = unat (rc_failure m) + 1"
      by (rule unat_inc) (use Cons.prems True in \<open>simp add: rec_count_def in_pc_def\<close>)
    then have "rec_count (record_failure m) = rec_count m + 1" by (simp add: rec_count_def record_failure_def)
    then show ?thesis
      using Cons.IH [of "record_failure m"] Cons.prems True by (simp add: kept_def recorded_def in_pc_def)
  next
    case False
    obtain h where h: "mo_add ops (rc_hist m) (rc_hist (wk_rec w)) = Some h" using add by fastforce
    have "rec_count m + rec_count (wk_rec w) < 2 ^ 64"
      using Cons.prems False by (simp add: kept_def recorded_def)
    then obtain m' where "merge ops m (wk_rec w) = Return m'" "rec_count m' = rec_count m + rec_count (wk_rec w)"
      using merge_counts [OF h] by blast
    then show ?thesis
      using Cons.IH [of m'] Cons.prems False by (simp add: kept_def recorded_def in_pc_def add.assoc)
  qed
qed (simp add: kept_def recorded_def in_pc_def)

definition all_ended :: "'hi worker list \<Rightarrow> bool" where
  "all_ended ws \<longleftrightarrow> list_all (\<lambda>w. wk_pc w = W_done \<or> wk_pc w = W_panicked) ws"

lemma ended_inv:
  assumes inv: "load_inv count k s" and ended: "all_ended (ls_workers s)"
    and one: "list_ex (\<lambda>w. wk_pc w = W_done) (ls_workers s)"
  shows "recorded (ls_workers s) + in_pc W_panicked (ls_workers s) = unat count"
proof -
  have "in_pc W_request (ls_workers s) = 0" using ended by (intro in_pc_all) (auto simp: all_ended_def list_all_iff)
  moreover have "0 < in_pc W_done (ls_workers s)"
    using one in_pc_pos [of _ "ls_workers s"] by (fastforce simp: list_ex_iff)
  ultimately show ?thesis using inv unfolding load_inv_def by linarith
qed

lemma run_count_reaches_inv:
  assumes start: "Recorder_new ops = Return rec0" and fits: "unat count + max concurrency 1 < 2 ^ 64"
    and run: "(load_step ops payload count)\<^sup>*\<^sup>* (run_count_start rec0 concurrency) s"
  shows "load_inv count (max concurrency 1) s"
proof (rule ld.reach_inv)
  have "rec_count rec0 = 0" using start by (auto simp: Recorder_new_def rec_count_def split: option.splits)
  then show "reach (\<lambda>s. s = run_count_start rec0 concurrency \<and> rec_count rec0 = 0 \<and>
      unat count + max concurrency 1 < 2 ^ 64) (load_step ops payload count) s"
    using fits run by (intro reach_rtranclp [of _ "run_count_start rec0 concurrency"]) simp_all
qed

lemma run_count_joined:
  assumes start: "Recorder_new ops = Return rec0" and add: "\<And>a b. mo_add ops a b \<noteq> None"
    and fits: "unat count + max concurrency 1 < 2 ^ 64"
    and run: "(load_step ops payload count)\<^sup>*\<^sup>* (run_count_start rec0 concurrency) s"
    and ended: "all_ended (ls_workers s)" "list_ex (\<lambda>w. wk_pc w = W_done) (ls_workers s)"
  shows "\<exists>r. join_all ops (ls_workers s) = Return r \<and> rec_count r + lost (ls_workers s) = unat count"
proof -
  have sum: "kept (ls_workers s) + lost (ls_workers s) + in_pc W_panicked (ls_workers s) = unat count"
    using ended_inv [OF run_count_reaches_inv [OF start fits run] ended] by (simp add: kept_lost)
  have zero: "rec_count rec0 = 0" using start by (auto simp: Recorder_new_def rec_count_def split: option.splits)
  have "rec_count rec0 + kept (ls_workers s) + in_pc W_panicked (ls_workers s) < 2 ^ 64"
    using sum zero fits by linarith
  from join_counts [OF add this] zero sum start show ?thesis by (auto simp: join_all_def)
qed

section \<open>What a run reports\<close>

text \<open>A histogram that only counts, and seconds as numbers: enough to run the harness.\<close>

definition sample_metrics :: "(nat, nat) metric_ops" where
  "sample_metrics =
     \<lparr>mo_new = (\<lambda>_ _ _. Some 0), mo_record = (\<lambda>_ h. h + 1), mo_add = (\<lambda>a b. Some (a + b)), mo_quantile = (\<lambda>_ _. 1),
      mo_float = unat, mo_secs = (\<lambda>d. d div 10 ^ 9), mo_pos = (\<lambda>x. 0 < x), mo_div = (div), mo_zero = 0,
      mo_thousand = 1000\<rparr>"

definition sample_rec :: "nat Recorder" where
  "sample_rec = \<lparr>rc_hist = 0, rc_success = 0, rc_failure = 0\<rparr>"

text \<open>Two workers and a count of two: one answers its request and ends, the other one panics.\<close>

definition sample_run :: "nat load_state" where
  "sample_run =
     worker_pull 2 0 (worker_panic 1 (worker_request sample_metrics [7] 5000 (Rpc_reply [7]) 0
       (worker_pull 2 1 (worker_pull 2 0 (run_count_start sample_rec 2)))))"

lemma word_two_not_le_one: "\<not> (2 :: 64 word) \<le> 1"
  by (simp add: word_le_nat_alt)

lemmas sample_load_defs = run_count_start_def worker_pull_def worker_request_def worker_panic_def one_request_def
  record_success_def Let_def numeral_2_eq_2 sample_rec_def word_two_not_le_one

lemma sample_run_ends:
  "ls_workers sample_run =
     [\<lparr>wk_pc = W_done, wk_rec = \<lparr>rc_hist = 1, rc_success = 1, rc_failure = 0\<rparr>\<rparr>,
      \<lparr>wk_pc = W_panicked, wk_rec = sample_rec\<rparr>]"
  by (simp add: sample_run_def sample_load_defs sample_metrics_def)

lemma sample_run_steps: "(load_step sample_metrics [7] 2)\<^sup>*\<^sup>* (run_count_start sample_rec 2) sample_run"
proof -
  let ?step = "load_step sample_metrics [7] 2"
  let ?s0 = "run_count_start sample_rec 2"
  let ?s1 = "worker_pull 2 0 ?s0" let ?s2 = "worker_pull 2 1 ?s1"
  let ?s3 = "worker_request sample_metrics [7] 5000 (Rpc_reply [7]) 0 ?s2"
  let ?s4 = "worker_panic 1 ?s3"
  note s = sample_load_defs
  have "?step ?s0 ?s1" by (rule ld_pull) (simp_all add: s)
  moreover have "?step ?s1 ?s2" by (rule ld_pull) (simp_all add: s)
  moreover have "?step ?s2 ?s3" by (rule ld_request) (simp_all add: s)
  moreover have "?step ?s3 ?s4" by (rule ld_panic) (simp_all add: s)
  moreover have "?step ?s4 sample_run" unfolding sample_run_def by (rule ld_pull) (simp_all add: s)
  ultimately show ?thesis by (meson rtranclp.rtrancl_into_rtrancl rtranclp.rtrancl_refl)
qed



text \<open>
  The summary of a benchmark is about the requests that were asked for. Against a server that
  echoes, \<open>drive_load\<close> with a count passes its self-check for every payload size and, when no worker
  panicked, reports a total equal to the count, split into successes and failures without a loss, and
  percentiles exactly when a request succeeded.
\<close>

theorem drive_load_total:
  assumes new: "Recorder_new ops = Return rec0" and add: "\<And>a b. mo_add ops a b \<noteq> None"
    and cfg: "lc_limit cfg = Count n" "lc_warmup cfg = None"
    and fits: "unat n + max (lc_concurrency cfg) 1 < 2 ^ 64"
    and run: "(load_step ops (make_payload (lc_payload_size cfg)) n)\<^sup>*\<^sup>*
      (run_count_start rec0 (lc_concurrency cfg)) s"
    and ended: "list_all (\<lambda>w. wk_pc w = W_done) (ls_workers s)"
  shows "\<exists>b. drive_load ops fmt echo (\<lambda>_ _. ls_workers s) timed elapsed cfg = Return (Ok b) \<and>
     bs_total b = n \<and> unat (bs_success b) + unat (bs_failure b) = unat n \<and>
     (bs_p99_us b \<noteq> None \<longleftrightarrow> 0 < bs_success b)"
proof -
  have "load_inv n (max (lc_concurrency cfg) 1) s" by (rule run_count_reaches_inv [OF new fits run])
  then have "ls_workers s \<noteq> []" by (auto simp: load_inv_def)
  then have e: "all_ended (ls_workers s)" "list_ex (\<lambda>w. wk_pc w = W_done) (ls_workers s)" "lost (ls_workers s) = 0"
    using ended by (auto simp: all_ended_def list_all_iff list_ex_iff neq_Nil_conv lost_def recorded_def)
  obtain r where r: "join_all ops (ls_workers s) = Return r" "rec_count r = unat n"
    using run_count_joined [OF new add fits run e(1,2)] e(3) by auto
  have "unat (rc_success r) + unat (rc_failure r) < 2 ^ 64" using r(2) fits by (simp add: rec_count_def)
  then have "rc_success r + rc_failure r = n" using r(2) by (intro word_unat_eq_iff [THEN iffD2]) (simp add: unat_sum rec_count_def)
  then show ?thesis
    using r cfg by (simp add: drive_load_def echo_def from_recorder_def Let_def rec_count_def)
qed

definition sample_cfg :: LoadConfig where
  "sample_cfg = \<lparr>lc_payload_size = 1, lc_concurrency = 1, lc_limit = Count 1, lc_warmup = None, lc_connect_timeout = 1,
     lc_request_timeout = 1\<rparr>"

definition sample_counted :: "nat load_state" where
  "sample_counted =
     worker_pull 1 0 (worker_request sample_metrics [0] 5000 (Rpc_reply [0]) 0
       (worker_pull 1 0 (run_count_start sample_rec 1)))"

lemma sample_counted_steps: "(load_step sample_metrics [0] 1)\<^sup>*\<^sup>* (run_count_start sample_rec 1) sample_counted"
proof -
  let ?step = "load_step sample_metrics [0] 1"
  let ?s0 = "run_count_start sample_rec 1"
  let ?s1 = "worker_pull 1 0 ?s0"
  let ?s2 = "worker_request sample_metrics [0] 5000 (Rpc_reply [0]) 0 ?s1"
  note s = sample_load_defs
  have "?step ?s0 ?s1" by (rule ld_pull) (simp_all add: s)
  moreover have "?step ?s1 ?s2" by (rule ld_request) (simp_all add: s)
  moreover have "?step ?s2 sample_counted" unfolding sample_counted_def by (rule ld_pull) (simp_all add: s)
  ultimately show ?thesis by (meson rtranclp.rtrancl_into_rtrancl rtranclp.rtrancl_refl)
qed

theorem drive_load_total_witness:
  "\<exists>b. drive_load sample_metrics (\<lambda>_. ''1s'') echo (\<lambda>_ _. ls_workers sample_counted) (\<lambda>_ _. []) 5000 sample_cfg =
       Return (Ok b) \<and> bs_total b = 1 \<and> unat (bs_success b) + unat (bs_failure b) = 1 \<and>
     (bs_p99_us b \<noteq> None \<longleftrightarrow> 0 < bs_success b)"
proof -
  have n: "Recorder_new sample_metrics = Return sample_rec"
    by (simp add: Recorder_new_def sample_metrics_def sample_rec_def)
  have a: "mo_add sample_metrics a b \<noteq> None" for a b by (simp add: sample_metrics_def)
  have c: "lc_limit sample_cfg = Count 1" "lc_warmup sample_cfg = None" by (simp_all add: sample_cfg_def)
  have r: "(load_step sample_metrics (make_payload (lc_payload_size sample_cfg)) 1)\<^sup>*\<^sup>*
      (run_count_start sample_rec (lc_concurrency sample_cfg)) sample_counted"
    using sample_counted_steps by (simp add: sample_cfg_def make_payload_def)
  have e: "list_all (\<lambda>w. wk_pc w = W_done) (ls_workers sample_counted)"
    by (simp add: sample_counted_def sample_load_defs sample_metrics_def)
  show ?thesis
    using drive_load_total [OF n a c _ r e, of "\<lambda>_. ''1s''" "\<lambda>_ _. []" 5000] by (simp add: sample_cfg_def)
qed

end
