(* ===== verification/MetricsTests.thy ===== *)
theory MetricsTests
  imports Bench
begin

text \<open>
  The unit tests of \<open>tests/bench/src/metrics.rs\<close>. Each runs the recorder and the summary of theory \<open>Bench\<close> on given samples and
  asserts what comes out; an assertion that fails is a panic.
\<close>

section \<open>Assertions\<close>

text \<open>The assertions of a test in their order, each with its text; the first that fails is the panic.\<close>

fun assert_all :: "(bool \<times> string) list \<Rightarrow> unit outcome" where
  "assert_all [] = Return ()"
| "assert_all ((b, msg) # rest) = (if b then assert_all rest else Panic msg)"

lemma assert_all_pass: "assert_all as = Return () \<longleftrightarrow> list_all fst as"
  by (induction as rule: assert_all.induct) auto

text \<open>A test begins with a new recorder.\<close>

definition with_recorder :: "('hi, 'f) metric_ops \<Rightarrow> ('hi Recorder \<Rightarrow> unit outcome) \<Rightarrow> unit outcome" where
  "with_recorder ops body = (case Recorder_new ops of Panic m \<Rightarrow> Panic m | Return rec \<Rightarrow> body rec)"

definition millis :: "nat \<Rightarrow> nat" where
  "millis n = n * 10 ^ 6"

definition seconds :: "nat \<Rightarrow> nat" where
  "seconds n = n * 10 ^ 9"

definition samples :: "('hi, 'f) metric_ops \<Rightarrow> nat \<Rightarrow> nat \<Rightarrow> 'hi Recorder \<Rightarrow> 'hi Recorder" where
  "samples ops n latency = record_success ops latency ^^ n"

section \<open>The tests\<close>

text \<open>
  What the tests use of floating-point numbers and of serde: \<open>tf_near x n\<close> is \<open>(x - n).abs() < 1.0\<close>, \<open>tf_about_two x\<close> is
  \<open>(1.9..=2.1).contains(x)\<close>, \<open>tf_is x n\<close> is \<open>x == n\<close>; a JSON value is rendered and parsed.
\<close>

record 'f test_floats =
  tf_near :: "'f \<Rightarrow> nat \<Rightarrow> bool"
  tf_about_two :: "'f \<Rightarrow> bool"
  tf_is :: "'f \<Rightarrow> nat \<Rightarrow> bool"
  tf_render :: "(string \<times> 'f json) list \<Rightarrow> string"
  tf_parses :: "string \<Rightarrow> bool"

definition summary_computes_percentiles_and_throughput :: "('hi, 'f) metric_ops \<Rightarrow> 'f test_floats \<Rightarrow> unit outcome" where
  "summary_computes_percentiles_and_throughput ops fl =
     with_recorder ops (\<lambda>rec.
       let s = from_recorder ops (samples ops 1000 (millis 1) rec) (seconds 2) in
       assert_all
         [(bs_total s = 1000, ''total == 1000''), (bs_success s = 1000, ''success == 1000''), (bs_failure s = 0, ''failure == 0''),
          (tf_near fl (bs_throughput_rps s) 500, ''throughput''),
          (bs_p50_us s \<noteq> None, ''p50.unwrap()''),
          (900 \<le> the (bs_p50_us s) \<and> the (bs_p50_us s) \<le> 1100, ''p50'')])"

definition zero_success_is_percentile_safe :: "('hi, 'f) metric_ops \<Rightarrow> 'f test_floats \<Rightarrow> unit outcome" where
  "zero_success_is_percentile_safe ops fl =
     with_recorder ops (\<lambda>rec.
       let s = from_recorder ops (record_failure (record_failure rec)) (seconds 1) in
       assert_all
         [(bs_total s = 2, ''total == 2''), (bs_success s = 0, ''success == 0''), (bs_failure s = 2, ''failure == 2''),
          (tf_is fl (bs_throughput_rps s) 0, ''throughput == 0''),
          (bs_p50_us s = None, ''p50''), (bs_p90_us s = None, ''p90''), (bs_p99_us s = None, ''p99'')])"

definition merge_combines_counts :: "('hi, 'f) metric_ops \<Rightarrow> unit outcome" where
  "merge_combines_counts ops =
     with_recorder ops (\<lambda>a. with_recorder ops (\<lambda>b.
       case merge ops (record_success ops (millis 1) a) (record_failure (record_success ops (millis 2) b)) of
         Panic m \<Rightarrow> Panic m
       | Return a' \<Rightarrow>
           let s = from_recorder ops a' (seconds 1) in
           assert_all [(bs_success s = 2, ''success == 2''), (bs_failure s = 1, ''failure == 1''), (bs_total s = 3, ''total == 3'')]))"

text \<open>Comparing a member with a number or a text.\<close>

fun json_is :: "'f json option \<Rightarrow> 'f json \<Rightarrow> bool" where
  "json_is (Some (JStr s)) (JStr t) \<longleftrightarrow> s = t"
| "json_is (Some (JInt n)) (JInt m) \<longleftrightarrow> n = m"
| "json_is _ _ \<longleftrightarrow> False"

fun as_f64 :: "'f json option \<Rightarrow> 'f option" where
  "as_f64 (Some (JFloat x)) = Some x"
| "as_f64 _ = None"

definition json_has_required_schema_and_units :: "('hi, 'f) metric_ops \<Rightarrow> 'f test_floats \<Rightarrow> unit outcome" where
  "json_has_required_schema_and_units ops fl =
     with_recorder ops (\<lambda>rec.
       let s = from_recorder ops (samples ops 100 (millis 2) rec) (seconds 2);
           j = to_json ops s ''quinn'' 4096 32;
           get = map_of j in
       assert_all
         (map (\<lambda>key. (get key \<noteq> None, ''missing key''))
            [''transport'', ''payload_size'', ''concurrency'', ''count'', ''ok'', ''failed'', ''elapsed_s'', ''throughput_rps'',
             ''p50_ms'', ''p90_ms'', ''p99_ms''] @
          [(json_is (get ''transport'') (JStr ''quinn''), ''transport''), (json_is (get ''payload_size'') (JInt 4096), ''payload_size''),
           (json_is (get ''concurrency'') (JInt 32), ''concurrency''), (json_is (get ''count'') (JInt 100), ''count''),
           (json_is (get ''ok'') (JInt 100), ''ok''), (json_is (get ''failed'') (JInt 0), ''failed''),
           (case as_f64 (get ''elapsed_s'') of None \<Rightarrow> False | Some x \<Rightarrow> tf_is fl x 2, ''elapsed_s''),
           (case as_f64 (get ''throughput_rps'') of None \<Rightarrow> False | Some x \<Rightarrow> tf_near fl x 50, ''throughput_rps''),
           (case as_f64 (get ''p50_ms'') of None \<Rightarrow> False | Some x \<Rightarrow> tf_about_two fl x, ''p50_ms''),
           (CHR 0x0A \<notin> set (tf_render fl j), ''one line''), (tf_parses fl (tf_render fl j), ''from_str'')]))"

definition json_percentiles_null_on_zero_success :: "('hi, 'f) metric_ops \<Rightarrow> 'f test_floats \<Rightarrow> unit outcome" where
  "json_percentiles_null_on_zero_success ops fl =
     with_recorder ops (\<lambda>rec.
       let s = from_recorder ops (record_failure rec) (seconds 1);
           get = map_of (to_json ops s ''tcp-tls'' 64 1) in
       assert_all
         [(json_is (get ''ok'') (JInt 0), ''ok''), (json_is (get ''failed'') (JInt 1), ''failed''),
          (json_is (get ''count'') (JInt 1), ''count''),
          (get ''p50_ms'' = Some JNull, ''p50_ms''), (get ''p90_ms'' = Some JNull, ''p90_ms''), (get ''p99_ms'' = Some JNull, ''p99_ms'')])"

section \<open>Results\<close>

text \<open>
  What is relied on: the bounds of the histogram are accepted, two histograms of the same bounds can be added, a histogram keeps three
  significant digits; the division of a counter by a number of seconds is near the exact result, as is that of microseconds by a thousand, nought divided is nought,
  and serde writes a value on one line that it can read again.
\<close>

definition hist_laws :: "('hi, 'f) metric_ops \<Rightarrow> 'hi \<Rightarrow> bool" where
  "hist_laws ops h0 \<longleftrightarrow>
     mo_new ops 1 120000000 3 = Some h0 \<and>
     (\<forall>v v'. mo_add ops (mo_record ops v h0) (mo_record ops v' h0) \<noteq> None) \<and>
     (\<forall>n v q. 0 < n \<longrightarrow> 1 \<le> v \<longrightarrow> v \<le> 120000000 \<longrightarrow>
        (let p = unat (mo_quantile ops q ((mo_record ops v ^^ n) h0)) in
         999 * unat v \<le> 1000 * p \<and> 1000 * p \<le> 1001 * unat v))"

definition float_laws :: "('hi, 'f) metric_ops \<Rightarrow> 'f test_floats \<Rightarrow> bool" where
  "float_laws ops fl \<longleftrightarrow>
     (\<forall>k. mo_pos ops (mo_secs ops (seconds k)) \<longleftrightarrow> 0 < k) \<and> (\<forall>k < 2 ^ 32. tf_is fl (mo_secs ops (seconds k)) k) \<and>
     (\<forall>n k. 0 < k \<longrightarrow> n * k < 2 ^ 32 \<longrightarrow> tf_near fl (mo_div ops (mo_float ops (of_nat (n * k))) (mo_secs ops (seconds k))) n) \<and>
     (\<forall>k. 0 < k \<longrightarrow> tf_is fl (mo_div ops (mo_float ops 0) (mo_secs ops (seconds k))) 0) \<and>
     (\<forall>us. 1900 < us \<and> us < 2100 \<longrightarrow> tf_about_two fl (mo_div ops (mo_float ops us) (mo_thousand ops))) \<and>
     (\<forall>j. CHR 0x0A \<notin> set (tf_render fl j) \<and> tf_parses fl (tf_render fl j))"

lemma as_micros_millis: "as_micros (millis n) = n * 1000"
  by (simp add: as_micros_def millis_def)

lemma samples_spec:
  assumes "us = (of_nat (min (as_micros latency) (2 ^ 64 - 1)) :: 64 word)"
  shows "samples ops n latency r =
    r\<lparr>rc_success := rc_success r + of_nat n, rc_hist := (mo_record ops (max us 1) ^^ n) (rc_hist r)\<rparr>"
  using assms unfolding samples_def
  by (induction n) (simp_all add: record_success_def Let_def add.assoc add.commute)

lemma with_fresh:
  assumes "hist_laws ops h0"
  shows "with_recorder ops body = body \<lparr>rc_hist = h0, rc_success = 0, rc_failure = 0\<rparr>"
  using assms by (simp add: with_recorder_def Recorder_new_def hist_laws_def)

lemma quantile_near:
  assumes "hist_laws ops h0" "0 < n" "1 \<le> v" "v \<le> 120000000"
  shows "999 * unat v \<le> 1000 * unat (mo_quantile ops q ((mo_record ops v ^^ n) h0))"
    and "1000 * unat (mo_quantile ops q ((mo_record ops v ^^ n) h0)) \<le> 1001 * unat v"
  using assms unfolding hist_laws_def Let_def by blast+

lemma quantile_of_millis:
  assumes h: "hist_laws ops h0" and k: "0 < k" "k \<le> 100" and n: "0 < n"
  shows "999 * k \<le> unat (mo_quantile ops q ((mo_record ops (of_nat (k * 1000)) ^^ n) h0))"
    and "unat (mo_quantile ops q ((mo_record ops (of_nat (k * 1000)) ^^ n) h0)) \<le> 1001 * k"
proof -
  have u: "unat (of_nat (k * 1000) :: 64 word) = k * 1000" using k by (simp add: unat_of_nat del: of_nat_mult)
  have "1 \<le> (of_nat (k * 1000) :: 64 word)" "(of_nat (k * 1000) :: 64 word) \<le> 120000000"
    using k unfolding word_le_nat_alt u by simp_all
  from quantile_near [OF h n this, of q] show "999 * k \<le> unat (mo_quantile ops q ((mo_record ops (of_nat (k * 1000)) ^^ n) h0))"
    and "unat (mo_quantile ops q ((mo_record ops (of_nat (k * 1000)) ^^ n) h0)) \<le> 1001 * k" unfolding u by linarith+
qed

lemma samples_millis:
  assumes "0 < k" "k \<le> 100"
  shows "samples ops n (millis k) \<lparr>rc_hist = h0, rc_success = 0, rc_failure = 0\<rparr> =
    \<lparr>rc_hist = (mo_record ops (of_nat (k * 1000)) ^^ n) h0, rc_success = of_nat n, rc_failure = 0\<rparr>"
proof -
  have "min (as_micros (millis k)) (2 ^ 64 - 1) = k * 1000" using assms by (simp add: as_micros_millis)
  moreover have "max (of_nat (k * 1000)) 1 = (of_nat (k * 1000) :: 64 word)"
  proof -
    have "unat (of_nat (k * 1000) :: 64 word) = k * 1000" using assms by (simp add: unat_of_nat del: of_nat_mult)
    with assms show ?thesis by (simp add: max_def word_le_nat_alt)
  qed
  ultimately show ?thesis using samples_spec [OF refl, of ops n "millis k"] by simp
qed

lemma near_quotient:
  assumes "float_laws ops fl" "0 < k" "n * k < 2 ^ 32"
  shows "tf_near fl (mo_div ops (mo_float ops (of_nat (n * k))) (mo_secs ops (seconds k))) n"
  using assms unfolding float_laws_def by blast

lemma positive_seconds: "float_laws ops fl \<Longrightarrow> mo_pos ops (mo_secs ops (seconds k)) \<longleftrightarrow> 0 < k"
  unfolding float_laws_def by blast

lemma throughput_test:
  assumes h: "hist_laws ops h0" and f: "float_laws ops fl"
  shows "summary_computes_percentiles_and_throughput ops fl = Return ()"
proof -
  let ?h = "(mo_record ops (of_nat (1 * 1000)) ^^ 1000) h0"
  let ?q = "mo_quantile ops 50 ?h"
  have "999 \<le> unat ?q" "unat ?q \<le> 1001" using quantile_of_millis [OF h, of 1 1000 50] by simp_all
  then have "900 \<le> ?q" "?q \<le> 1100" by (simp_all add: word_le_nat_alt)
  moreover note near_quotient [OF f, of 2 500] positive_seconds [OF f, of 2]
  ultimately show ?thesis
    using samples_millis [of 1 ops 1000 h0]
    by (simp add: summary_computes_percentiles_and_throughput_def with_fresh [OF h] assert_all_pass from_recorder_def Let_def)
qed

lemma zero_success_test:
  assumes h: "hist_laws ops h0" and f: "float_laws ops fl"
  shows "zero_success_is_percentile_safe ops fl = Return ()" "json_percentiles_null_on_zero_success ops fl = Return ()"
proof -
  from f have "tf_is fl (mo_div ops (mo_float ops 0) (mo_secs ops (seconds 1))) 0" "mo_pos ops (mo_secs ops (seconds 1))"
    unfolding float_laws_def by simp_all
  then show "zero_success_is_percentile_safe ops fl = Return ()"
    by (simp add: zero_success_is_percentile_safe_def with_fresh [OF h] assert_all_pass from_recorder_def record_failure_def Let_def)
  show "json_percentiles_null_on_zero_success ops fl = Return ()"
    by (simp add: json_percentiles_null_on_zero_success_def with_fresh [OF h] assert_all_pass from_recorder_def record_failure_def
        to_json_def Let_def)
qed

lemma merge_test:
  assumes h: "hist_laws ops h0"
  shows "merge_combines_counts ops = Return ()"
proof -
  have "mo_add ops (mo_record ops v h0) (mo_record ops v' h0) \<noteq> None" for v v' using h unfolding hist_laws_def by blast
  then show ?thesis
    by (simp add: merge_combines_counts_def with_fresh [OF h] assert_all_pass from_recorder_def record_failure_def record_success_def
        merge_def Let_def split: option.split)
qed

lemma schema_test:
  assumes h: "hist_laws ops h0" and f: "float_laws ops fl"
  shows "json_has_required_schema_and_units ops fl = Return ()"
proof -
  let ?h = "(mo_record ops (of_nat (2 * 1000)) ^^ 100) h0"
  let ?q = "mo_quantile ops 50 ?h"
  have "1998 \<le> unat ?q" "unat ?q \<le> 2002" using quantile_of_millis [OF h, of 2 100 50] by simp_all
  then have "1900 < ?q" "?q < 2100" by (simp_all add: word_less_nat_alt)
  with f have "tf_about_two fl (mo_div ops (mo_float ops ?q) (mo_thousand ops))" unfolding float_laws_def by blast
  moreover have "tf_is fl (mo_secs ops (seconds 2)) 2" "\<And>j. CHR 0x0A \<notin> set (tf_render fl j) \<and> tf_parses fl (tf_render fl j)"
    using f unfolding float_laws_def by simp_all
  moreover note near_quotient [OF f, of 2 50] positive_seconds [OF f, of 2]
  ultimately show ?thesis
    using samples_millis [of 2 ops 100 h0]
    by (simp add: json_has_required_schema_and_units_def with_fresh [OF h] assert_all_pass from_recorder_def to_json_def Let_def)
qed

text \<open>
  The unit tests of the metrics pass. Over every histogram that keeps three significant digits and floating-point arithmetic that is near enough, the
  summary of equal samples has the throughput and the percentiles of the samples, a run without a success has no percentile and no throughput,
  merging adds the counts, and the JSON object has all its members, in the units that are asserted.
\<close>

theorem metrics_tests_pass:
  assumes "hist_laws ops h0" "float_laws ops fl"
  shows "summary_computes_percentiles_and_throughput ops fl = Return () \<and> zero_success_is_percentile_safe ops fl = Return () \<and>
    merge_combines_counts ops = Return () \<and> json_has_required_schema_and_units ops fl = Return () \<and>
    json_percentiles_null_on_zero_success ops fl = Return ()"
  using throughput_test [OF assms] zero_success_test [OF assms] merge_test [OF assms(1)] schema_test [OF assms] by blast

text \<open>A histogram that is the list of its samples, with the operations on integers.\<close>

definition exact_ops :: "(64 word list, int) metric_ops" where
  "exact_ops = \<lparr>mo_new = (\<lambda>a b c. Some []), mo_record = (#), mo_add = (\<lambda>a b. Some (a @ b)),
     mo_quantile = (\<lambda>q h. case h of [] \<Rightarrow> 0 | x # _ \<Rightarrow> x), mo_float = (\<lambda>n. uint n), mo_secs = (\<lambda>d. int (d div 10 ^ 9)),
     mo_pos = (\<lambda>x. 0 < x), mo_div = (\<lambda>x y. x div y), mo_zero = 0, mo_thousand = 1000\<rparr>"

definition exact_floats :: "int test_floats" where
  "exact_floats = \<lparr>tf_near = (\<lambda>x n. x = int n), tf_about_two = (\<lambda>x. 1 \<le> x \<and> x \<le> 2), tf_is = (\<lambda>x n. x = int n),
     tf_render = (\<lambda>j. []), tf_parses = (\<lambda>s. True)\<rparr>"

lemma exact_laws: "hist_laws exact_ops []" "float_laws exact_ops exact_floats"
proof -
  have "(Cons v ^^ n) [] = v # (Cons v ^^ (n - 1)) []" if "0 < n" for v :: "64 word" and n using that by (cases n) simp_all
  then show "hist_laws exact_ops []" by (simp add: hist_laws_def exact_ops_def Let_def)
  have d: "uint (of_nat (n * k) :: 64 word) div int k = int n" if "0 < k" "n * k < 2 ^ 32" for n k
  proof -
    have "uint (of_nat (n * k) :: 64 word) = int (n * k)"
      using that by (simp add: unat_of_nat uint_nat del: of_nat_mult)
    with that show ?thesis by simp
  qed
  have "1 \<le> uint us div 1000 \<and> uint us div 1000 \<le> 2" if "1900 < us" "us < 2100" for us :: "64 word"
  proof -
    have "1900 < uint us" "uint us < 2100" using that by (simp_all add: word_less_def)
    then show ?thesis by linarith
  qed
  with d show "float_laws exact_ops exact_floats"
    by (simp add: float_laws_def exact_ops_def exact_floats_def seconds_def del: of_nat_mult)
qed

theorem metrics_tests_pass_witness:
  "summary_computes_percentiles_and_throughput exact_ops exact_floats = Return () \<and> merge_combines_counts exact_ops = Return ()"
  using metrics_tests_pass [OF exact_laws] by blast

end
