(* ===== verification/Cli.thy ===== *)
theory Cli
  imports Bench
begin

text \<open>
  The command lines of the benchmark: what the attributes on \<open>ServerArgs\<close> and \<open>ClientArgs\<close> of \<open>tests/bench/src/lib.rs\<close> declare, the structures that are
  made of the matches, and the unit tests of the module \<open>cli\<close>. The parser of clap is a parameter.
\<close>

section \<open>Declarations\<close>

text \<open>
  One declared option: its long name, how its value is parsed, its default, whether it is an \<open>Option\<close> and its group. An option that has no default and is not an
  \<open>Option\<close> is required; the options of a group exclude each other.
\<close>

datatype value_kind =
    Any_text
  | Value_enum "string list"
  | Unsigned nat nat

record arg_spec =
  ar_long :: string
  ar_kind :: value_kind
  ar_default :: "string option"
  ar_optional :: bool
  ar_group :: "string option"

definition transports :: "Transport list" where
  "transports = [TcpTls, Quinn, Msquic, S2nQuic, Quiche]"

fun format_name :: "OutputFormat \<Rightarrow> string" where
  "format_name Text = ''text''"
| "format_name Json = ''json''"

definition formats :: "OutputFormat list" where
  "formats = [Text, Json]"

definition DEFAULT_ADDR :: string where
  "DEFAULT_ADDR = ''127.0.0.1:5000''"

definition server_command :: "arg_spec list" where
  "server_command =
     [\<lparr>ar_long = ''transport'', ar_kind = Value_enum (map transport_display transports), ar_default = None, ar_optional = False, ar_group = None\<rparr>,
      \<lparr>ar_long = ''addr'', ar_kind = Any_text, ar_default = Some DEFAULT_ADDR, ar_optional = False, ar_group = None\<rparr>]"

definition client_command :: "arg_spec list" where
  "client_command =
     [\<lparr>ar_long = ''transport'', ar_kind = Value_enum (map transport_display transports), ar_default = None, ar_optional = False, ar_group = None\<rparr>,
      \<lparr>ar_long = ''addr'', ar_kind = Any_text, ar_default = Some DEFAULT_ADDR, ar_optional = False, ar_group = None\<rparr>,
      \<lparr>ar_long = ''format'', ar_kind = Value_enum (map format_name formats), ar_default = Some (format_name Text), ar_optional = False, ar_group = None\<rparr>,
      \<lparr>ar_long = ''payload-size'', ar_kind = Unsigned 0 (2 ^ 64), ar_default = Some ''64'', ar_optional = False, ar_group = None\<rparr>,
      \<lparr>ar_long = ''concurrency'', ar_kind = Unsigned 1 (2 ^ 32), ar_default = Some ''16'', ar_optional = False, ar_group = None\<rparr>,
      \<lparr>ar_long = ''count'', ar_kind = Unsigned 0 (2 ^ 64), ar_default = None, ar_optional = True, ar_group = Some ''load''\<rparr>,
      \<lparr>ar_long = ''duration'', ar_kind = Unsigned 0 (2 ^ 64), ar_default = None, ar_optional = True, ar_group = Some ''load''\<rparr>,
      \<lparr>ar_long = ''warmup'', ar_kind = Unsigned 0 (2 ^ 64), ar_default = None, ar_optional = True, ar_group = None\<rparr>,
      \<lparr>ar_long = ''connect-timeout'', ar_kind = Unsigned 0 (2 ^ 64), ar_default = Some ''5'', ar_optional = False, ar_group = None\<rparr>,
      \<lparr>ar_long = ''request-timeout'', ar_kind = Unsigned 0 (2 ^ 64), ar_default = Some ''30'', ar_optional = False, ar_group = None\<rparr>]"

section \<open>Values\<close>

text \<open>\<open>from_str\<close> of the unsigned types: an optional plus sign and digits, without overflow.\<close>

definition digit_val :: "char \<Rightarrow> nat option" where
  "digit_val c = (let n = of_char c in if 48 \<le> n \<and> n \<le> (57 :: nat) then Some (n - 48) else None)"

fun parse_digits :: "nat \<Rightarrow> string \<Rightarrow> nat option" where
  "parse_digits acc [] = Some acc"
| "parse_digits acc (c # cs) = (case digit_val c of None \<Rightarrow> None | Some d \<Rightarrow> parse_digits (10 * acc + d) cs)"

definition parse_unsigned :: "string \<Rightarrow> nat option" where
  "parse_unsigned s =
     (let digits = (case s of [] \<Rightarrow> [] | c # cs \<Rightarrow> if c = CHR ''+'' then cs else s) in
      if digits = [] then None else parse_digits 0 digits)"

fun valid_value :: "value_kind \<Rightarrow> string \<Rightarrow> bool" where
  "valid_value Any_text v \<longleftrightarrow> True"
| "valid_value (Value_enum names) v \<longleftrightarrow> v \<in> set names"
| "valid_value (Unsigned lo hi) v \<longleftrightarrow> (case parse_unsigned v of None \<Rightarrow> False | Some n \<Rightarrow> lo \<le> n \<and> n < hi)"

section \<open>The parser\<close>

text \<open>
  \<open>given\<close> reads a command line of the form \<open>--name value\<close> with values that do not look like options. What is relied on of clap: such a command line is accepted if and only
  if every name is declared and given once, every value is valid, no two names are of one group and every required name is there; then the matches have the
  values that were given and the defaults of the others. Of other command lines nothing is relied on.
\<close>

fun given :: "string list \<Rightarrow> (string \<times> string) list option" where
  "given [] = Some []"
| "given [flag] = None"
| "given (flag # value # rest) =
     (if take 2 flag = ''--'' \<and> take 1 value \<noteq> ''-'' then map_option (Cons (drop 2 flag, value)) (given rest) else None)"

definition declared :: "arg_spec list \<Rightarrow> string \<Rightarrow> arg_spec option" where
  "declared spec name = find (\<lambda>a. ar_long a = name) spec"

definition group_of :: "arg_spec list \<Rightarrow> string \<Rightarrow> string option" where
  "group_of spec name = (case declared spec name of None \<Rightarrow> None | Some a \<Rightarrow> ar_group a)"

definition acceptable :: "arg_spec list \<Rightarrow> (string \<times> string) list \<Rightarrow> bool" where
  "acceptable spec ps \<longleftrightarrow>
     distinct (map fst ps) \<and>
     list_all (\<lambda>(name, v). case declared spec name of None \<Rightarrow> False | Some a \<Rightarrow> valid_value (ar_kind a) v) ps \<and>
     distinct (List.map_filter (group_of spec) (map fst ps)) \<and>
     list_all (\<lambda>a. ar_default a = None \<and> \<not> ar_optional a \<longrightarrow> ar_long a \<in> set (map fst ps)) spec"

definition matches :: "arg_spec list \<Rightarrow> (string \<times> string) list \<Rightarrow> string \<Rightarrow> string option" where
  "matches spec ps name =
     (case map_of ps name of
        Some v \<Rightarrow> Some v
      | None \<Rightarrow> (case declared spec name of None \<Rightarrow> None | Some a \<Rightarrow> ar_default a))"

type_synonym 'e clap = "arg_spec list \<Rightarrow> string list \<Rightarrow> 'e + (string \<Rightarrow> string option)"

definition clap_ok :: "'e clap \<Rightarrow> bool" where
  "clap_ok clap \<longleftrightarrow>
     (\<forall>spec prog args ps. given args = Some ps \<longrightarrow>
        (if acceptable spec ps then clap spec (prog # args) = Ok (matches spec ps) else (\<exists>e. clap spec (prog # args) = Err e)))"

section \<open>The structures\<close>

text \<open>What the derived code makes of the matches; it reads values that clap has validated.\<close>

definition unsigned_of :: "string option \<Rightarrow> ('w :: len) word option" where
  "unsigned_of v = (case v of None \<Rightarrow> None | Some s \<Rightarrow> map_option of_nat (parse_unsigned s))"

definition enum_of :: "('a \<Rightarrow> string) \<Rightarrow> 'a list \<Rightarrow> string option \<Rightarrow> 'a option" where
  "enum_of name variants v = find (\<lambda>x. Some (name x) = v) variants"

definition server_args_of :: "(string \<Rightarrow> string option) \<Rightarrow> ServerArgs" where
  "server_args_of m = \<lparr>sa_transport = the (enum_of transport_display transports (m ''transport'')), sa_addr = the (m ''addr'')\<rparr>"

definition client_args_of :: "(string \<Rightarrow> string option) \<Rightarrow> ClientArgs" where
  "client_args_of m =
     \<lparr>ca_transport = the (enum_of transport_display transports (m ''transport'')), ca_addr = the (m ''addr''),
      ca_format = the (enum_of format_name formats (m ''format'')),
      ca_payload_size = unat (the (unsigned_of (m ''payload-size'')) :: 64 word), ca_concurrency = the (unsigned_of (m ''concurrency'')),
      ca_count = unsigned_of (m ''count''), ca_duration = unsigned_of (m ''duration''), ca_warmup = unsigned_of (m ''warmup''),
      ca_connect_timeout = the (unsigned_of (m ''connect-timeout'')), ca_request_timeout = the (unsigned_of (m ''request-timeout''))\<rparr>"

definition server_try_parse_from :: "'e clap \<Rightarrow> string list \<Rightarrow> 'e + ServerArgs" where
  "server_try_parse_from clap argv = (case clap server_command argv of Err e \<Rightarrow> Err e | Ok m \<Rightarrow> Ok (server_args_of m))"

definition client_try_parse_from :: "'e clap \<Rightarrow> string list \<Rightarrow> 'e + ClientArgs" where
  "client_try_parse_from clap argv = (case clap client_command argv of Err e \<Rightarrow> Err e | Ok m \<Rightarrow> Ok (client_args_of m))"

section \<open>The unit tests\<close>

definition must_parse :: "'e clap \<Rightarrow> string list \<Rightarrow> (ClientArgs \<Rightarrow> unit outcome) \<Rightarrow> unit outcome" where
  "must_parse clap argv body =
     (case client_try_parse_from clap argv of Err e \<Rightarrow> Panic ''called `Result::unwrap()` on an `Err` value'' | Ok a \<Rightarrow> body a)"

definition asserts :: "bool \<Rightarrow> string \<Rightarrow> unit outcome" where
  "asserts b msg = (if b then Return () else Panic msg)"

definition count_and_duration_are_mutually_exclusive :: "'e clap \<Rightarrow> unit outcome" where
  "count_and_duration_are_mutually_exclusive clap =
     asserts (isl (client_try_parse_from clap [''bench-client'', ''--transport'', ''quinn'', ''--count'', ''5'', ''--duration'', ''3'']))
       ''supplying both --count and --duration must error''"

definition defaults_apply_when_not_specified :: "'e clap \<Rightarrow> unit outcome" where
  "defaults_apply_when_not_specified clap =
     must_parse clap [''bench-client'', ''--transport'', ''quinn''] (\<lambda>a.
       asserts (ca_payload_size a = 64 \<and> ca_concurrency a = 16 \<and> ca_connect_timeout a = 5 \<and> ca_count a = None \<and> ca_duration a = None \<and>
         limit a = Count DEFAULT_COUNT \<and> ca_format a = Text) ''assertion failed'')"

definition format_json_parses :: "'e clap \<Rightarrow> unit outcome" where
  "format_json_parses clap =
     must_parse clap [''bench-client'', ''--transport'', ''quinn'', ''--format'', ''json''] (\<lambda>a. asserts (ca_format a = Json) ''assertion failed'')"

definition transport_value_enum_parses_kebab_case :: "'e clap \<Rightarrow> unit outcome" where
  "transport_value_enum_parses_kebab_case clap =
     must_parse clap [''bench-client'', ''--transport'', ''s2n-quic''] (\<lambda>a. asserts (ca_transport a = S2nQuic) ''assertion failed'')"

definition zero_concurrency_is_rejected :: "'e clap \<Rightarrow> unit outcome" where
  "zero_concurrency_is_rejected clap =
     asserts (isl (client_try_parse_from clap [''bench-client'', ''--transport'', ''quinn'', ''--concurrency'', ''0'']))
       ''--concurrency 0 must be rejected''"

definition duration_limit_selected :: "'e clap \<Rightarrow> unit outcome" where
  "duration_limit_selected clap =
     must_parse clap [''bench-client'', ''--transport'', ''quinn'', ''--duration'', ''7''] (\<lambda>a.
       asserts (limit a = Duration (from_secs 7)) ''assertion failed'')"

section \<open>Results\<close>

lemma client_parse:
  assumes "clap_ok clap" "given args = Some ps"
  shows "client_try_parse_from clap (prog # args) = Ok a \<longleftrightarrow> acceptable client_command ps \<and> a = client_args_of (matches client_command ps)"
proof (cases "acceptable client_command ps")
  case True
  with assms have "clap client_command (prog # args) = Ok (matches client_command ps)" unfolding clap_ok_def by metis
  with True show ?thesis by (auto simp: client_try_parse_from_def)
next
  case False
  with assms obtain e where "clap client_command (prog # args) = Err e" unfolding clap_ok_def by metis
  with False show ?thesis by (auto simp: client_try_parse_from_def)
qed

lemma client_parse_cases:
  assumes "clap_ok clap" "given args = Some ps"
  obtains "acceptable client_command ps" "client_try_parse_from clap (prog # args) = Ok (client_args_of (matches client_command ps))"
  | "\<not> acceptable client_command ps" "isl (client_try_parse_from clap (prog # args))"
proof (cases "acceptable client_command ps")
  case True
  with client_parse [OF assms] that(1) show ?thesis by blast
next
  case False
  then have "\<not> (\<exists>a. client_try_parse_from clap (prog # args) = Ok a)" using client_parse [OF assms] by blast
  with False that(2) show ?thesis by (cases "client_try_parse_from clap (prog # args)") auto
qed

lemmas cli_defs = acceptable_def declared_def group_of_def matches_def client_command_def transports_def formats_def parse_unsigned_def digit_val_def
  List.map_filter_simps client_args_of_def unsigned_of_def enum_of_def Let_def

lemmas cli_test_defs = count_and_duration_are_mutually_exclusive_def defaults_apply_when_not_specified_def format_json_parses_def
  transport_value_enum_parses_kebab_case_def zero_concurrency_is_rejected_def duration_limit_selected_def asserts_def must_parse_def

lemma cli_tests:
  assumes "clap_ok clap"
  shows "count_and_duration_are_mutually_exclusive clap = Return ()" "defaults_apply_when_not_specified clap = Return ()"
    "format_json_parses clap = Return ()" "transport_value_enum_parses_kebab_case clap = Return ()"
    "zero_concurrency_is_rejected clap = Return ()" "duration_limit_selected clap = Return ()"
proof -
  note run = client_parse_cases [OF assms, of _ _ "''bench-client''"]
  have g: "given [''--transport'', ''quinn''] = Some [(''transport'', ''quinn'')]"
    "given [''--transport'', ''quinn'', ''--count'', ''5'', ''--duration'', ''3''] = Some [(''transport'', ''quinn''), (''count'', ''5''), (''duration'', ''3'')]"
    "given [''--transport'', ''quinn'', ''--format'', ''json''] = Some [(''transport'', ''quinn''), (''format'', ''json'')]"
    "given [''--transport'', ''s2n-quic''] = Some [(''transport'', ''s2n-quic'')]"
    "given [''--transport'', ''quinn'', ''--concurrency'', ''0''] = Some [(''transport'', ''quinn''), (''concurrency'', ''0'')]"
    "given [''--transport'', ''quinn'', ''--duration'', ''7''] = Some [(''transport'', ''quinn''), (''duration'', ''7'')]"
    by simp_all
  show "count_and_duration_are_mutually_exclusive clap = Return ()" by (rule run [OF g(2)]) (simp_all add: cli_test_defs cli_defs)
  show "defaults_apply_when_not_specified clap = Return ()" by (rule run [OF g(1)]) (simp_all add: cli_test_defs cli_defs limit_def)
  show "format_json_parses clap = Return ()" by (rule run [OF g(3)]) (simp_all add: cli_test_defs cli_defs)
  show "transport_value_enum_parses_kebab_case clap = Return ()" by (rule run [OF g(4)]) (simp_all add: cli_test_defs cli_defs)
  show "zero_concurrency_is_rejected clap = Return ()" by (rule run [OF g(5)]) (simp_all add: cli_test_defs cli_defs)
  show "duration_limit_selected clap = Return ()" by (rule run [OF g(6)]) (simp_all add: cli_test_defs cli_defs limit_def)
qed

text \<open>Decimal numbers, as they are printed.\<close>

fun dec :: "nat \<Rightarrow> string" where
  "dec n = (if n < 10 then [char_of (48 + n)] else dec (n div 10) @ [char_of (48 + n mod 10)])"

declare dec.simps [simp del]

lemma digit_val_char: "d < 10 \<Longrightarrow> digit_val (char_of (48 + d)) = Some d"
  by (simp add: digit_val_def Let_def)

lemma parse_digits_append:
  "parse_digits acc (xs @ ys) = (case parse_digits acc xs of None \<Rightarrow> None | Some n \<Rightarrow> parse_digits n ys)"
  by (induction acc xs rule: parse_digits.induct) (simp_all split: option.split)

lemma parse_digits_dec: "parse_digits 0 (dec n) = Some n"
proof (induction n rule: dec.induct)
  case (1 n)
  then show ?case by (cases "n < 10") (simp_all add: dec.simps [of n] digit_val_char parse_digits_append)
qed

lemma dec_head: "\<exists>c cs. dec n = c # cs \<and> digit_val c \<noteq> None"
proof (induction n rule: dec.induct)
  case (1 n)
  show ?case
  proof (cases "n < 10")
    case True
    then show ?thesis by (simp add: dec.simps [of n] digit_val_char)
  next
    case False
    with 1 show ?thesis by (auto simp: dec.simps [of n])
  qed
qed

lemma sign_no_digit [simp]: "digit_val (CHR ''+'') = None" "digit_val (CHR ''-'') = None"
  by (simp_all add: digit_val_def)

lemma parse_unsigned_dec [simp]: "parse_unsigned (dec n) = Some n"
proof -
  obtain c cs where c: "dec n = c # cs" "digit_val c \<noteq> None" using dec_head by blast
  then have "c \<noteq> CHR ''+''" by auto
  with c parse_digits_dec [of n] show ?thesis by (simp add: parse_unsigned_def)
qed

lemma dec_no_option [simp]: "take (Suc 0) (dec n) \<noteq> ''-''"
proof -
  obtain c cs where c: "dec n = c # cs" "digit_val c \<noteq> None" using dec_head by blast
  then have "c \<noteq> CHR ''-''" by auto
  with c show ?thesis by simp
qed

definition client_pairs :: "ClientArgs \<Rightarrow> (string \<times> string) list" where
  "client_pairs a =
     [(''transport'', transport_display (ca_transport a)), (''addr'', ca_addr a), (''format'', format_name (ca_format a)),
      (''payload-size'', dec (ca_payload_size a)), (''concurrency'', dec (unat (ca_concurrency a))),
      (''connect-timeout'', dec (unat (ca_connect_timeout a))), (''request-timeout'', dec (unat (ca_request_timeout a)))] @
     (case ca_count a of None \<Rightarrow> [] | Some n \<Rightarrow> [(''count'', dec (unat n))]) @
     (case ca_duration a of None \<Rightarrow> [] | Some n \<Rightarrow> [(''duration'', dec (unat n))]) @
     (case ca_warmup a of None \<Rightarrow> [] | Some n \<Rightarrow> [(''warmup'', dec (unat n))])"

definition argv_of :: "(string \<times> string) list \<Rightarrow> string list" where
  "argv_of ps = concat (map (\<lambda>(n, v). [''--'' @ n, v]) ps)"

lemma given_argv: "list_all (\<lambda>(n, v). take 1 v \<noteq> ''-'') ps \<Longrightarrow> given (argv_of ps) = Some ps"
  by (induction ps) (auto simp: argv_of_def)

lemma transport_names [simp]:
  "enum_of transport_display transports (Some (transport_display t)) = Some t"
  "transport_display t \<in> transport_display ` set transports" "take (Suc 0) (transport_display t) \<noteq> ''-''"
  by (cases t; simp add: enum_of_def transports_def)+

lemma format_names [simp]:
  "enum_of format_name formats (Some (format_name f)) = Some f"
  "format_name f \<in> format_name ` set formats" "take (Suc 0) (format_name f) \<noteq> ''-''"
  by (cases f; simp add: enum_of_def formats_def)+

lemma u64_bound [simp]: "unat (w :: 64 word) < 18446744073709551616" and u32_bound [simp]: "unat (c :: 32 word) < 4294967296"
  using unsigned_less [of w, where ?'a = nat] unsigned_less [of c, where ?'a = nat] by simp_all

lemma pairs_acceptable:
  assumes "1 \<le> ca_concurrency a" "ca_count a = None \<or> ca_duration a = None" "ca_payload_size a < 2 ^ 64"
  shows "acceptable client_command (client_pairs a)"
proof -
  have "1 \<le> unat (ca_concurrency a)" using assms(1) by (simp add: word_le_nat_alt)
  with assms(2,3) show ?thesis
    by (cases "ca_count a"; cases "ca_duration a"; cases "ca_warmup a")
      (simp_all add: acceptable_def client_pairs_def declared_def group_of_def client_command_def List.map_filter_simps)
qed

lemma pairs_matches:
  assumes "ca_payload_size a < 2 ^ 64"
  shows "client_args_of (matches client_command (client_pairs a)) = a"
proof -
  have "unat (of_nat (ca_payload_size a) :: 64 word) = ca_payload_size a" using assms by (simp add: unat_of_nat)
  then show ?thesis
    by (cases a; cases "ca_count a"; cases "ca_duration a"; cases "ca_warmup a")
      (simp_all add: client_args_of_def matches_def client_pairs_def unsigned_of_def client_command_def declared_def)
qed


text \<open>A parser that does just what is relied on.\<close>

definition plain_clap :: "string clap" where
  "plain_clap spec argv =
     (case argv of
        [] \<Rightarrow> Err ''no program''
      | prog # args \<Rightarrow> (case given args of
          None \<Rightarrow> Err ''not pairs''
        | Some ps \<Rightarrow> if acceptable spec ps then Ok (matches spec ps) else Err ''usage''))"

lemma plain_clap_ok: "clap_ok plain_clap"
  by (simp add: clap_ok_def plain_clap_def)

definition sample_cli :: ClientArgs where
  "sample_cli = \<lparr>ca_transport = Quiche, ca_addr = ''[::1]:5000'', ca_format = Json, ca_payload_size = 4096, ca_concurrency = 32, ca_count = Some 500,
     ca_duration = None, ca_warmup = Some 2, ca_connect_timeout = 3, ca_request_timeout = 9\<rparr>"


lemma group_once:
  "distinct (List.map_filter f xs) \<Longrightarrow> x \<in> set xs \<Longrightarrow> y \<in> set xs \<Longrightarrow> f x = Some g \<Longrightarrow> f y = Some g \<Longrightarrow> x = y"
proof (induction xs)
  case (Cons z xs)
  have m: "g \<in> set (List.map_filter f xs)" if "v \<in> set xs" "f v = Some g" for v
    using that by (auto simp: List.map_filter_def intro!: image_eqI [of _ _ v])
  show ?case
  proof (cases "x = z \<or> y = z")
    case True
    with Cons.prems m show ?thesis by (auto simp: List.map_filter_simps)
  next
    case False
    with Cons show ?thesis by (auto simp: List.map_filter_simps split: option.splits)
  qed
qed simp

lemma given_value_valid:
  assumes "acceptable spec ps" "map_of ps name = Some v" "declared spec name = Some a"
  shows "valid_value (ar_kind a) v"
  using assms map_of_SomeD [OF assms(2)] by (fastforce simp: acceptable_def list_all_iff)

text \<open>
  A client never runs with arguments that its declarations forbid. Whatever command line of named values is accepted, there is at least one worker, in the
  arguments and in the load configuration, count and duration are not both set, and the limit of the load is the count or the duration that was
  given, or the default count.
\<close>

theorem parsed_args_valid:
  assumes "clap_ok clap" "given args = Some ps" "client_try_parse_from clap (prog # args) = Ok a"
  shows "1 \<le> ca_concurrency a \<and> 1 \<le> lc_concurrency (load_config a) \<and>
    (case (ca_count a, ca_duration a) of
       (None, None) \<Rightarrow> limit a = Count 10000
     | (Some n, None) \<Rightarrow> limit a = Count n
     | (None, Some d) \<Rightarrow> limit a = Duration (from_secs d)
     | (Some n, Some d) \<Rightarrow> False)"
proof -
  from client_parse [OF assms(1,2)] assms(3) have ok: "acceptable client_command ps" and a: "a = client_args_of (matches client_command ps)" by blast+
  have d: "declared client_command ''concurrency'' = Some \<lparr>ar_long = ''concurrency'', ar_kind = Unsigned 1 (2 ^ 32), ar_default = Some ''16'', ar_optional = False, ar_group = None\<rparr>"
    by (simp add: declared_def client_command_def)
  obtain n where n: "matches client_command ps ''concurrency'' = Some v \<Longrightarrow> parse_unsigned v = Some n" "1 \<le> n" "n < 2 ^ 32" "matches client_command ps ''concurrency'' \<noteq> None"
    for v
  proof (cases "map_of ps ''concurrency''")
    case None
    then show ?thesis using that [of 16] d by (simp add: matches_def parse_unsigned_def digit_val_def Let_def)
  next
    case (Some v)
    from given_value_valid [OF ok Some d] show ?thesis
      using that Some by (auto simp: matches_def split: option.splits)
  qed
  then have c: "ca_concurrency a = of_nat n" by (auto simp: a client_args_of_def unsigned_of_def)
  have u: "unat (of_nat n :: 32 word) = n" using n(3) by (simp add: unat_of_nat)
  have "\<not> (map_of ps ''count'' \<noteq> None \<and> map_of ps ''duration'' \<noteq> None)"
  proof
    assume "map_of ps ''count'' \<noteq> None \<and> map_of ps ''duration'' \<noteq> None"
    then have m: "''count'' \<in> set (map fst ps)" "''duration'' \<in> set (map fst ps)" by (auto simp: map_of_eq_None_iff)
    have g: "group_of client_command ''count'' = Some ''load''" "group_of client_command ''duration'' = Some ''load''"
      by (simp_all add: group_of_def declared_def client_command_def)
    have "distinct (List.map_filter (group_of client_command) (map fst ps))" using ok by (simp add: acceptable_def)
    from group_once [of "group_of client_command" "map fst ps" "''count''" "''duration''" "''load''", OF this m g] show False by simp
  qed
  moreover have "matches client_command ps name = map_of ps name" if "name = ''count'' \<or> name = ''duration''" for name
    using that by (auto simp: matches_def declared_def client_command_def split: option.split)
  ultimately have e: "ca_count a = None \<or> ca_duration a = None" by (auto simp: a client_args_of_def unsigned_of_def)
  have "1 \<le> unat (ca_concurrency a)" using n(2) u c by simp
  moreover from this have "1 \<le> ca_concurrency a" by (simp add: word_le_nat_alt)
  moreover have "lc_concurrency (load_config a) = unat (ca_concurrency a)" by (simp add: load_config_def)
  ultimately show ?thesis
    using e by (cases "ca_count a"; cases "ca_duration a") (simp_all add: limit_def DEFAULT_COUNT_def)
qed

theorem parsed_args_valid_witness:
  "\<exists>a. client_try_parse_from plain_clap [''bench-client'', ''--transport'', ''quinn'', ''--duration'', ''7''] = Ok a \<and>
     1 \<le> ca_concurrency a \<and> limit a = Duration (from_secs 7)"
proof -
  let ?ps = "[(''transport'', ''quinn''), (''duration'', ''7'')]" and ?args = "[''--transport'', ''quinn'', ''--duration'', ''7'']"
  let ?a = "client_args_of (matches client_command ?ps)"
  have g: "given ?args = Some ?ps" by simp
  have ac: "acceptable client_command ?ps" by (simp add: cli_defs)
  have f: "ca_count ?a = None" "ca_duration ?a = Some 7" by (simp_all add: cli_defs)
  have p: "client_try_parse_from plain_clap (''bench-client'' # ?args) = Ok ?a" using client_parse [OF plain_clap_ok g] ac by blast
  from parsed_args_valid [OF plain_clap_ok g p] p f show ?thesis by (intro exI [of _ ?a]) (simp only: prod.case option.case simp_thms)
qed

text \<open>
  The unit tests of the command line pass, for every parser that does what is relied on: both limits at once and no worker at all are refused,
  the defaults apply, and the values of the enumerations are read by their names.
\<close>

theorem cli_tests_pass:
  assumes "clap_ok clap"
  shows "count_and_duration_are_mutually_exclusive clap = Return () \<and> defaults_apply_when_not_specified clap = Return () \<and>
    format_json_parses clap = Return () \<and> transport_value_enum_parses_kebab_case clap = Return () \<and>
    zero_concurrency_is_rejected clap = Return () \<and> duration_limit_selected clap = Return ()"
  using cli_tests [OF assms] by blast

theorem cli_tests_pass_witness:
  "zero_concurrency_is_rejected plain_clap = Return () \<and> defaults_apply_when_not_specified plain_clap = Return ()"
  using cli_tests_pass [OF plain_clap_ok] by blast

end
