(* ===== verification/Procedures.thy ===== *)
theory Procedures
  imports H3Prelude
begin

text \<open>
  Straight-line asynchronous code that sets libraries up, runs something and tears it down again. A procedure takes the
  world to the calls it has made, in order, its outcome and the world after it. The calls are values of a type
  of their own; what they do and return is a parameter. An \<open>await\<close> is a call that has returned.
\<close>

section \<open>Procedures\<close>

type_synonym ('c, 'w, 'e, 'a) proc = "'w \<Rightarrow> 'c list \<times> ('e + 'a) outcome \<times> 'w"

definition pret :: "'a \<Rightarrow> ('c, 'w, 'e, 'a) proc" where
  "pret x w = ([], Return (Ok x), w)"

definition pfail :: "'e \<Rightarrow> ('c, 'w, 'e, 'a) proc" where
  "pfail e w = ([], Return (Err e), w)"

definition ppanic :: "string \<Rightarrow> ('c, 'w, 'e, 'a) proc" where
  "ppanic m w = ([], Panic m, w)"

text \<open>
  A call that may also panic, one whose error is looked at, one that cannot fail, and a result that is at hand.
\<close>

definition calling :: "('c \<Rightarrow> 'w \<Rightarrow> ('e + 'a) outcome \<times> 'w) \<Rightarrow> 'c \<Rightarrow> ('c, 'w, 'e, 'a) proc" where
  "calling act c w = (case act c w of (r, w') \<Rightarrow> ([c], r, w'))"

definition invoke :: "('c \<Rightarrow> 'w \<Rightarrow> ('e + 'a) \<times> 'w) \<Rightarrow> 'c \<Rightarrow> ('c, 'w, 'e, 'a) proc" where
  "invoke lib c w = (case lib c w of (r, w') \<Rightarrow> ([c], Return r, w'))"

definition perform :: "('c \<Rightarrow> 'w \<Rightarrow> ('e + 'a) \<times> 'w) \<Rightarrow> 'c \<Rightarrow> ('c, 'w, 'e, unit) proc" where
  "perform lib c w = (case lib c w of (_, w') \<Rightarrow> ([c], Return (Ok ()), w'))"

fun presult :: "'e + 'a \<Rightarrow> ('c, 'w, 'e, 'a) proc" where
  "presult (Err e) = pfail e"
| "presult (Ok x) = pret x"

text \<open>Sequencing with \<open>?\<close>: an error or a panic ends the procedure.\<close>

definition andthen :: "('c, 'w, 'e, 'a) proc \<Rightarrow> ('a \<Rightarrow> ('c, 'w, 'e, 'b) proc) \<Rightarrow> ('c, 'w, 'e, 'b) proc" where
  "andthen m f w =
     (case m w of
        (cs, Return (Ok x), w1) \<Rightarrow> (case f x w1 of (cs', r, w2) \<Rightarrow> (cs @ cs', r, w2))
      | (cs, Return (Err e), w1) \<Rightarrow> (cs, Return (Err e), w1)
      | (cs, Panic msg, w1) \<Rightarrow> (cs, Panic msg, w1))"

text \<open>\<open>map_err\<close>, \<open>expect\<close> and \<open>let result = ...\<close>.\<close>

definition mapping_err :: "('e \<Rightarrow> 'f) \<Rightarrow> ('c, 'w, 'e, 'a) proc \<Rightarrow> ('c, 'w, 'f, 'a) proc" where
  "mapping_err g m w =
     (case m w of
        (cs, Return (Ok x), w1) \<Rightarrow> (cs, Return (Ok x), w1)
      | (cs, Return (Err e), w1) \<Rightarrow> (cs, Return (Err (g e)), w1)
      | (cs, Panic msg, w1) \<Rightarrow> (cs, Panic msg, w1))"

definition expecting :: "string \<Rightarrow> ('c, 'w, 'e, 'a) proc \<Rightarrow> ('c, 'w, 'f, 'a) proc" where
  "expecting msg m w =
     (case m w of
        (cs, Return (Ok x), w1) \<Rightarrow> (cs, Return (Ok x), w1)
      | (cs, Return (Err e), w1) \<Rightarrow> (cs, Panic msg, w1)
      | (cs, Panic msg', w1) \<Rightarrow> (cs, Panic msg', w1))"

definition captured :: "('c, 'w, 'e, 'a) proc \<Rightarrow> ('c, 'w, 'f, 'e + 'a) proc" where
  "captured m w =
     (case m w of
        (cs, Return r, w1) \<Rightarrow> (cs, Return (Ok r), w1)
      | (cs, Panic msg, w1) \<Rightarrow> (cs, Panic msg, w1))"

fun in_order :: "('c, 'w, 'e, unit) proc list \<Rightarrow> ('c, 'w, 'e, unit) proc" where
  "in_order [] = pret ()"
| "in_order (m # ms) = andthen m (\<lambda>_. in_order ms)"

lemmas proc_defs = pret_def pfail_def ppanic_def calling_def invoke_def perform_def andthen_def mapping_err_def expecting_def captured_def

lemma presult_run: "presult r w = ([], Return r, w)"
  by (cases r) (simp_all add: pret_def pfail_def)

lemma in_order_performs:
  "\<exists>w'. in_order (map (perform lib) cs) w = (cs, Return (Ok ()), w')"
proof (induction cs arbitrary: w)
  case (Cons c cs)
  obtain r w1 where r: "lib c w = (r, w1)" by fastforce
  from Cons [of w1] r show ?case by (auto simp: proc_defs)
qed (simp add: pret_def)

section \<open>What a procedure never calls\<close>

text \<open>\<open>avoids P m\<close>: no call of \<open>m\<close> satisfies \<open>P\<close>.\<close>

named_theorems avoid_rules

definition avoids :: "('c \<Rightarrow> bool) \<Rightarrow> ('c, 'w, 'e, 'a) proc \<Rightarrow> bool" where
  "avoids P m \<longleftrightarrow> (\<forall>w. \<forall>c \<in> set (fst (m w)). \<not> P c)"

lemma avoids_pret [avoid_rules, simp]: "avoids P (pret x)" and avoids_pfail [avoid_rules, simp]: "avoids P (pfail e)"
  and avoids_ppanic [avoid_rules, simp]: "avoids P (ppanic msg)"
  by (simp_all add: avoids_def proc_defs)

lemma avoids_calls [avoid_rules, simp]:
  "\<not> P c \<Longrightarrow> avoids P (invoke lib c)" "\<not> P c \<Longrightarrow> avoids P (perform lib c)" "\<not> P c \<Longrightarrow> avoids P (calling act c)"
  by (simp_all add: avoids_def proc_defs split: prod.splits)

lemma avoids_presult [avoid_rules, simp]: "avoids P (presult r)"
  by (cases r) simp_all

lemma avoids_andthen [avoid_rules]: "avoids P m \<Longrightarrow> (\<And>x. avoids P (f x)) \<Longrightarrow> avoids P (andthen m f)"
proof -
  assume m: "avoids P m" and f: "\<And>x. avoids P (f x)"
  have "\<not> P c" if "c \<in> set (fst (andthen m f w))" for c w
  proof -
    obtain cs r w1 where r: "m w = (cs, r, w1)" by (metis prod_cases3)
    have cs: "\<forall>c \<in> set cs. \<not> P c" using m r unfolding avoids_def by (metis fst_conv)
    show ?thesis
    proof (cases "\<exists>x. r = Return (Ok x)")
      case True
      then obtain x where x: "r = Return (Ok x)" ..
      obtain cs' r' w2 where q: "f x w1 = (cs', r', w2)" by (metis prod_cases3)
      have "\<forall>c \<in> set cs'. \<not> P c" using f q unfolding avoids_def by (metis fst_conv)
      with cs that r x q show ?thesis by (auto simp: andthen_def)
    next
      case False
      with cs that r show ?thesis by (auto simp: andthen_def split: outcome.splits sum.splits)
    qed
  qed
  then show ?thesis unfolding avoids_def by blast
qed

lemma wrapped_calls [simp]:
  "fst (mapping_err g m w) = fst (m w)" "fst (expecting msg m w) = fst (m w)" "fst (captured m w) = fst (m w)"
  by (simp_all add: proc_defs split: prod.splits outcome.splits sum.splits)

lemma avoids_wrapped [avoid_rules]:
  "avoids P m \<Longrightarrow> avoids P (mapping_err g m)" "avoids P m \<Longrightarrow> avoids P (expecting msg m)" "avoids P m \<Longrightarrow> avoids P (captured m)"
  by (simp_all add: avoids_def)

section \<open>Set up, run, tear down\<close>

text \<open>
  The calls and the outcome of a procedure around one call \<open>c\<close> with \<open>P c\<close>. Either no such call was made and the procedure did
  not succeed. Or it was made once, after calls that are not of this kind; if it has returned, with an error or not, the calls that
  \<open>recipe\<close> asks for have followed and the outcome is what it has returned; if it has panicked, nothing has followed.
\<close>

definition torn_down ::
  "('c \<Rightarrow> 'w \<Rightarrow> ('e + 'h) outcome \<times> 'w) \<Rightarrow> ('c \<Rightarrow> bool) \<Rightarrow> ('c \<Rightarrow> 'c list \<Rightarrow> bool) \<Rightarrow> 'c list \<Rightarrow> ('e + 'a) outcome \<Rightarrow> bool" where
  "torn_down act P recipe cs out \<longleftrightarrow>
     (\<forall>c \<in> set cs. \<not> P c) \<and> (\<forall>x. out \<noteq> Return (Ok x)) \<or>
     (\<exists>pre c post w. cs = pre @ c # post \<and> P c \<and> (\<forall>d \<in> set pre. \<not> P d) \<and>
        (case fst (act c w) of
           Panic m \<Rightarrow> post = [] \<and> out = Panic m
         | Return (Err e) \<Rightarrow> recipe c post \<and> out = Return (Err e)
         | Return (Ok h) \<Rightarrow> recipe c post \<and> (\<exists>x. out = Return (Ok x))))"

lemma torn_down_prefix: "\<forall>c \<in> set cs. \<not> P c \<Longrightarrow> torn_down act P recipe cs' out \<Longrightarrow> torn_down act P recipe (cs @ cs') out"
proof -
  assume q: "\<forall>c \<in> set cs. \<not> P c" and t: "torn_down act P recipe cs' out"
  show ?thesis
  proof (cases "(\<forall>c \<in> set cs'. \<not> P c) \<and> (\<forall>x. out \<noteq> Return (Ok x))")
    case True
    with q show ?thesis unfolding torn_down_def by auto
  next
    case False
    with t obtain pre c post w where *: "cs' = pre @ c # post" "P c" "\<forall>d \<in> set pre. \<not> P d"
      "case fst (act c w) of Panic m \<Rightarrow> post = [] \<and> out = Panic m | Return (Err e) \<Rightarrow> recipe c post \<and> out = Return (Err e)
         | Return (Ok h) \<Rightarrow> recipe c post \<and> (\<exists>x. out = Return (Ok x))"
      unfolding torn_down_def by blast
    then have "cs @ cs' = (cs @ pre) @ c # post" "\<forall>d \<in> set (cs @ pre). \<not> P d" using q by auto
    with * show ?thesis unfolding torn_down_def by blast
  qed
qed

definition guarded ::
  "('c \<Rightarrow> 'w \<Rightarrow> ('e + 'h) outcome \<times> 'w) \<Rightarrow> ('c \<Rightarrow> bool) \<Rightarrow> ('c \<Rightarrow> 'c list \<Rightarrow> bool) \<Rightarrow> ('c, 'w, 'e, 'a) proc \<Rightarrow> bool" where
  "guarded act P recipe m \<longleftrightarrow> (\<forall>w cs out w'. m w = (cs, out, w') \<longrightarrow> torn_down act P recipe cs out)"

lemma guarded_andthen:
  assumes m: "avoids P m" and f: "\<And>x. guarded act P recipe (f x)"
  shows "guarded act P recipe (andthen m f)"
  unfolding guarded_def
proof (intro allI impI)
  fix w cs out w'
  assume a: "andthen m f w = (cs, out, w')"
  obtain cs1 r w1 where r: "m w = (cs1, r, w1)" by (metis prod_cases3)
  have q: "\<forall>c \<in> set cs1. \<not> P c" using m r unfolding avoids_def by (metis fst_conv)
  show "torn_down act P recipe cs out"
  proof (cases "\<exists>x. r = Return (Ok x)")
    case True
    then obtain x where x: "r = Return (Ok x)" ..
    obtain cs2 where c2: "f x w1 = (cs2, out, w')" "cs = cs1 @ cs2" using a r x by (auto simp: andthen_def split: prod.splits)
    from f c2(1) have "torn_down act P recipe cs2 out" unfolding guarded_def by blast
    with torn_down_prefix [OF q] c2(2) show ?thesis by simp
  next
    case False
    with a r q show ?thesis by (auto simp: andthen_def torn_down_def split: outcome.splits sum.splits)
  qed
qed

text \<open>\<open>let result = run; teardown; result?\<close>.\<close>

definition finally_do ::
  "('c, 'w, 'e, 'a) proc \<Rightarrow> ('c, 'w, 'e, unit) proc \<Rightarrow> ('c, 'w, 'e, 'a) proc" where
  "finally_do run teardown = andthen (captured run) (\<lambda>result. andthen teardown (\<lambda>_. presult result))"

lemma torn_down_one:
  assumes "P c" "case fst (act c w) of Panic m \<Rightarrow> post = [] \<and> out = Panic m | Return (Err e) \<Rightarrow> recipe c post \<and> out = Return (Err e)
         | Return (Ok h) \<Rightarrow> recipe c post \<and> (\<exists>x. out = Return (Ok x))"
  shows "torn_down act P recipe (c # post) out"
  unfolding torn_down_def using assms by (intro disjI2) (metis append_Nil empty_iff empty_set)

lemma guarded_finally:
  assumes "P c" "recipe c post"
  shows "guarded act P recipe (finally_do (calling act c) (in_order (map (perform lib) post)))"
  unfolding guarded_def
proof (intro allI impI)
  fix w cs out w'
  assume a: "finally_do (calling act c) (in_order (map (perform lib) post)) w = (cs, out, w')"
  obtain r w1 where r: "act c w = (r, w1)" by fastforce
  obtain w2 where t: "in_order (map (perform lib) post) w1 = (post, Return (Ok ()), w2)"
    using in_order_performs [of lib post w1] by blast
  show "torn_down act P recipe cs out"
  proof (cases r)
    case (Panic m)
    with a r have "cs = c # []" "out = Panic m" by (simp_all add: finally_do_def proc_defs)
    with Panic r assms(1) show ?thesis by (auto intro!: torn_down_one [where w = w])
  next
    case (Return res)
    with a r t have "cs = c # post" "out = Return res" by (simp_all add: finally_do_def proc_defs presult_run)
    with Return r assms show ?thesis by (auto intro!: torn_down_one [where w = w] split: sum.splits)
  qed
qed

lemma guarded_calling:
  assumes "P c" "recipe c []"
  shows "guarded act P recipe (calling act c)"
  unfolding guarded_def
proof (intro allI impI)
  fix w cs out w'
  assume a: "calling act c w = (cs, out, w')"
  with assms show "torn_down act P recipe cs out"
    by (auto simp: calling_def intro!: torn_down_one [where w = w] split: prod.splits outcome.splits sum.splits)
qed

lemma guarded_value:
  assumes "guarded act P recipe m"
  shows "guarded act P recipe (andthen m (\<lambda>_. pret x))"
  unfolding guarded_def
proof (intro allI impI)
  fix w cs out w'
  assume a: "andthen m (\<lambda>_. pret x) w = (cs, out, w')"
  obtain cs1 r w1 where r: "m w = (cs1, r, w1)" by (metis prod_cases3)
  with a have c: "cs = cs1" and o: "out = (case r of Return (Ok y) \<Rightarrow> Return (Ok x) | Return (Err e) \<Rightarrow> Return (Err e) | Panic s \<Rightarrow> Panic s)"
    by (auto simp: andthen_def pret_def split: outcome.splits sum.splits)
  from assms r have "torn_down act P recipe cs1 r" unfolding guarded_def by blast
  then show "torn_down act P recipe cs out"
    unfolding c o torn_down_def by (fastforce split: outcome.splits sum.splits)
qed

text \<open>A call that does not panic.\<close>

definition returning :: "('c \<Rightarrow> 'w \<Rightarrow> ('e + 'a) \<times> 'w) \<Rightarrow> 'c \<Rightarrow> 'w \<Rightarrow> ('e + 'a) outcome \<times> 'w" where
  "returning lib c w = (case lib c w of (r, w') \<Rightarrow> (Return r, w'))"

lemma fst_returning [simp]: "fst (returning lib c w) = Return (fst (lib c w))"
  by (simp add: returning_def split: prod.splits)

lemma case_sum_conj:
  "(case r of Err e \<Rightarrow> A \<and> B e | Ok h \<Rightarrow> A \<and> C h) \<longleftrightarrow> A \<and> (case r of Err e \<Rightarrow> B e | Ok h \<Rightarrow> C h)"
  by (cases r) auto

lemma invoke_calling: "invoke lib c = calling (returning lib) c"
  by (rule ext) (simp add: proc_defs returning_def split: prod.splits)

section \<open>Laws\<close>

lemma andthen_assoc: "andthen (andthen m f) g = andthen m (\<lambda>x. andthen (f x) g)"
  by (rule ext) (auto simp: andthen_def split: prod.splits outcome.splits sum.splits)

lemma andthen_okE:
  assumes "andthen m f w = (cs, Return (Ok x), w')"
  obtains cs1 y w1 cs2 where "m w = (cs1, Return (Ok y), w1)" "f y w1 = (cs2, Return (Ok x), w')" "cs = cs1 @ cs2"
  using assms by (auto simp: andthen_def split: prod.splits outcome.splits sum.splits)

lemma andthen_pret [simp]: "andthen (pret x) f = f x" "andthen m pret = m"
  by (rule ext, auto simp: proc_defs split: prod.splits outcome.splits sum.splits)+

end
