(* ===== verification/TestServer.thy ===== *)
theory TestServer
  imports H3Prelude
begin

text \<open>
  The msquic servers of \<open>tonic-h3-tests/src/lib.rs\<close> and \<open>tests/bench/src/server.rs\<close>: how they find or make their certificate
  and how they open their listener, with a bounded number of attempts while the address is still in use.
\<close>

section \<open>The certificate\<close>

text \<open>
  \<open>cr_list\<close> runs the command that prints the thumbprint and \<open>cr_gen\<close> the one that makes a certificate. Either may fail to
  start; otherwise it has an exit status and output. \<open>cr_utf8\<close> is \<open>String::from_utf8\<close> and \<open>cr_from_str\<close> is
  \<open>CertificateHash::from_str\<close>.
\<close>

record ('h, 'w) cred_ops =
  cr_list :: "'w \<Rightarrow> (unit + bool \<times> bytes) \<times> 'w"
  cr_gen :: "'w \<Rightarrow> (unit + bool) \<times> 'w"
  cr_utf8 :: "bytes \<Rightarrow> string option"
  cr_from_str :: "string \<Rightarrow> string + 'h"

text \<open>\<open>get_hash\<close> of the tests removes one line end, the one of the benchmark all of them.\<close>

definition trim_line_end :: "string \<Rightarrow> string" where
  "trim_line_end s =
     (if s \<noteq> [] \<and> last s = CHR 0x0A then
        (let s1 = butlast s in if s1 \<noteq> [] \<and> last s1 = CHR 0x0D then butlast s1 else s1)
      else s)"

function trim_line_ends :: "string \<Rightarrow> string" where
  "trim_line_ends s = (if s \<noteq> [] \<and> (last s = CHR 0x0A \<or> last s = CHR 0x0D) then trim_line_ends (butlast s) else s)"
  by auto
termination by (relation "measure length") auto

declare trim_line_ends.simps [simp del]

definition get_hash :: "('h, 'w) cred_ops \<Rightarrow> 'w \<Rightarrow> string option outcome \<times> 'w" where
  "get_hash ops w0 =
     (case cr_list ops w0 of
        (Err _, w) \<Rightarrow> (Panic ''Failed to execute command'', w)
      | (Ok (success, stdout), w) \<Rightarrow>
          if \<not> success then (Panic ''assertion failed: output.status.success()'', w)
          else (case cr_utf8 ops stdout of
                  None \<Rightarrow> (Panic ''String::from_utf8(output.stdout).unwrap()'', w)
                | Some out \<Rightarrow> (let s = trim_line_end out in (Return (if s = [] then None else Some s), w))))"

definition gen_cert :: "('h, 'w) cred_ops \<Rightarrow> 'w \<Rightarrow> unit outcome \<times> 'w" where
  "gen_cert ops w0 =
     (case cr_gen ops w0 of
        (Err _, w) \<Rightarrow> (Panic ''Failed to execute command'', w)
      | (Ok success, w) \<Rightarrow> if success then (Return (), w) else (Panic ''assertion failed: output.status.success()'', w))"

definition find_or_make :: "('h, 'w) cred_ops \<Rightarrow> 'w \<Rightarrow> string outcome \<times> 'w" where
  "find_or_make ops w0 =
     (case get_hash ops w0 of
        (Panic m, w) \<Rightarrow> (Panic m, w)
      | (Return (Some s), w) \<Rightarrow> (Return s, w)
      | (Return None, w) \<Rightarrow>
          (case gen_cert ops w of
             (Panic m, w1) \<Rightarrow> (Panic m, w1)
           | (Return _, w1) \<Rightarrow>
               (case get_hash ops w1 of
                  (Panic m, w2) \<Rightarrow> (Panic m, w2)
                | (Return (Some s), w2) \<Rightarrow> (Return s, w2)
                | (Return None, w2) \<Rightarrow> (Panic ''get_hash().unwrap()'', w2))))"

definition get_test_cred_internal :: "('h, 'w) cred_ops \<Rightarrow> 'w \<Rightarrow> 'h outcome \<times> 'w" where
  "get_test_cred_internal ops w0 =
     (case find_or_make ops w0 of
        (Panic m, w) \<Rightarrow> (Panic m, w)
      | (Return s, w) \<Rightarrow>
          (case cr_from_str ops s of
             Ok h \<Rightarrow> (Return h, w)
           | Err e \<Rightarrow> (Panic ''CertificateHash::from_str(&s).unwrap()'', w)))"

definition bench_get_hash :: "('h, 'w) cred_ops \<Rightarrow> 'w \<Rightarrow> string option \<times> 'w" where
  "bench_get_hash ops w0 =
     (case cr_list ops w0 of
        (Err _, w) \<Rightarrow> (None, w)
      | (Ok (success, stdout), w) \<Rightarrow>
          if \<not> success then (None, w)
          else (case cr_utf8 ops stdout of
                  None \<Rightarrow> (None, w)
                | Some out \<Rightarrow> (let s = trim_line_ends out in (if s = [] then None else Some s, w))))"

definition bench_find_or_make :: "('h, 'w) cred_ops \<Rightarrow> 'w \<Rightarrow> (string + string) \<times> 'w" where
  "bench_find_or_make ops w0 =
     (case bench_get_hash ops w0 of
        (Some h, w) \<Rightarrow> (Ok h, w)
      | (None, w) \<Rightarrow>
          (case cr_gen ops w of (_, w1) \<Rightarrow>
             (case bench_get_hash ops w1 of
                (Some h, w2) \<Rightarrow> (Ok h, w2)
              | (None, w2) \<Rightarrow> (Err ''failed to create/find MsQuic-Test certificate'', w2))))"

definition msquic_server_cred :: "('h, 'w) cred_ops \<Rightarrow> 'w \<Rightarrow> (string + 'h) \<times> 'w" where
  "msquic_server_cred ops w0 =
     (case bench_find_or_make ops w0 of
        (Err e, w) \<Rightarrow> (Err e, w)
      | (Ok hash, w) \<Rightarrow>
          (case cr_from_str ops hash of Ok h \<Rightarrow> (Ok h, w) | Err e \<Rightarrow> (Err (''invalid cert hash: '' @ e), w)))"

section \<open>The listener\<close>

text \<open>
  \<open>open_listener\<close> is \<open>Listener::new\<close>, \<open>status\<close> is \<open>try_as_status_code\<close> and \<open>in_use\<close> the status of an address in use. Both loops count
  their failed attempts in \<open>i\<close>.
\<close>

definition max_retry :: nat where
  "max_retry = 30"

function listener_loop ::
  "('w \<Rightarrow> ('e + 'l) \<times> 'w) \<Rightarrow> ('e \<Rightarrow> 'sc option) \<Rightarrow> 'sc \<Rightarrow> nat \<Rightarrow> 'w \<Rightarrow> 'l outcome \<times> nat \<times> 'w" where
  "listener_loop open_listener status in_use i w0 =
     (case open_listener w0 of
        (Ok l, w) \<Rightarrow> (Return l, i + 1, w)
      | (Err e, w) \<Rightarrow>
          if i < max_retry then
            (case status e of
               None \<Rightarrow> (Panic ''e.try_as_status_code().unwrap()'', i + 1, w)
             | Some c \<Rightarrow>
                 if c = in_use then listener_loop open_listener status in_use (i + 1) w
                 else (Panic ''cannot open server'', i + 1, w))
          else (Panic ''cannot open server'', i + 1, w))"
  by auto
termination by (relation "measure (\<lambda>(_, _, _, i, _). max_retry - i)") auto

function bench_listener_loop ::
  "('w \<Rightarrow> ('e + 'l) \<times> 'w) \<Rightarrow> ('e \<Rightarrow> 'sc option) \<Rightarrow> 'sc \<Rightarrow> nat \<Rightarrow> 'w \<Rightarrow> ('e + 'l) \<times> nat \<times> 'w" where
  "bench_listener_loop open_listener status in_use i w0 =
     (case open_listener w0 of
        (Ok l, w) \<Rightarrow> (Ok l, i + 1, w)
      | (Err e, w) \<Rightarrow>
          if i < max_retry \<and> (case map_option (\<lambda>c. c = in_use) (status e) of None \<Rightarrow> False | Some b \<Rightarrow> b)
          then bench_listener_loop open_listener status in_use (i + 1) w
          else (Err e, i + 1, w))"
  by auto
termination by (relation "measure (\<lambda>(_, _, _, i, _). max_retry - i)") auto

declare listener_loop.simps [simp del] bench_listener_loop.simps [simp del]

section \<open>Properties\<close>

text \<open>A thumbprint as the command prints it: no line end inside, one behind it.\<close>

lemma last_not_in: "s \<noteq> [] \<Longrightarrow> c \<notin> set s \<Longrightarrow> last s \<noteq> c"
  by (metis last_in_set)

lemma trim_line_ends_plain: "set s \<inter> {CHR 0x0A, CHR 0x0D} = {} \<Longrightarrow> trim_line_ends s = s"
  by (subst trim_line_ends.simps) (auto dest: last_not_in)

lemma trims_agree:
  assumes "set s \<inter> {CHR 0x0A, CHR 0x0D} = {}" "e \<in> {[], [CHR 0x0A], [CHR 0x0D, CHR 0x0A]}"
  shows "trim_line_end (s @ e) = s \<and> trim_line_ends (s @ e) = s"
proof -
  have l: "s \<noteq> [] \<Longrightarrow> last s \<noteq> CHR 0x0A \<and> last s \<noteq> CHR 0x0D" using assms(1) by (auto dest: last_not_in)
  have "trim_line_ends (s @ [CHR 0x0A]) = s" "trim_line_ends (s @ [CHR 0x0D]) = s"
    using trim_line_ends_plain [OF assms(1)] by (subst trim_line_ends.simps, simp)+
  moreover from this have "trim_line_ends (s @ [CHR 0x0D, CHR 0x0A]) = s"
    by (subst trim_line_ends.simps) (simp add: butlast_append)
  ultimately show ?thesis
    using assms l trim_line_ends_plain [OF assms(1)] by (auto simp: trim_line_end_def Let_def butlast_append)
qed

text \<open>The worlds that the attempts leave one after the other.\<close>

fun after_attempts :: "('w \<Rightarrow> ('e + 'l) \<times> 'w) \<Rightarrow> nat \<Rightarrow> 'w \<Rightarrow> 'w" where
  "after_attempts open_listener 0 w = w"
| "after_attempts open_listener (Suc n) w = after_attempts open_listener n (snd (open_listener w))"

abbreviation attempt where
  "attempt open_listener n w \<equiv> fst (open_listener (after_attempts open_listener n w))"

lemma listener_turn:
  assumes "open_listener w0 = (r, w1)"
  shows "listener_loop open_listener status in_use i w0 =
    (case r of
       Ok l \<Rightarrow> (Return l, i + 1, w1)
     | Err e \<Rightarrow>
         if i < max_retry \<and> status e = Some in_use then listener_loop open_listener status in_use (i + 1) w1
         else (Panic (if i < max_retry \<and> status e = None then ''e.try_as_status_code().unwrap()'' else ''cannot open server''), i + 1, w1))"
  using assms by (auto simp: listener_loop.simps [of _ _ _ i] split: sum.splits option.splits)

lemma bench_listener_turn:
  assumes "open_listener w0 = (r, w1)"
  shows "bench_listener_loop open_listener status in_use i w0 =
    (case r of
       Ok l \<Rightarrow> (Ok l, i + 1, w1)
     | Err e \<Rightarrow>
         if i < max_retry \<and> status e = Some in_use then bench_listener_loop open_listener status in_use (i + 1) w1
         else (Err e, i + 1, w1))"
  using assms by (auto simp: bench_listener_loop.simps [of _ _ _ i] split: sum.splits option.splits)

lemma listener_loop_spec:
  assumes "i \<le> max_retry" "listener_loop open_listener status in_use i w0 = (out, n, w)"
  shows "i < n \<and> n \<le> max_retry + 1 \<and> w = after_attempts open_listener (n - i) w0 \<and>
    (\<forall>k < n - i - 1. \<exists>e. attempt open_listener k w0 = Err e \<and> status e = Some in_use) \<and>
    (case out of
       Return l \<Rightarrow> attempt open_listener (n - i - 1) w0 = Ok l
     | Panic _ \<Rightarrow> \<exists>e. attempt open_listener (n - i - 1) w0 = Err e \<and> (n = max_retry + 1 \<or> status e \<noteq> Some in_use))"
  using assms
proof (induction "max_retry - i" arbitrary: i w0)
  case 0
  obtain r w1 where r: "open_listener w0 = (r, w1)" by fastforce
  from 0 r listener_turn [of open_listener w0 r w1 status in_use i, OF r] show ?case by (auto split: sum.splits)
next
  case (Suc d)
  obtain r w1 where r: "open_listener w0 = (r, w1)" by fastforce
  show ?case
  proof (cases "\<exists>e. r = Err e \<and> status e = Some in_use \<and> i < max_retry")
    case False
    with Suc(3,4) r listener_turn [of open_listener w0 r w1 status in_use i, OF r] show ?thesis by (auto split: sum.splits if_splits)
  next
    case True
    then obtain e where e: "r = Err e" "status e = Some in_use" "i < max_retry" by blast
    with Suc(4) r have l: "listener_loop open_listener status in_use (i + 1) w1 = (out, n, w)"
      using listener_turn [of open_listener w0 r w1 status in_use i, OF r] by simp
    from Suc(2) e(3) have d: "d = max_retry - (i + 1)" "i + 1 \<le> max_retry" by simp_all
    note IH = Suc(1) [OF d l]
    have "i + 1 < n" using IH by blast
    then have sh: "n - i = Suc (n - (i + 1))" "n - i - 1 = Suc (n - (i + 1) - 1)" by simp_all
    have "\<exists>e. attempt open_listener k w0 = Err e \<and> status e = Some in_use" if "k < n - i - 1" for k
      using that IH e r by (cases k) auto
    moreover have "attempt open_listener (n - i - 1) w0 = attempt open_listener (n - (i + 1) - 1) w1"
      by (simp only: sh(2) after_attempts.simps r snd_conv)
    moreover have "after_attempts open_listener (n - i) w0 = after_attempts open_listener (n - (i + 1)) w1"
      by (simp only: sh(1) after_attempts.simps r snd_conv)
    ultimately show ?thesis using IH by (cases out) auto
  qed
qed

text \<open>The loop of the benchmark makes the same attempts.\<close>

lemma bench_listener_agrees:
  "case listener_loop open_listener status in_use i w0 of
     (Return l, n, w) \<Rightarrow> bench_listener_loop open_listener status in_use i w0 = (Ok l, n, w)
   | (Panic _, n, w) \<Rightarrow> \<exists>e. bench_listener_loop open_listener status in_use i w0 = (Err e, n, w)"
proof (induction "max_retry - i" arbitrary: i w0)
  case 0
  obtain r w1 where r: "open_listener w0 = (r, w1)" by fastforce
  from 0 listener_turn [of open_listener w0 r w1 status in_use i, OF r] bench_listener_turn [of open_listener w0 r w1 status in_use i, OF r] show ?case
    by (simp split: sum.splits)
next
  case (Suc d)
  have d: "d = max_retry - (i + 1)" using Suc(2) by simp
  obtain r w1 where r: "open_listener w0 = (r, w1)" by fastforce
  show ?case
  proof (cases r)
    case (Inl e)
    show ?thesis
    proof (cases "i < max_retry \<and> status e = Some in_use")
      case True
      have "listener_loop open_listener status in_use i w0 = listener_loop open_listener status in_use (i + 1) w1"
        "bench_listener_loop open_listener status in_use i w0 = bench_listener_loop open_listener status in_use (i + 1) w1"
        using listener_turn [of open_listener w0 r w1 status in_use i, OF r]
          bench_listener_turn [of open_listener w0 r w1 status in_use i, OF r] Inl True by simp_all
      with Suc(1) [OF d, of w1] show ?thesis by (simp only:)
    next
      case False
      with Inl listener_turn [of open_listener w0 r w1 status in_use i, OF r]
        bench_listener_turn [of open_listener w0 r w1 status in_use i, OF r] show ?thesis by simp
    qed
  next
    case (Inr l)
    with listener_turn [of open_listener w0 r w1 status in_use i, OF r]
      bench_listener_turn [of open_listener w0 r w1 status in_use i, OF r] show ?thesis by simp
  qed
qed

text \<open>
  The listener is opened with a bounded number of attempts. The loop of \<open>run_test_msquic_server\<close> ends after at least
  one and at most \<open>max_retry + 1\<close> attempts; all of them but the last met an address in use; it returns the
  listener of the last attempt if that one succeeded, and otherwise panics, having run out of attempts or met another
  error. The loop of the benchmark makes the same attempts and returns the same listener, with an error in place of the
  panic.
\<close>

theorem listener_retry_bounded:
  assumes "listener_loop open_listener status in_use 0 w0 = (out, n, w)"
  shows "0 < n \<and> n \<le> max_retry + 1 \<and> w = after_attempts open_listener n w0 \<and>
    (\<forall>k < n - 1. \<exists>e. attempt open_listener k w0 = Err e \<and> status e = Some in_use) \<and>
    (case out of
       Return l \<Rightarrow> attempt open_listener (n - 1) w0 = Ok l \<and>
         bench_listener_loop open_listener status in_use 0 w0 = (Ok l, n, w)
     | Panic _ \<Rightarrow>
         (\<exists>e. attempt open_listener (n - 1) w0 = Err e \<and> (n = max_retry + 1 \<or> status e \<noteq> Some in_use)) \<and>
         (\<exists>e. bench_listener_loop open_listener status in_use 0 w0 = (Err e, n, w)))"
  using listener_loop_spec [OF _ assms] bench_listener_agrees [of open_listener status in_use 0 w0] assms
  by (cases out) auto

text \<open>An address that is in use for the first two attempts.\<close>

definition sample_open :: "nat \<Rightarrow> (nat + nat) \<times> nat" where
  "sample_open w = (if w < 2 then Err 48 else Ok w, w + 1)"

theorem listener_retry_bounded_witness:
  "listener_loop sample_open Some 48 0 0 = (Return 2, 3, 3) \<and> 3 \<le> max_retry + 1 \<and>
   3 = after_attempts sample_open 3 0 \<and> bench_listener_loop sample_open Some 48 0 0 = (Ok 2, 3, 3)"
proof -
  have l: "listener_loop sample_open Some 48 0 0 = (Return 2, 3, 3)"
    by (simp add: listener_loop.simps max_retry_def sample_open_def)
  note t = listener_retry_bounded [OF l]
  from t have "3 \<le> max_retry + 1" by blast
  moreover from t have "3 = after_attempts sample_open 3 0" by blast
  moreover from t have "bench_listener_loop sample_open Some 48 0 0 = (Ok 2, 3, 3)" by simp
  ultimately show ?thesis using l by blast
qed

end
