(* ===== verification/BenchServer.thy ===== *)
theory BenchServer
  imports Procedures Bench TestServer
begin

text \<open>
  The server of the benchmark: \<open>tests/bench/src/server.rs\<close> with the set-up of TLS in \<open>tls.rs\<close>. Each transport has its
  set-up, serves until it is told to stop, and has its own recipe for tearing down. The serving itself is theory \<open>Serve\<close>;
  here it is one call, like those of the libraries.
\<close>

section \<open>Calls\<close>

text \<open>
  All objects of the libraries, addresses and credentials are of one type \<open>'h\<close>.
\<close>

record 'h ServerConfig =
  sc_certs :: "'h list"
  sc_key :: 'h
  sc_alpn :: "string list"
  sc_max_early_data_size :: "32 word"

record ClientConfig =
  cl_no_verification :: bool
  cl_enable_early_data :: bool
  cl_alpn :: "string list"

datatype 'h acceptor =
    Quinn_acceptor 'h
  | S2n_acceptor 'h
  | Quiche_acceptor 'h
  | Msquic_acceptor 'h
  | Tcp_incoming 'h "'h ServerConfig"

text \<open>The channels of a client; the quiche connector makes its socket when it connects.\<close>

datatype 'h channel =
    Tcp_channel 'h
  | Quinn_channel uri string 'h
  | S2n_channel uri string 'h
  | Quiche_channel uri string bool
  | Msquic_channel 'h 'h uri

datatype close_code = Var_code nat | H3_code h3_code

record msquic_settings =
  ms_bidi :: nat
  ms_unidi :: nat
  ms_idle_ms :: nat

datatype (plugins only: extraction) 'h libcall =
    Generate_self_signed "string list"
  | Private_key_from_pem 'h
  | Safe_default_versions
  | Single_cert "'h list" 'h
  | Quic_server_crypto "'h ServerConfig"
  | Quinn_server 'h 'h
  | Local_addr 'h
  | Announce Transport 'h
  | Serve "'h acceptor"
  | Endpoint_close 'h close_code string
  | Endpoint_wait_idle 'h
  | Tcp_bind 'h
  | S2n_server_tls "'h ServerConfig"
  | S2n_with_io 'h 'h
  | S2n_start 'h
  | Udp_bind 'h
  | Set_nonblocking 'h
  | Udp_from_std 'h
  | Quiche_acceptor_new 'h 'h 'h
  | Registration_new string
  | Open_configuration 'h "string list" msquic_settings
  | Load_server_credential 'h 'h
  | Listener_new 'h 'h "string list" 'h
  | Listener_addr 'h
  | Acceptor_shutdown 'h
  | Reg_shutdown 'h
  | Drop_acceptor 'h
  | Reg_wait_idle 'h
  | Drop_config 'h
  | Drop_reg 'h
  | Quinn_client string
  | Quic_client_crypto ClientConfig
  | Max_idle_timeout 'h nat
  | Set_client_config 'h 'h
  | Endpoint_from_shared string
  | Server_name string
  | Tls_connect 'h ClientConfig
  | S2n_client_tls ClientConfig
  | S2n_client_io 'h string
  | Load_client_credential 'h
  | Drive "'h channel"
  | Print string
  | Token_cancelled

text \<open>
  What the code is run in: \<open>se_lib\<close> makes a call, \<open>se_cert\<close> and \<open>se_key\<close> are the parts of a generated pair, \<open>se_text\<close> prints an error
  and \<open>se_error\<close> makes one of a text, \<open>se_status\<close> is \<open>try_as_status_code\<close>, \<open>se_socket\<close> is \<open>as_socket\<close>; \<open>se_files\<close> is
  \<open>make_test_cert_files\<close> of theory \<open>CertFiles\<close> in this world, \<open>se_windows\<close> says for which platform the program is compiled, \<open>se_cred\<close>
  holds the operations of the certificate store there and \<open>se_cert_file\<close> makes a credential of the paths of a key and its certificate elsewhere.
\<close>

record ('h, 'e, 'w) setup_env =
  se_lib :: "'h libcall \<Rightarrow> 'w \<Rightarrow> ('e + 'h) \<times> 'w"
  se_cert :: "'h \<Rightarrow> 'h"
  se_key :: "'h \<Rightarrow> 'h"
  se_text :: "'e \<Rightarrow> string"
  se_error :: "string \<Rightarrow> 'e"
  se_status :: "'e \<Rightarrow> nat option"
  se_in_use :: nat
  se_socket :: "'h \<Rightarrow> 'h option"
  se_files :: "string \<Rightarrow> bool \<Rightarrow> 'w \<Rightarrow> ('h \<times> 'h) outcome \<times> 'w"
  se_windows :: bool
  se_cert_file :: "'h \<Rightarrow> 'h \<Rightarrow> 'h"
  se_cred :: "('h, 'w) cred_ops"

type_synonym ('h, 'e, 'w, 'a) setup_proc = "('h libcall, 'w, 'e, 'a) proc"

abbreviation try_call :: "('h, 'e, 'w) setup_env \<Rightarrow> 'h libcall \<Rightarrow> ('h, 'e, 'w, 'h) setup_proc" where
  "try_call env c \<equiv> invoke (se_lib env) c"

abbreviation do_call :: "('h, 'e, 'w) setup_env \<Rightarrow> 'h libcall \<Rightarrow> ('h, 'e, 'w, unit) setup_proc" where
  "do_call env c \<equiv> perform (se_lib env) c"

definition named_error :: "('h, 'e, 'w) setup_env \<Rightarrow> string \<Rightarrow> ('h, 'e, 'w, 'a) setup_proc \<Rightarrow> ('h, 'e, 'w, 'a) setup_proc" where
  "named_error env what m = mapping_err (\<lambda>e. se_error env (what @ se_text env e)) m"

section \<open>\<open>tls.rs\<close>\<close>

text \<open>
  The verifier of the test clients, in \<open>mod danger\<close>: every certificate is accepted, while the signatures of the handshake
  are checked by the provider it holds. The algorithms of the provider and rustls' check of a signature are parameters.
\<close>

datatype 'a NoCertificateVerification = NoCertificateVerification (signature_verification_algorithms: 'a)

datatype tls_version = Tls12 | Tls13

definition verify_server_cert :: "'a NoCertificateVerification \<Rightarrow> 'h \<Rightarrow> 'h list \<Rightarrow> string \<Rightarrow> bytes \<Rightarrow> nat \<Rightarrow> 'e + unit" where
  "verify_server_cert v end_entity intermediates server_name ocsp now = Ok ()"

definition verify_signature ::
  "(tls_version \<Rightarrow> bytes \<Rightarrow> 'h \<Rightarrow> 'd \<Rightarrow> 'a \<Rightarrow> 'e + unit) \<Rightarrow> 'a NoCertificateVerification \<Rightarrow> tls_version \<Rightarrow> bytes \<Rightarrow> 'h \<Rightarrow> 'd \<Rightarrow> 'e + unit" where
  "verify_signature rustls v ver message cert dss = rustls ver message cert dss (signature_verification_algorithms v)"

definition supported_verify_schemes :: "('a \<Rightarrow> 's list) \<Rightarrow> 'a NoCertificateVerification \<Rightarrow> 's list" where
  "supported_verify_schemes supported_schemes v = supported_schemes (signature_verification_algorithms v)"

definition make_test_cert_rustls :: "('h, 'e, 'w) setup_env \<Rightarrow> ('h, 'e, 'w, 'h \<times> 'h) setup_proc" where
  "make_test_cert_rustls env =
     andthen (expecting ''generate_simple_self_signed'' (try_call env (Generate_self_signed [''localhost'']))) (\<lambda>pair.
     andthen (expecting ''from_pem'' (try_call env (Private_key_from_pem (se_key env pair)))) (\<lambda>key.
     pret (se_cert env pair, key)))"

definition make_server_config :: "('h, 'e, 'w) setup_env \<Rightarrow> string list \<Rightarrow> ('h, 'e, 'w, 'h ServerConfig) setup_proc" where
  "make_server_config env alpn =
     andthen (make_test_cert_rustls env) (\<lambda>ck.
     andthen (expecting ''with_safe_default_protocol_versions'' (try_call env Safe_default_versions)) (\<lambda>_.
     andthen (expecting ''with_single_cert'' (try_call env (Single_cert [fst ck] (snd ck)))) (\<lambda>_.
     pret \<lparr>sc_certs = [fst ck], sc_key = snd ck, sc_alpn = alpn, sc_max_early_data_size = - 1\<rparr>)))"

definition make_danger_client_config :: "('h, 'e, 'w) setup_env \<Rightarrow> string list \<Rightarrow> ('h, 'e, 'w, ClientConfig) setup_proc" where
  "make_danger_client_config env alpn =
     andthen (expecting ''with_safe_default_protocol_versions'' (try_call env Safe_default_versions)) (\<lambda>_.
     pret \<lparr>cl_no_verification = True, cl_enable_early_data = True, cl_alpn = alpn\<rparr>)"

section \<open>\<open>server.rs\<close>\<close>

definition announce :: "('h, 'e, 'w) setup_env \<Rightarrow> Transport \<Rightarrow> 'h \<Rightarrow> ('h, 'e, 'w, unit) setup_proc" where
  "announce env transport local_addr = do_call env (Announce transport local_addr)"

text \<open>\<open>H3Router::new(echo_routes()).serve_with_shutdown(acceptor, shutdown).await\<close>, and the server of tonic over TCP.\<close>

definition serve_echo :: "('h, 'e, 'w) setup_env \<Rightarrow> 'h acceptor \<Rightarrow> ('h, 'e, 'w, 'h) setup_proc" where
  "serve_echo env acceptor = try_call env (Serve acceptor)"

definition run_quinn :: "('h, 'e, 'w) setup_env \<Rightarrow> 'h \<Rightarrow> ('h, 'e, 'w, unit) setup_proc" where
  "run_quinn env addr =
     andthen (make_server_config env [''h3'']) (\<lambda>tls_config.
     andthen (try_call env (Quic_server_crypto tls_config)) (\<lambda>server_config.
     andthen (try_call env (Quinn_server server_config addr)) (\<lambda>endpoint.
     andthen (try_call env (Local_addr endpoint)) (\<lambda>loc.
     andthen (announce env Quinn loc) (\<lambda>_.
     andthen
       (finally_do (serve_echo env (Quinn_acceptor endpoint))
          (in_order (map (do_call env)
             [Endpoint_close endpoint (Var_code 0) ''server shutdown'', Endpoint_wait_idle endpoint])))
       (\<lambda>_. pret ()))))))"

definition run_tcp_tls :: "('h, 'e, 'w) setup_env \<Rightarrow> 'h \<Rightarrow> ('h, 'e, 'w, unit) setup_proc" where
  "run_tcp_tls env addr =
     andthen (make_server_config env [''h2'']) (\<lambda>server_config.
     andthen (try_call env (Tcp_bind addr)) (\<lambda>tcp.
     andthen (try_call env (Local_addr tcp)) (\<lambda>loc.
     andthen (announce env TcpTls loc) (\<lambda>_.
     andthen (serve_echo env (Tcp_incoming tcp server_config)) (\<lambda>_. pret ())))))"

definition run_s2n :: "('h, 'e, 'w) setup_env \<Rightarrow> 'h \<Rightarrow> ('h, 'e, 'w, unit) setup_proc" where
  "run_s2n env addr =
     andthen (make_server_config env [''h3'']) (\<lambda>tls_config.
     andthen (named_error env ''s2n tls provider: '' (try_call env (S2n_server_tls tls_config))) (\<lambda>b.
     andthen (named_error env ''s2n io: '' (try_call env (S2n_with_io b addr))) (\<lambda>b'.
     andthen (named_error env ''s2n start: '' (try_call env (S2n_start b'))) (\<lambda>server.
     andthen (try_call env (Local_addr server)) (\<lambda>loc.
     andthen (announce env S2nQuic loc) (\<lambda>_.
     andthen (serve_echo env (S2n_acceptor server)) (\<lambda>_. pret ())))))))"

text \<open>The paths of the certificate files, made or found; a failure there is a panic.\<close>

definition cert_files :: "('h, 'e, 'w) setup_env \<Rightarrow> string \<Rightarrow> bool \<Rightarrow> ('h, 'e, 'w, 'h \<times> 'h) setup_proc" where
  "cert_files env name regen w =
     (case se_files env name regen w of
        (Return ck, w') \<Rightarrow> ([], Return (Ok ck), w')
      | (Panic m, w') \<Rightarrow> ([], Panic m, w'))"

definition run_quiche :: "('h, 'e, 'w) setup_env \<Rightarrow> 'h \<Rightarrow> ('h, 'e, 'w, unit) setup_proc" where
  "run_quiche env addr =
     andthen (cert_files env ''bench_quiche'' True) (\<lambda>paths.
     andthen (try_call env (Udp_bind addr)) (\<lambda>std_socket.
     andthen (try_call env (Local_addr std_socket)) (\<lambda>loc.
     andthen (try_call env (Set_nonblocking std_socket)) (\<lambda>_.
     andthen (try_call env (Udp_from_std std_socket)) (\<lambda>socket.
     andthen (announce env Quiche loc) (\<lambda>_.
     andthen (try_call env (Quiche_acceptor_new socket (fst paths) (snd paths))) (\<lambda>acceptor.
     andthen
       (finally_do (serve_echo env (Quiche_acceptor acceptor))
          (in_order (map (do_call env)
             [Endpoint_close acceptor (H3_code H3_NO_ERROR) ''server shutdown'', Endpoint_wait_idle acceptor])))
       (\<lambda>_. pret ()))))))))"

text \<open>
  The credential of an msquic server: on Windows one of the certificate store, otherwise the files, which are not made anew if they are there.
\<close>

definition file_cred :: "('h, 'e, 'w) setup_env \<Rightarrow> string \<Rightarrow> ('h, 'e, 'w, 'h) setup_proc" where
  "file_cred env name =
     andthen (cert_files env name False) (\<lambda>paths. pret (se_cert_file env (snd paths) (fst paths)))"

definition store_cred :: "('h, 'e, 'w) setup_env \<Rightarrow> ('h, 'e, 'w, 'h) setup_proc" where
  "store_cred env w =
     (case msquic_server_cred (se_cred env) w of
        (Ok h, w') \<Rightarrow> ([], Return (Ok h), w')
      | (Err m, w') \<Rightarrow> ([], Return (Err (se_error env m)), w'))"

definition msquic_cred :: "('h, 'e, 'w) setup_env \<Rightarrow> ('h, 'e, 'w, 'h) setup_proc" where
  "msquic_cred env = (if se_windows env then store_cred env else file_cred env ''bench_msquic'')"

text \<open>The loop that opens the listener, with its attempts as calls.\<close>

definition open_listener_loop ::
  "('h, 'e, 'w) setup_env \<Rightarrow> 'h \<Rightarrow> 'h \<Rightarrow> string list \<Rightarrow> 'h \<Rightarrow> ('h, 'e, 'w, 'h) setup_proc" where
  "open_listener_loop env reg config alpn addr w =
     (let c = Listener_new reg config alpn addr in
      case bench_listener_loop (se_lib env c) (se_status env) (se_in_use env) 0 w of
        (r, n, w') \<Rightarrow> (replicate n c, Return r, w'))"

definition run_msquic :: "('h, 'e, 'w) setup_env \<Rightarrow> 'h \<Rightarrow> ('h, 'e, 'w, unit) setup_proc" where
  "run_msquic env addr =
     andthen (msquic_cred env) (\<lambda>cred.
     andthen (named_error env ''msquic registration: '' (try_call env (Registration_new ''benchapp_server''))) (\<lambda>reg.
     andthen (named_error env ''msquic configuration: ''
       (try_call env (Open_configuration reg [''h3''] \<lparr>ms_bidi = 1024, ms_unidi = 1024, ms_idle_ms = 1000\<rparr>))) (\<lambda>config.
     andthen (named_error env ''msquic load_credential: '' (try_call env (Load_server_credential config cred))) (\<lambda>_.
     andthen (named_error env ''msquic listener: '' (open_listener_loop env reg config [''h3''] addr)) (\<lambda>listener.
     andthen (named_error env ''msquic local_addr: '' (try_call env (Listener_addr listener))) (\<lambda>a.
     andthen (presult (case se_socket env a of
         None \<Rightarrow> Err (se_error env ''msquic local_addr not a socket addr'') | Some loc \<Rightarrow> Ok loc)) (\<lambda>loc.
     andthen (announce env Msquic loc) (\<lambda>_.
     andthen
       (finally_do (serve_echo env (Msquic_acceptor listener))
          (in_order (map (do_call env)
             [Acceptor_shutdown listener, Reg_shutdown reg, Drop_acceptor listener, Reg_wait_idle reg,
              Drop_config config, Drop_reg reg])))
       (\<lambda>_. pret ())))))))))"

definition run_server :: "('h, 'e, 'w) setup_env \<Rightarrow> Transport \<Rightarrow> 'h \<Rightarrow> ('h, 'e, 'w, unit) setup_proc" where
  "run_server env transport addr =
     (case transport of
        TcpTls \<Rightarrow> run_tcp_tls env addr
      | Quinn \<Rightarrow> run_quinn env addr
      | S2nQuic \<Rightarrow> run_s2n env addr
      | Quiche \<Rightarrow> run_quiche env addr
      | Msquic \<Rightarrow> run_msquic env addr)"

section \<open>\<open>bin/bench-server.rs\<close>\<close>

text \<open>
  The future that ends the serving: if SIGTERM cannot be registered for, only an interrupt is waited for, otherwise the first of
  the two. \<open>interrupt\<close> and \<open>terminate\<close> are the times of the signals, if they come; \<open>None\<close> is a future that never completes. The outcome of waiting for an interrupt is ignored.
\<close>

definition wait_for_shutdown_signal :: "bool \<Rightarrow> nat option \<Rightarrow> nat option \<Rightarrow> nat option" where
  "wait_for_shutdown_signal registered interrupt terminate =
     (if \<not> registered then interrupt
      else case (interrupt, terminate) of
        (Some i, Some t) \<Rightarrow> Some (min i t)
      | (Some i, None) \<Rightarrow> Some i
      | (None, t) \<Rightarrow> t)"

text \<open>\<open>parse_addr\<close> parses a socket address; its error is named with the argument.\<close>

definition bench_server_main :: "('h, 'e, 'w) setup_env \<Rightarrow> (string \<Rightarrow> string + 'h) \<Rightarrow> ServerArgs \<Rightarrow> ('h, 'e, 'w, unit) setup_proc" where
  "bench_server_main env parse_addr args =
     andthen (presult (case parse_addr (sa_addr args) of
         Err e \<Rightarrow> Err (se_error env (''invalid --addr `'' @ sa_addr args @ ''`: '' @ e)) | Ok addr \<Rightarrow> Ok addr)) (\<lambda>addr.
     andthen (run_server env (sa_transport args) addr) (\<lambda>_. pret ()))"

lemmas server_defs = run_tcp_tls_def run_quinn_def run_s2n_def run_quiche_def run_msquic_def

section \<open>Tearing down\<close>

definition is_serve :: "'h libcall \<Rightarrow> bool" where
  "is_serve c \<longleftrightarrow> (case c of Serve a \<Rightarrow> True | _ \<Rightarrow> False)"

text \<open>
  The documented recipes, with the reason that is given when an endpoint is closed; s2n and the TCP baseline have nothing to do.
\<close>

definition teardown_recipe :: "string \<Rightarrow> 'h libcall \<Rightarrow> 'h libcall list \<Rightarrow> bool" where
  "teardown_recipe reason c post \<longleftrightarrow>
     (case c of
        Serve (Quinn_acceptor ep) \<Rightarrow> post = [Endpoint_close ep (Var_code 0) reason, Endpoint_wait_idle ep]
      | Serve (Quiche_acceptor ep) \<Rightarrow> post = [Endpoint_close ep (H3_code H3_NO_ERROR) reason, Endpoint_wait_idle ep]
      | Serve (Msquic_acceptor l) \<Rightarrow>
          (\<exists>reg config. post = [Acceptor_shutdown l, Reg_shutdown reg, Drop_acceptor l, Reg_wait_idle reg, Drop_config config, Drop_reg reg])
      | Serve (S2n_acceptor s) \<Rightarrow> post = []
      | Serve (Tcp_incoming tcp cfg) \<Rightarrow> post = []
      | _ \<Rightarrow> False)"

abbreviation bench_recipe :: "'h libcall \<Rightarrow> 'h libcall list \<Rightarrow> bool" where
  "bench_recipe \<equiv> teardown_recipe ''server shutdown''"

lemma is_serve_Serve [simp]: "is_serve (Serve a)"
  by (simp add: is_serve_def)

lemma avoids_named [avoid_rules]: "avoids P m \<Longrightarrow> avoids P (named_error env what m)"
  by (simp add: named_error_def avoid_rules)

lemma avoids_tls [avoid_rules]:
  "(\<And>l. \<not> P (Generate_self_signed l)) \<Longrightarrow> (\<And>h. \<not> P (Private_key_from_pem h)) \<Longrightarrow> \<not> P Safe_default_versions \<Longrightarrow>
   (\<And>l h. \<not> P (Single_cert l h)) \<Longrightarrow> avoids P (make_server_config env alpn)"
  "\<not> P Safe_default_versions \<Longrightarrow> avoids P (make_danger_client_config env alpn)"
  by (simp_all add: make_server_config_def make_test_cert_rustls_def make_danger_client_config_def avoid_rules)

lemma avoids_files [avoid_rules, simp]: "avoids P (cert_files env name regen)" "avoids P (store_cred env)"
  by (simp_all add: avoids_def cert_files_def store_cred_def split: prod.splits outcome.splits sum.splits)

lemma avoids_cred [avoid_rules, simp]: "avoids P (file_cred env name)" "avoids P (msquic_cred env)"
  by (simp_all add: msquic_cred_def file_cred_def avoid_rules)

lemma avoids_listener [avoid_rules]:
  "\<not> P (Listener_new reg config alpn addr) \<Longrightarrow> avoids P (open_listener_loop env reg config alpn addr)"
  by (simp add: avoids_def open_listener_loop_def Let_def split: prod.splits)

lemma avoids_announce [avoid_rules]: "\<not> P (Announce t h) \<Longrightarrow> avoids P (announce env t h)"
  by (simp add: announce_def)

lemma guarded_serve:
  "bench_recipe (Serve a) post \<Longrightarrow>
   guarded (returning (se_lib env)) is_serve bench_recipe (finally_do (serve_echo env a) (in_order (map (do_call env) post)))"
  "bench_recipe (Serve a) [] \<Longrightarrow> guarded (returning (se_lib env)) is_serve bench_recipe (serve_echo env a)"
  by (simp_all add: serve_echo_def invoke_calling guarded_finally guarded_calling)

lemma run_server_guarded: "guarded (returning (se_lib env)) is_serve bench_recipe (run_server env t addr)"
  by (cases t)
    (auto simp: run_server_def server_defs is_serve_def teardown_recipe_def simp del: list.map in_order.simps
      intro!: guarded_andthen avoid_rules guarded_value guarded_serve)

lemma bench_server_main_guarded:
  "guarded (returning (se_lib env)) is_serve bench_recipe (bench_server_main env parse_addr args)"
  unfolding bench_server_main_def by (intro guarded_andthen avoid_rules guarded_value run_server_guarded)

text \<open>
  C38: a benchmark server never leaves without tearing down. Over every transport, either the set-up did not succeed, nothing was
  served and the result is no success, or the server served once and then made exactly the calls of the
  recipe of its transport, in their order, whether the serving has failed or not; its result is that of the serving.
\<close>

theorem bench_server_tears_down:
  "case run_server env t addr w of
     (cs, out, w') \<Rightarrow>
       (\<forall>c \<in> set cs. \<not> is_serve c) \<and> (\<forall>x. out \<noteq> Return (Ok x)) \<or>
       (\<exists>pre c post w1. cs = pre @ c # post \<and> is_serve c \<and> (\<forall>d \<in> set pre. \<not> is_serve d) \<and> bench_recipe c post \<and>
          (case fst (se_lib env c w1) of Err e \<Rightarrow> out = Return (Err e) | Ok h \<Rightarrow> \<exists>x. out = Return (Ok x)))"
proof -
  obtain cs out w' where r: "run_server env t addr w = (cs, out, w')" by (metis prod_cases3)
  with run_server_guarded [of env t addr] have "torn_down (returning (se_lib env)) is_serve bench_recipe cs out" unfolding guarded_def by blast
  then show ?thesis unfolding r torn_down_def by (simp only: prod.case fst_returning outcome.case case_sum_conj)
qed

text \<open>A quinn server whose serving fails: the endpoint is closed and awaited all the same.\<close>

definition sample_setup :: "(nat, nat, nat) setup_env" where
  "sample_setup = \<lparr>se_lib = (\<lambda>c w. (if is_serve c then Err 1 else Ok w, w + 1)), se_cert = id, se_key = id,
     se_text = (\<lambda>e. []), se_error = length, se_status = Some, se_in_use = 48, se_socket = Some,
     se_files = (\<lambda>n r w. (Return (0, 1), w)),
     se_windows = False, se_cert_file = (\<lambda>k c. k),
     se_cred = \<lparr>cr_list = (\<lambda>w. (Ok (True, []), w)), cr_gen = (\<lambda>w. (Ok True, w)), cr_utf8 = (\<lambda>b. Some []), cr_from_str = (\<lambda>s. Ok 0)\<rparr>\<rparr>"

theorem bench_server_tears_down_witness:
  "\<exists>pre w'. run_server sample_setup Quinn 7 0 =
     (pre @ [Serve (Quinn_acceptor 5), Endpoint_close 5 (Var_code 0) ''server shutdown'', Endpoint_wait_idle 5], Return (Err 1), w')"
proof -
  obtain cs out w' where r: "run_server sample_setup Quinn 7 0 = (cs, out, w')" by (metis prod_cases3)
  then have o: "out = Return (Err 1)" "Serve (Quinn_acceptor 5) \<in> set cs" "length (filter is_serve cs) = 1"
    by (auto simp: run_server_def run_quinn_def make_server_config_def make_test_cert_rustls_def announce_def serve_echo_def
        finally_do_def proc_defs sample_setup_def is_serve_def)
  from bench_server_tears_down [of sample_setup Quinn 7 0] o(2) obtain pre c post w1 where
    p: "cs = pre @ c # post" "is_serve c" "\<forall>d \<in> set pre. \<not> is_serve d" "bench_recipe c post"
    unfolding r by (auto split: sum.splits)
  with o(2,3) have "c = Serve (Quinn_acceptor 5)" by (auto simp: filter_empty_conv)
  with p r o(1) show ?thesis by (simp add: teardown_recipe_def)
qed

end
