(* ===== verification/BenchClient.thy ===== *)
theory BenchClient
  imports BenchServer
begin

text \<open>
  The client of the benchmark: \<open>tests/bench/src/client.rs\<close> and \<open>bin/bench-client.rs\<close>. Each transport builds its channel, drives the
  load of theory \<open>Bench\<close> over it and tears its endpoint down.
\<close>

section \<open>\<open>client.rs\<close>\<close>

text \<open>
  \<open>le_connect\<close> is the connection attempt of tonic over TCP under the timeout, with \<open>None\<close> when the time was up; \<open>le_drive\<close> is
  \<open>drive_load\<close>, which may panic; \<open>le_fmt\<close>, \<open>le_show\<close> and \<open>le_render\<close> print a duration, a summary and a JSON object.
\<close>

record ('h, 'e, 'w, 'f) load_env =
  le_setup :: "('h, 'e, 'w) setup_env"
  le_parse_uri :: "string \<Rightarrow> 'e + uri"
  le_connect :: "'h \<Rightarrow> ClientConfig \<Rightarrow> 'w \<Rightarrow> ('e + 'h) option \<times> 'w"
  le_drive :: "'h channel \<Rightarrow> LoadConfig \<Rightarrow> 'w \<Rightarrow> ('e + 'f BenchSummary) outcome \<times> 'w"
  le_fmt :: "nat \<Rightarrow> string"
  le_show :: "'f BenchSummary \<Rightarrow> string"
  le_render :: "(string \<times> 'f json) list \<Rightarrow> string"

definition make_quinn_client_endpoint :: "('h, 'e, 'w) setup_env \<Rightarrow> ('h, 'e, 'w, 'h) setup_proc" where
  "make_quinn_client_endpoint env =
     andthen (make_danger_client_config env [''h3'']) (\<lambda>tls_config.
     andthen (try_call env (Quinn_client ''[::]:0'')) (\<lambda>endpoint.
     andthen (try_call env (Quic_client_crypto tls_config)) (\<lambda>client_config.
     andthen (do_call env (Set_client_config endpoint client_config)) (\<lambda>_. pret endpoint))))"

definition tls_connect :: "('h, 'e, 'w, 'f) load_env \<Rightarrow> 'h \<Rightarrow> ClientConfig \<Rightarrow> ('h, 'e, 'w, 'h option) setup_proc" where
  "tls_connect env endpoint client_config w =
     (case le_connect env endpoint client_config w of
        (None, w') \<Rightarrow> ([Tls_connect endpoint client_config], Return (Ok None), w')
      | (Some (Ok channel), w') \<Rightarrow> ([Tls_connect endpoint client_config], Return (Ok (Some channel)), w')
      | (Some (Err e), w') \<Rightarrow> ([Tls_connect endpoint client_config], Return (Err e), w'))"

definition connect_tcp_tls :: "('h, 'e, 'w, 'f) load_env \<Rightarrow> string \<Rightarrow> ('h, 'e, 'w, 'h option) setup_proc" where
  "connect_tcp_tls env addr =
     (let se = le_setup env in
      andthen (try_call se (Endpoint_from_shared (''https://'' @ addr))) (\<lambda>endpoint.
      andthen (try_call se (Server_name ''localhost'')) (\<lambda>_.
      andthen (make_danger_client_config se [''h2'']) (\<lambda>client_config.
      tls_connect env endpoint client_config))))"

definition make_s2n_client_endpoint :: "('h, 'e, 'w) setup_env \<Rightarrow> ('h, 'e, 'w, 'h) setup_proc" where
  "make_s2n_client_endpoint env =
     andthen (make_danger_client_config env [''h3'']) (\<lambda>tls.
     andthen (named_error env ''s2n tls provider: '' (try_call env (S2n_client_tls tls))) (\<lambda>b.
     andthen (named_error env ''s2n io: '' (try_call env (S2n_client_io b ''0.0.0.0:0''))) (\<lambda>b'.
     named_error env ''s2n start: '' (try_call env (S2n_start b')))))"

definition make_msquic_client_parts :: "('h, 'e, 'w) setup_env \<Rightarrow> ('h, 'e, 'w, 'h \<times> 'h) setup_proc" where
  "make_msquic_client_parts env =
     andthen (named_error env ''msquic registration: '' (try_call env (Registration_new ''benchapp_client''))) (\<lambda>reg.
     andthen (named_error env ''msquic configuration: ''
       (try_call env (Open_configuration reg [''h3''] \<lparr>ms_bidi = 1024, ms_unidi = 1024, ms_idle_ms = 1000\<rparr>))) (\<lambda>config.
     andthen (named_error env ''msquic load_credential: '' (try_call env (Load_client_credential config))) (\<lambda>_.
     pret (reg, config))))"

text \<open>The load over a channel, as a call that may panic.\<close>

definition drive_call ::
  "('h, 'e, 'w, 'f) load_env \<Rightarrow> LoadConfig \<Rightarrow> 'h libcall \<Rightarrow> 'w \<Rightarrow> ('e + 'f BenchSummary) outcome \<times> 'w" where
  "drive_call env cfg c w = (case c of Drive channel \<Rightarrow> le_drive env channel cfg w | _ \<Rightarrow> (Panic [], w))"

definition drive :: "('h, 'e, 'w, 'f) load_env \<Rightarrow> LoadConfig \<Rightarrow> 'h channel \<Rightarrow> ('h, 'e, 'w, 'f BenchSummary) setup_proc" where
  "drive env cfg channel = calling (drive_call env cfg) (Drive channel)"

definition run_client :: "('h, 'e, 'w, 'f) load_env \<Rightarrow> ClientArgs \<Rightarrow> ('h, 'e, 'w, 'f BenchSummary) setup_proc" where
  "run_client env args =
     (let se = le_setup env; cfg = load_config args in
      andthen (presult (le_parse_uri env (''https://'' @ ca_addr args))) (\<lambda>u.
      case ca_transport args of
        TcpTls \<Rightarrow>
          andthen (connect_tcp_tls env (ca_addr args)) (\<lambda>connected.
          case connected of
            None \<Rightarrow> pfail (se_error se
              (''tcp-tls connect timed out after '' @ le_fmt env (lc_connect_timeout cfg) @ ''; is the server running?''))
          | Some channel \<Rightarrow> drive env cfg (Tcp_channel channel))
      | Quinn \<Rightarrow>
          andthen (make_quinn_client_endpoint se) (\<lambda>endpoint.
          finally_do (drive env cfg (Quinn_channel u ''localhost'' endpoint))
            (in_order (map (do_call se) [Endpoint_close endpoint (Var_code 0) ''client done''])))
      | S2nQuic \<Rightarrow>
          andthen (make_s2n_client_endpoint se) (\<lambda>s2n_ep. drive env cfg (S2n_channel u ''localhost'' s2n_ep))
      | Quiche \<Rightarrow> drive env cfg (Quiche_channel u ''localhost'' False)
      | Msquic \<Rightarrow>
          andthen (make_msquic_client_parts se) (\<lambda>parts.
          finally_do (drive env cfg (Msquic_channel (snd parts) (fst parts) u))
            (in_order (map (do_call se) [Reg_shutdown (fst parts), Reg_wait_idle (fst parts), Drop_reg (fst parts)])))))"

definition bench_client_main ::
  "('hi, 'f) metric_ops \<Rightarrow> ('h, 'e, 'w, 'f) load_env \<Rightarrow> ClientArgs \<Rightarrow> ('h, 'e, 'w, unit) setup_proc" where
  "bench_client_main mops env args =
     andthen (run_client env args) (\<lambda>summary.
     andthen (do_call (le_setup env) (Print
       (case ca_format args of
          Text \<Rightarrow> le_show env summary
        | Json \<Rightarrow> le_render env (to_json mops summary (transport_display (ca_transport args)) (ca_payload_size args) (ca_concurrency args))))) (\<lambda>_.
     if bs_success summary = 0 then pfail (se_error (le_setup env) ''no successful requests'') else pret ()))"

section \<open>Tearing down\<close>

definition is_drive :: "'h libcall \<Rightarrow> bool" where
  "is_drive c \<longleftrightarrow> (case c of Drive ch \<Rightarrow> True | _ \<Rightarrow> False)"

definition client_recipe :: "'h libcall \<Rightarrow> 'h libcall list \<Rightarrow> bool" where
  "client_recipe c post \<longleftrightarrow>
     (case c of
        Drive (Quinn_channel u name ep) \<Rightarrow> post = [Endpoint_close ep (Var_code 0) ''client done'']
      | Drive (Msquic_channel config reg u) \<Rightarrow> post = [Reg_shutdown reg, Reg_wait_idle reg, Drop_reg reg]
      | Drive ch \<Rightarrow> post = []
      | _ \<Rightarrow> False)"

lemma is_drive_Drive [simp]: "is_drive (Drive ch)"
  by (simp add: is_drive_def)

lemma avoids_connect [avoid_rules]: "\<not> P (Tls_connect ep cfg) \<Longrightarrow> avoids P (tls_connect env ep cfg)"
  by (simp add: avoids_def tls_connect_def split: prod.splits option.splits sum.splits)

lemma avoids_drive: "avoids is_drive (make_quinn_client_endpoint se)" "avoids is_drive (connect_tcp_tls env addr)"
  "avoids is_drive (make_s2n_client_endpoint se)" "avoids is_drive (make_msquic_client_parts se)"
  by (auto simp: make_quinn_client_endpoint_def connect_tcp_tls_def make_s2n_client_endpoint_def make_msquic_client_parts_def Let_def
      is_drive_def intro!: avoid_rules)

lemma guarded_drive:
  "client_recipe (Drive ch) post \<Longrightarrow>
   guarded (drive_call env cfg) is_drive client_recipe (finally_do (drive env cfg ch) (in_order (map (do_call se) post)))"
  "client_recipe (Drive ch) [] \<Longrightarrow> guarded (drive_call env cfg) is_drive client_recipe (drive env cfg ch)"
  by (simp_all add: drive_def guarded_finally guarded_calling)

lemma guarded_pfail: "guarded act P recipe (pfail e)"
  by (simp add: guarded_def torn_down_def pfail_def)

lemma run_client_guarded: "guarded (drive_call env (load_config args)) is_drive client_recipe (run_client env args)"
  by (cases "ca_transport args")
    (auto simp: run_client_def Let_def client_recipe_def simp del: list.map in_order.simps
      intro!: guarded_andthen avoid_rules avoids_drive guarded_drive guarded_pfail split: option.splits)

text \<open>
  A benchmark client never leaves without tearing down. Over every transport, either no load was driven and the result is
  no summary, or the load was driven once; if it has returned, with an error or not, exactly the calls of the recipe of the
  transport have followed, and the result is that of the load. Only a panic of the load skips them.
\<close>

theorem bench_client_tears_down:
  "case run_client env args w of
     (cs, out, w') \<Rightarrow>
       (\<forall>c \<in> set cs. \<not> is_drive c) \<and> (\<forall>x. out \<noteq> Return (Ok x)) \<or>
       (\<exists>pre c post w1. cs = pre @ c # post \<and> is_drive c \<and> (\<forall>d \<in> set pre. \<not> is_drive d) \<and>
          (case fst (drive_call env (load_config args) c w1) of
             Panic m \<Rightarrow> post = [] \<and> out = Panic m
           | Return (Err e) \<Rightarrow> client_recipe c post \<and> out = Return (Err e)
           | Return (Ok s) \<Rightarrow> client_recipe c post \<and> (\<exists>x. out = Return (Ok x))))"
proof -
  obtain cs out w' where r: "run_client env args w = (cs, out, w')" by (metis prod_cases3)
  with run_client_guarded [of env args] have "torn_down (drive_call env (load_config args)) is_drive client_recipe cs out"
    unfolding guarded_def by blast
  then show ?thesis unfolding r torn_down_def by (simp only: prod.case)
qed

text \<open>A load over msquic that fails: the registration is shut down, awaited and dropped all the same.\<close>

definition sample_load :: "(nat, nat, nat, unit) load_env" where
  "sample_load = \<lparr>le_setup = sample_setup, le_parse_uri = (\<lambda>s. Ok \<lparr>uri_scheme = None, uri_authority = None, uri_path_and_query = None\<rparr>),
     le_connect = (\<lambda>ep cfg w. (None, w)), le_drive = (\<lambda>ch cfg w. (Return (Err 1), w)), le_fmt = (\<lambda>n. []), le_show = (\<lambda>s. []),
     le_render = (\<lambda>j. [])\<rparr>"

definition sample_args :: ClientArgs where
  "sample_args = \<lparr>ca_transport = Msquic, ca_addr = ''host:1'', ca_format = Text, ca_payload_size = 64, ca_concurrency = 16,
     ca_count = None, ca_duration = None, ca_warmup = None, ca_connect_timeout = 5, ca_request_timeout = 5\<rparr>"

theorem bench_client_tears_down_witness:
  "\<exists>pre u w'. run_client sample_load sample_args 0 =
     (pre @ [Drive (Msquic_channel 1 0 u), Reg_shutdown 0, Reg_wait_idle 0, Drop_reg 0], Return (Err 1), w')"
proof -
  obtain cs out w' where r: "run_client sample_load sample_args 0 = (cs, out, w')" by (metis prod_cases3)
  then have o: "out = Return (Err 1)" "\<exists>u. Drive (Msquic_channel 1 0 u) \<in> set cs" "length (filter is_drive cs) = 1"
    by (auto simp: run_client_def Let_def make_msquic_client_parts_def named_error_def drive_def drive_call_def
        finally_do_def proc_defs sample_load_def sample_args_def sample_setup_def is_drive_def is_serve_def)
  from o(2) obtain u where u: "Drive (Msquic_channel 1 0 u) \<in> set cs" ..
  then have "\<not> (\<forall>c \<in> set cs. \<not> is_drive c)" by force
  with bench_client_tears_down [of sample_load sample_args 0, unfolded r prod.case] obtain pre c post w1 where
    p: "cs = pre @ c # post" "is_drive c" "\<forall>d \<in> set pre. \<not> is_drive d"
      "case fst (drive_call sample_load (load_config sample_args) c w1) of
             Panic m \<Rightarrow> post = [] \<and> out = Panic m
           | Return (Err e) \<Rightarrow> client_recipe c post \<and> out = Return (Err e)
           | Return (Ok s) \<Rightarrow> client_recipe c post \<and> (\<exists>x. out = Return (Ok x))" by blast
  with u o(3) have c: "c = Drive (Msquic_channel 1 0 u)" by (auto simp: filter_empty_conv)
  with p(4) have "client_recipe c post" by (simp add: drive_call_def sample_load_def)
  with c p(1) r o(1) show ?thesis by (auto simp: client_recipe_def)
qed

section \<open>Both ends\<close>

text \<open>The protocol that a transport negotiates, and the calls that would offer another one.\<close>

definition alpn_of :: "Transport \<Rightarrow> string list" where
  "alpn_of t = (if t = TcpTls then [''h2''] else [''h3''])"

definition offers_other :: "string list \<Rightarrow> 'h libcall \<Rightarrow> bool" where
  "offers_other alpn c \<longleftrightarrow>
     (case c of
        Quic_server_crypto cfg \<Rightarrow> sc_alpn cfg \<noteq> alpn
      | S2n_server_tls cfg \<Rightarrow> sc_alpn cfg \<noteq> alpn
      | Serve (Tcp_incoming tcp cfg) \<Rightarrow> sc_alpn cfg \<noteq> alpn
      | Listener_new reg config a addr \<Rightarrow> a \<noteq> alpn
      | Open_configuration reg a settings \<Rightarrow> a \<noteq> alpn
      | Quic_client_crypto cfg \<Rightarrow> cl_alpn cfg \<noteq> alpn
      | S2n_client_tls cfg \<Rightarrow> cl_alpn cfg \<noteq> alpn
      | Tls_connect ep cfg \<Rightarrow> cl_alpn cfg \<noteq> alpn
      | _ \<Rightarrow> False)"

lemma avoids_in_order [avoid_rules]: "(\<And>c. c \<in> set cs \<Longrightarrow> \<not> P c) \<Longrightarrow> avoids P (in_order (map (perform lib) cs))"
  by (induction cs) (auto intro!: avoid_rules)

lemma avoids_finally [avoid_rules]: "avoids P m \<Longrightarrow> avoids P t \<Longrightarrow> avoids P (finally_do m t)"
  by (simp add: finally_do_def avoid_rules)

text \<open>
  Both ends of a benchmark offer the same protocol. Over every transport, every TLS or msquic configuration and listener that the
  server sets up, and every one that the client sets up, offers \<open>h2\<close> for the TCP baseline and \<open>h3\<close> for the others.
\<close>

theorem bench_ends_agree:
  "set (fst (run_server se t addr w)) \<inter> {c. offers_other (alpn_of t) c} = {} \<and>
   set (fst (run_client env (args\<lparr>ca_transport := t\<rparr>) w')) \<inter> {c. offers_other (alpn_of t) c} = {}"
proof -
  have "avoids (offers_other (alpn_of t)) (run_server se t addr)"
    by (cases t)
      (auto simp: run_server_def server_defs make_server_config_def make_test_cert_rustls_def andthen_assoc serve_echo_def
        offers_other_def alpn_of_def simp del: list.map in_order.simps intro!: avoid_rules)
  moreover have "avoids (offers_other (alpn_of t)) (run_client env (args\<lparr>ca_transport := t\<rparr>))"
    by (cases t)
      (auto simp: run_client_def Let_def make_quinn_client_endpoint_def connect_tcp_tls_def make_s2n_client_endpoint_def
        make_msquic_client_parts_def make_danger_client_config_def andthen_assoc drive_def offers_other_def alpn_of_def
        simp del: list.map in_order.simps intro!: avoid_rules split: option.splits)
  ultimately show ?thesis unfolding avoids_def by blast
qed

text \<open>
  The exit status: the benchmark client ends well only if a summary with a success was printed.
\<close>

theorem bench_client_exit:
  assumes "bench_client_main mops env args w = (cs, Return (Ok ()), w')"
  shows "\<exists>cs1 s w1 text. run_client env args w = (cs1, Return (Ok s), w1) \<and> bs_success s \<noteq> 0 \<and> cs = cs1 @ [Print text]"
  using assms
  by (auto simp: bench_client_main_def andthen_def perform_def pret_def pfail_def split: prod.splits outcome.splits sum.splits if_splits)

end
