(* ===== verification/DotnetTests.thy ===== *)
theory DotnetTests
  imports Procedures
begin

text \<open>
  The interoperability tests of \<open>tonic-h3-tests/src/dotnet.rs\<close>: they start a server as a child process, run the client of .NET until it succeeds, run the Rust
  client once and kill the server. The processes are a parameter; the commands that are run and their order are modelled.
\<close>

section \<open>Commands\<close>

type_synonym path = "string list"

record command =
  cm_program :: string
  cm_current_dir :: "path option"
  cm_args :: "string list"

text \<open>
  \<open>Output\<close> runs a command to its end, \<open>Spawn\<close> only starts it; \<open>Kill\<close> and \<open>Wait_with_output\<close> are for the child with that identifier.
\<close>

datatype pcall =
    Current_dir
  | Output command
  | Spawn command
  | Sleep_secs nat
  | Kill nat
  | Wait_with_output nat

datatype preply = P_none | P_dir path | P_exit bool | P_child nat

type_synonym 'w processes = "pcall \<Rightarrow> 'w \<Rightarrow> (string + preply) \<times> 'w"

type_synonym ('w, 'a) prun = "(pcall, 'w, string, 'a) proc"

fun succeeded :: "preply \<Rightarrow> bool" where
  "succeeded (P_exit b) = b"
| "succeeded _ = False"

fun child_of :: "preply \<Rightarrow> nat" where
  "child_of (P_child c) = c"
| "child_of _ = 0"

fun dir_of :: "preply \<Rightarrow> path" where
  "dir_of (P_dir d) = d"
| "dir_of _ = []"

definition dotnet_client_command :: "path \<Rightarrow> command" where
  "dotnet_client_command root_dir =
     \<lparr>cm_program = ''dotnet'', cm_current_dir = Some root_dir, cm_args = [''run'', ''--project'', ''./dotnet/client/client.csproj'']\<rparr>"

definition rust_example_command :: "string \<Rightarrow> command" where
  "rust_example_command example =
     \<lparr>cm_program = ''cargo'', cm_current_dir = None,
      cm_args = [''run'', ''--package'', ''tonic-h3-test'', ''--example'', example, ''--'', ''--nocapture'']\<rparr>"

definition dotnet_server_command :: "path \<Rightarrow> command" where
  "dotnet_server_command root_dir =
     \<lparr>cm_program = ''dotnet'', cm_current_dir = Some root_dir, cm_args = [''run'', ''--project'', ''./dotnet/server/server.csproj'']\<rparr>"

definition invoke_dotnet_client :: "'w processes \<Rightarrow> path \<Rightarrow> ('w, preply) prun" where
  "invoke_dotnet_client lib root_dir = expecting ''Couldn't run client'' (invoke lib (Output (dotnet_client_command root_dir)))"

definition invoke_rust_client :: "'w processes \<Rightarrow> ('w, unit) prun" where
  "invoke_rust_client lib =
     andthen (expecting ''Couldn't run client'' (invoke lib (Output (rust_example_command ''client'')))) (\<lambda>child_client.
     if succeeded child_client then pret () else ppanic ''assertion failed: child_client.status.success()'')"

definition run_rust_server :: "'w processes \<Rightarrow> ('w, nat) prun" where
  "run_rust_server lib =
     andthen (expecting ''unwrap'' (invoke lib (Spawn (rust_example_command ''server'')))) (\<lambda>child. pret (child_of child))"

definition run_dotnet_server :: "'w processes \<Rightarrow> path \<Rightarrow> ('w, nat) prun" where
  "run_dotnet_server lib root_dir =
     andthen (expecting ''unwrap'' (invoke lib (Spawn (dotnet_server_command root_dir)))) (\<lambda>child. pret (child_of child))"

text \<open>\<open>parent\<close> of a path: the root has none.\<close>

definition get_root_dir :: "'w processes \<Rightarrow> ('w, path) prun" where
  "get_root_dir lib =
     andthen (expecting ''unwrap'' (invoke lib Current_dir)) (\<lambda>d.
     if dir_of d = [] then ppanic ''unwrap'' else pret (butlast (dir_of d)))"

section \<open>The tests\<close>

text \<open>\<open>for _ in 0..30\<close>, with the number of turns left; the result is \<open>ok\<close>.\<close>

fun client_loop :: "'w processes \<Rightarrow> path \<Rightarrow> nat \<Rightarrow> ('w, bool) prun" where
  "client_loop lib root_dir 0 = pret False"
| "client_loop lib root_dir (Suc n) =
     andthen (invoke_dotnet_client lib root_dir) (\<lambda>out.
     if succeeded out then pret True
     else andthen (perform lib (Sleep_secs 1)) (\<lambda>_. client_loop lib root_dir n))"

text \<open>What the two tests do once their server was started.\<close>

definition interop_rest :: "'w processes \<Rightarrow> path \<Rightarrow> nat \<Rightarrow> ('w, unit) prun" where
  "interop_rest lib root_dir h_svr =
     andthen (perform lib (Sleep_secs 1)) (\<lambda>_.
     andthen (client_loop lib root_dir 30) (\<lambda>ok.
     if \<not> ok then ppanic ''assertion failed: ok''
     else
       andthen (invoke_rust_client lib) (\<lambda>_.
       andthen (expecting ''unwrap'' (invoke lib (Kill h_svr))) (\<lambda>_.
       andthen (expecting ''unwrap'' (invoke lib (Wait_with_output h_svr))) (\<lambda>server_out. pret ())))))"

definition rust_server :: "'w processes \<Rightarrow> ('w, unit) prun" where
  "rust_server lib =
     andthen (get_root_dir lib) (\<lambda>root_dir.
     andthen (run_rust_server lib) (\<lambda>h_svr. interop_rest lib root_dir h_svr))"

definition dotnet_server :: "'w processes \<Rightarrow> ('w, unit) prun" where
  "dotnet_server lib =
     andthen (get_root_dir lib) (\<lambda>root_dir.
     andthen (run_dotnet_server lib root_dir) (\<lambda>h_svr. interop_rest lib root_dir h_svr))"

section \<open>Results\<close>

abbreviation client_run :: "path \<Rightarrow> pcall" where
  "client_run root_dir \<equiv> Output (dotnet_client_command root_dir)"

text \<open>The calls of the loop: attempts that failed, with their pauses, and at the end one that did not, unless the turns have run out.\<close>

definition retries :: "path \<Rightarrow> nat \<Rightarrow> pcall list" where
  "retries root_dir k = concat (replicate k [client_run root_dir, Sleep_secs 1])"

lemma retries_Suc: "retries d (Suc k) = client_run d # Sleep_secs 1 # retries d k"
  by (simp add: retries_def)

lemma client_loop_runs:
  assumes "client_loop lib d n w = (cs, out, w')"
  shows "\<exists>k \<le> n. (cs = retries d k \<and> k = n \<and> out = Return (Ok False)) \<or>
    (k < n \<and> cs = retries d k @ [client_run d] \<and> (out = Return (Ok True) \<or> (\<exists>m. out = Panic m)))"
  using assms
proof (induction n arbitrary: w cs)
  case 0
  then show ?case by (simp add: pret_def retries_def)
next
  case (Suc n)
  obtain r w1 where r: "lib (client_run d) w = (r, w1)" by fastforce
  show ?case
  proof (cases "\<exists>x. r = Ok x \<and> \<not> succeeded x")
    case True
    obtain q w2 where s: "lib (Sleep_secs 1) w1 = (q, w2)" by fastforce
    obtain cs1 where l: "client_loop lib d n w2 = (cs1, out, w')" "cs = client_run d # Sleep_secs 1 # cs1"
      using Suc.prems True r s by (auto simp: invoke_dotnet_client_def proc_defs split: prod.splits)
    from Suc.IH [OF l(1)] obtain k where k: "k \<le> n" "(cs1 = retries d k \<and> k = n \<and> out = Return (Ok False)) \<or>
      (k < n \<and> cs1 = retries d k @ [client_run d] \<and> (out = Return (Ok True) \<or> (\<exists>m. out = Panic m)))" by blast
    show ?thesis using k l(2) by (intro exI [of _ "Suc k"]) (auto simp: retries_Suc)
  next
    case False
    with Suc.prems r have "cs = [client_run d]" "out = Return (Ok True) \<or> (\<exists>m. out = Panic m)"
      by (auto simp: invoke_dotnet_client_def proc_defs split: sum.splits)
    then show ?thesis by (intro exI [of _ 0]) (simp add: retries_def)
  qed
qed

definition is_client_run :: "pcall \<Rightarrow> bool" where
  "is_client_run c \<longleftrightarrow> (case c of Output cmd \<Rightarrow> cm_program cmd = ''dotnet'' | _ \<Rightarrow> False)"

definition is_kill :: "pcall \<Rightarrow> bool" where
  "is_kill c \<longleftrightarrow> (case c of Kill h \<Rightarrow> True | _ \<Rightarrow> False)"

text \<open>
  How a test ends after the server was started. It has passed, after at most thirty runs of the client, all but the last of them unsuccessful, with the server
  killed and waited for; or it has panicked, after at most thirty runs as well, and the server was killed only if the Rust client was run.
\<close>

definition interop_end :: "path \<Rightarrow> nat \<Rightarrow> pcall list \<Rightarrow> (string + unit) outcome \<Rightarrow> bool" where
  "interop_end d h cs out \<longleftrightarrow>
     (case out of
        Return (Ok _) \<Rightarrow>
          (\<exists>k < 30. cs = Sleep_secs 1 # retries d k @ [client_run d, Output (rust_example_command ''client''), Kill h, Wait_with_output h])
      | Return (Err e) \<Rightarrow> False
      | Panic m \<Rightarrow>
          length (filter is_client_run cs) \<le> 30 \<and> (list_ex is_kill cs \<longrightarrow> Output (rust_example_command ''client'') \<in> set cs))"

lemma call_kinds [simp]:
  "is_client_run (client_run d)" "\<not> is_client_run (Output (rust_example_command e))" "\<not> is_client_run (Sleep_secs n)" "\<not> is_client_run (Kill h)"
  "\<not> is_client_run (Wait_with_output h)" "is_kill (Kill h)" "\<not> is_kill (Output cmd)" "\<not> is_kill (Sleep_secs n)" "\<not> is_kill (Wait_with_output h)"
  by (simp_all add: is_client_run_def is_kill_def dotnet_client_command_def rust_example_command_def)

lemma retries_counts [simp]: "length (filter is_client_run (retries d k)) = k" "\<not> list_ex is_kill (retries d k)"
  by (induction k) (simp_all add: retries_Suc, simp_all add: retries_def)

lemma interop_rest_end:
  assumes "interop_rest lib d h w = (cs, out, w')"
  shows "interop_end d h cs out"
proof -
  let ?rust = "Output (rust_example_command ''client'')"
  obtain q w1 where s: "lib (Sleep_secs 1) w = (q, w1)" by fastforce
  obtain cs1 o1 w2 where l: "client_loop lib d 30 w1 = (cs1, o1, w2)" by (metis prod_cases3)
  from client_loop_runs [OF l] consider (out) "cs1 = retries d 30" "o1 = Return (Ok False)"
    | (ok) k where "k < 30" "cs1 = retries d k @ [client_run d]" "o1 = Return (Ok True)"
    | (panic) k m where "k < 30" "cs1 = retries d k @ [client_run d]" "o1 = Panic m" by blast
  then show ?thesis
  proof cases
    case out
    with assms s l have "cs = Sleep_secs 1 # retries d 30" "\<exists>m. out = Panic m" by (auto simp: interop_rest_def proc_defs)
    then show ?thesis by (auto simp: interop_end_def)
  next
    case panic
    with assms s l have "cs = Sleep_secs 1 # cs1" "\<exists>m. out = Panic m" by (auto simp: interop_rest_def proc_defs)
    with panic show ?thesis by (auto simp: interop_end_def)
  next
    case ok
    obtain r3 w3 where r3: "lib ?rust w2 = (r3, w3)" by fastforce
    obtain r4 w4 where r4: "lib (Kill h) w3 = (r4, w4)" by fastforce
    obtain r5 w5 where r5: "lib (Wait_with_output h) w4 = (r5, w5)" by fastforce
    from assms s l ok r3 r4 r5 have
      "(cs = Sleep_secs 1 # cs1 @ [?rust, Kill h, Wait_with_output h] \<and> (out = Return (Ok ()) \<or> (\<exists>m. out = Panic m))) \<or>
       (cs = Sleep_secs 1 # cs1 @ [?rust, Kill h] \<and> (\<exists>m. out = Panic m)) \<or> (cs = Sleep_secs 1 # cs1 @ [?rust] \<and> (\<exists>m. out = Panic m))"
      by (auto simp: interop_rest_def invoke_rust_client_def proc_defs split: sum.splits if_splits)
    with ok show ?thesis by (auto simp: interop_end_def)
  qed
qed

text \<open>
  The tests with .NET retry their client a bounded number of times and nothing else. A run of either test that has started its server ends in one of the two ways of
  \<open>interop_end\<close>; the directory is asked for once, before, and the server is started once.
\<close>

theorem dotnet_tests_end:
  assumes "(if dotnet then dotnet_server lib else rust_server lib) w = (cs, out, w')" "Current_dir # Spawn cmd # rest = cs"
  shows "\<exists>d h. interop_end d h rest out \<and> cmd = (if dotnet then dotnet_server_command d else rust_example_command ''server'')"
proof -
  obtain r1 w1 where r1: "lib Current_dir w = (r1, w1)" by fastforce
  obtain d where d: "r1 = Ok d" "dir_of d \<noteq> []"
    using assms r1 by (auto simp: dotnet_server_def rust_server_def get_root_dir_def proc_defs split: if_splits sum.splits)
  let ?d = "butlast (dir_of d)"
  let ?cmd = "if dotnet then dotnet_server_command ?d else rust_example_command ''server''"
  obtain r2 w2 where r2: "lib (Spawn ?cmd) w1 = (r2, w2)" by fastforce
  have c: "cmd = ?cmd"
    using assms r1 d by (auto simp: dotnet_server_def rust_server_def run_dotnet_server_def run_rust_server_def get_root_dir_def proc_defs
        split: if_splits sum.splits prod.splits)
  show ?thesis
  proof (cases r2)
    case (Inl e)
    with assms r1 d r2 have "rest = []" "\<exists>m. out = Panic m"
      by (auto simp: dotnet_server_def rust_server_def run_dotnet_server_def run_rust_server_def get_root_dir_def proc_defs split: if_splits)
    then show ?thesis using c by (auto simp: interop_end_def)
  next
    case (Inr x)
    with assms r1 d r2 have "interop_rest lib ?d (child_of x) w2 = (rest, out, w')"
      by (auto simp: dotnet_server_def rust_server_def run_dotnet_server_def run_rust_server_def get_root_dir_def proc_defs
          split: if_splits prod.splits)
    from interop_rest_end [OF this] c show ?thesis by blast
  qed
qed

text \<open>Processes in which everything works; the world counts the calls.\<close>

definition sample_processes :: "bool \<Rightarrow> nat processes" where
  "sample_processes ok c w =
     (Ok (case c of Current_dir \<Rightarrow> P_dir [''repo'', ''tests''] | Output cmd \<Rightarrow> P_exit (ok \<or> cm_program cmd = ''cargo'') | Spawn cmd \<Rightarrow> P_child 7 | _ \<Rightarrow> P_none), w + 1)"

lemmas dotnet_defs = dotnet_server_def rust_server_def run_dotnet_server_def run_rust_server_def get_root_dir_def interop_rest_def
  invoke_dotnet_client_def invoke_rust_client_def proc_defs

theorem dotnet_tests_end_witness:
  "\<exists>cmd rest w'. dotnet_server (sample_processes True) 0 = (Current_dir # Spawn cmd # rest, Return (Ok ()), w') \<and>
     (\<exists>d h. interop_end d h rest (Return (Ok ())))"
proof -
  obtain cmd rest w' where r: "dotnet_server (sample_processes True) 0 = (Current_dir # Spawn cmd # rest, Return (Ok ()), w')"
    by (simp add: dotnet_defs sample_processes_def numeral_eq_Suc)
  with dotnet_tests_end [of True "sample_processes True" 0 _ "Return (Ok ())" w' cmd rest] show ?thesis by auto
qed

lemma client_loop_fails:
  assumes "\<And>w. lib (client_run d) w = (Ok (P_exit False), f w)"
  shows "\<exists>w'. client_loop lib d n w = (retries d n, Return (Ok False), w')"
proof (induction n arbitrary: w)
  case (Suc n)
  obtain q w2 where s: "lib (Sleep_secs 1) (f w) = (q, w2)" by fastforce
  from Suc.IH [of w2] obtain w' where "client_loop lib d n w2 = (retries d n, Return (Ok False), w')" ..
  with assms s show ?case by (simp add: invoke_dotnet_client_def proc_defs retries_Suc)
qed (simp add: retries_def pret_def)

text \<open>
  A test whose client never succeeds panics before it has killed its server; the child goes on running, since dropping a \<open>Child\<close> does not end it.
\<close>

theorem server_left_running:
  "\<exists>cs m w'. rust_server (sample_processes False) 0 = (cs, Panic m, w') \<and> Spawn (rust_example_command ''server'') \<in> set cs \<and> \<not> list_ex is_kill cs"
proof -
  have "sample_processes False (client_run d) w = (Ok (P_exit False), Suc w)" for d w
    by (simp add: sample_processes_def dotnet_client_command_def)
  from client_loop_fails [of "sample_processes False" "[''repo'']", OF this, of 30 3] obtain w' where
    "client_loop (sample_processes False) [''repo''] 30 3 = (retries [''repo''] 30, Return (Ok False), w')" by blast
  then show ?thesis by (simp add: dotnet_defs sample_processes_def eval_nat_numeral is_kill_def)
qed

end
