(* ===== verification/TestSetup.thy ===== *)
theory TestSetup
  imports BenchServer
begin

text \<open>
  The servers and clients that the integration tests run in the background: \<open>run_test_quinn_hello_server\<close>, its siblings and the
  \<open>run_*_client\<close> functions of \<open>tonic-h3-tests/src/lib.rs\<close>. Each sets its library up, where any failure is a panic, and spawns a
  task: that of a server awaits the serving and then tears down, that of a client awaits its token.
\<close>

section \<open>TLS and endpoints\<close>

abbreviation must :: "('h, 'e, 'w) setup_env \<Rightarrow> string \<Rightarrow> 'h libcall \<Rightarrow> ('h, 'e, 'w, 'h) setup_proc" where
  "must env msg c \<equiv> expecting msg (try_call env c)"

definition test_cert_rustls :: "('h, 'e, 'w) setup_env \<Rightarrow> string list \<Rightarrow> ('h, 'e, 'w, 'h \<times> 'h) setup_proc" where
  "test_cert_rustls env subject_alt_names =
     andthen (must env ''generate_simple_self_signed'' (Generate_self_signed subject_alt_names)) (\<lambda>pair.
     andthen (must env ''from_pem'' (Private_key_from_pem (se_key env pair))) (\<lambda>key.
     pret (se_cert env pair, key)))"

definition make_rustls_server_config :: "('h, 'e, 'w) setup_env \<Rightarrow> ('h, 'e, 'w, 'h ServerConfig) setup_proc" where
  "make_rustls_server_config env =
     andthen (test_cert_rustls env [''localhost'']) (\<lambda>ck.
     andthen (must env ''with_safe_default_protocol_versions'' Safe_default_versions) (\<lambda>_.
     andthen (must env ''with_single_cert'' (Single_cert [fst ck] (snd ck))) (\<lambda>_.
     pret \<lparr>sc_certs = [fst ck], sc_key = snd ck, sc_alpn = [''h3''], sc_max_early_data_size = - 1\<rparr>)))"

definition make_danger_rustls_client_config :: "('h, 'e, 'w) setup_env \<Rightarrow> ('h, 'e, 'w, ClientConfig) setup_proc" where
  "make_danger_rustls_client_config env =
     andthen (must env ''with_safe_default_protocol_versions'' Safe_default_versions) (\<lambda>_.
     pret \<lparr>cl_no_verification = True, cl_enable_early_data = True, cl_alpn = [''h3'']\<rparr>)"

text \<open>The verifier in \<open>mod danger\<close> of the tests, a copy of the one in \<open>tls.rs\<close>.\<close>

definition test_verify_server_cert :: "'a NoCertificateVerification \<Rightarrow> 'h \<Rightarrow> 'h list \<Rightarrow> string \<Rightarrow> bytes \<Rightarrow> nat \<Rightarrow> 'e + unit" where
  "test_verify_server_cert v end_entity intermediates server_name ocsp now = Ok ()"

definition test_verify_signature ::
  "(tls_version \<Rightarrow> bytes \<Rightarrow> 'h \<Rightarrow> 'd \<Rightarrow> 'a \<Rightarrow> 'e + unit) \<Rightarrow> 'a NoCertificateVerification \<Rightarrow> tls_version \<Rightarrow> bytes \<Rightarrow> 'h \<Rightarrow> 'd \<Rightarrow> 'e + unit" where
  "test_verify_signature rustls v ver message cert dss = rustls ver message cert dss (signature_verification_algorithms v)"

definition test_supported_verify_schemes :: "('a \<Rightarrow> 's list) \<Rightarrow> 'a NoCertificateVerification \<Rightarrow> 's list" where
  "test_supported_verify_schemes supported_schemes v = supported_schemes (signature_verification_algorithms v)"

text \<open>The tests configure TLS as the benchmark does for HTTP/3.\<close>

lemma test_tls_as_bench:
  "make_rustls_server_config env = make_server_config env [''h3'']"
  "make_danger_rustls_client_config env = make_danger_client_config env [''h3'']"
  "test_verify_server_cert = verify_server_cert" "test_verify_signature = verify_signature"
  "test_supported_verify_schemes = supported_verify_schemes"
  by (simp_all add: make_rustls_server_config_def make_server_config_def test_cert_rustls_def make_test_cert_rustls_def
      make_danger_rustls_client_config_def make_danger_client_config_def fun_eq_iff test_verify_server_cert_def verify_server_cert_def
      test_verify_signature_def verify_signature_def test_supported_verify_schemes_def supported_verify_schemes_def)

definition make_quinn_server_endpoint :: "('h, 'e, 'w) setup_env \<Rightarrow> 'h \<Rightarrow> ('h, 'e, 'w, 'h) setup_proc" where
  "make_quinn_server_endpoint env in_addr =
     andthen (make_rustls_server_config env) (\<lambda>tls_config.
     andthen (must env ''QuicServerConfig::try_from'' (Quic_server_crypto tls_config)) (\<lambda>server_config.
     must env ''Endpoint::server'' (Quinn_server server_config in_addr)))"

definition make_test_quinn_client_endpoint :: "('h, 'e, 'w) setup_env \<Rightarrow> ('h, 'e, 'w, 'h) setup_proc" where
  "make_test_quinn_client_endpoint env =
     andthen (make_danger_rustls_client_config env) (\<lambda>tls_config.
     andthen (must env ''Endpoint::client'' (Quinn_client ''[::]:0'')) (\<lambda>client_endpoint.
     andthen (must env ''QuicClientConfig::try_from'' (Quic_client_crypto tls_config)) (\<lambda>client_config.
     andthen (do_call env (Set_client_config client_endpoint client_config)) (\<lambda>_. pret client_endpoint))))"

text \<open>
  Two clients that give a handshake up after two seconds: \<open>make_short_idle_quinn_client_endpoint\<close> of \<open>failover.rs\<close> and
  \<open>make_strict_quinn_client_endpoint\<close> of \<open>cert_error.rs\<close>, which trusts no root certificate.
\<close>

definition idle_quinn_endpoint :: "('h, 'e, 'w) setup_env \<Rightarrow> ClientConfig \<Rightarrow> ('h, 'e, 'w, 'h) setup_proc" where
  "idle_quinn_endpoint env tls_config =
     andthen (must env ''Endpoint::client'' (Quinn_client ''[::]:0'')) (\<lambda>client_endpoint.
     andthen (must env ''QuicClientConfig::try_from'' (Quic_client_crypto tls_config)) (\<lambda>client_config.
     andthen (must env ''IdleTimeout::try_from'' (Max_idle_timeout client_config 2)) (\<lambda>client_config'.
     andthen (do_call env (Set_client_config client_endpoint client_config')) (\<lambda>_. pret client_endpoint))))"

definition make_short_idle_quinn_client_endpoint :: "('h, 'e, 'w) setup_env \<Rightarrow> ('h, 'e, 'w, 'h) setup_proc" where
  "make_short_idle_quinn_client_endpoint env = andthen (make_danger_rustls_client_config env) (idle_quinn_endpoint env)"

definition make_strict_quinn_client_endpoint :: "('h, 'e, 'w) setup_env \<Rightarrow> ('h, 'e, 'w, 'h) setup_proc" where
  "make_strict_quinn_client_endpoint env =
     andthen (must env ''with_safe_default_protocol_versions'' Safe_default_versions) (\<lambda>_.
     idle_quinn_endpoint env \<lparr>cl_no_verification = False, cl_enable_early_data = False, cl_alpn = [''h3'']\<rparr>)"

definition make_test_s2n_client_endpoint :: "('h, 'e, 'w) setup_env \<Rightarrow> ('h, 'e, 'w, 'h) setup_proc" where
  "make_test_s2n_client_endpoint env =
     andthen (make_danger_rustls_client_config env) (\<lambda>tls_config.
     andthen (must env ''with_tls'' (S2n_client_tls tls_config)) (\<lambda>b.
     andthen (must env ''with_io'' (S2n_client_io b ''0.0.0.0:0'')) (\<lambda>b'.
     must env ''start'' (S2n_start b'))))"

definition make_test_msquic_client_parts :: "('h, 'e, 'w) setup_env \<Rightarrow> ('h, 'e, 'w, 'h \<times> 'h) setup_proc" where
  "make_test_msquic_client_parts env =
     andthen (must env ''Registration::new'' (Registration_new ''testapp_client'')) (\<lambda>reg.
     andthen (must env ''open_configuration''
       (Open_configuration reg [''h3''] \<lparr>ms_bidi = 10, ms_unidi = 10, ms_idle_ms = 1000\<rparr>)) (\<lambda>client_config.
     andthen (must env ''load_credential'' (Load_client_credential client_config)) (\<lambda>_.
     pret (reg, client_config))))"

section \<open>Servers\<close>

text \<open>
  A server that was set up: its acceptor, which the spawned serving task owns, what its supervising task does after that has ended,
  and the address it is bound to.
\<close>

record 'h test_server =
  tv_acceptor :: "'h acceptor"
  tv_teardown :: "'h libcall list"
  tv_addr :: 'h

definition run_test_quinn_hello_server :: "('h, 'e, 'w) setup_env \<Rightarrow> 'h \<Rightarrow> ('h, 'e, 'w, 'h test_server) setup_proc" where
  "run_test_quinn_hello_server env in_addr =
     andthen (make_quinn_server_endpoint env in_addr) (\<lambda>endpoint.
     andthen (must env ''local_addr'' (Local_addr endpoint)) (\<lambda>listen_addr.
     pret \<lparr>tv_acceptor = Quinn_acceptor endpoint,
       tv_teardown = [Endpoint_close endpoint (Var_code 0) ''svr shutdown'', Endpoint_wait_idle endpoint],
       tv_addr = listen_addr\<rparr>))"

definition run_test_s2n_server :: "('h, 'e, 'w) setup_env \<Rightarrow> 'h \<Rightarrow> ('h, 'e, 'w, 'h test_server) setup_proc" where
  "run_test_s2n_server env in_addr =
     andthen (make_rustls_server_config env) (\<lambda>tls.
     andthen (must env ''with_tls'' (S2n_server_tls tls)) (\<lambda>b.
     andthen (must env ''with_io'' (S2n_with_io b in_addr)) (\<lambda>b'.
     andthen (must env ''start'' (S2n_start b')) (\<lambda>server.
     andthen (must env ''local_addr'' (Local_addr server)) (\<lambda>listen_addr.
     pret \<lparr>tv_acceptor = S2n_acceptor server, tv_teardown = [], tv_addr = listen_addr\<rparr>)))))"

definition run_test_quiche_server :: "('h, 'e, 'w) setup_env \<Rightarrow> 'h \<Rightarrow> ('h, 'e, 'w, 'h test_server) setup_proc" where
  "run_test_quiche_server env in_addr =
     andthen (cert_files env ''test_quiche'' True) (\<lambda>paths.
     andthen (must env ''bind udp socket'' (Udp_bind in_addr)) (\<lambda>std_socket.
     andthen (must env ''local_addr'' (Local_addr std_socket)) (\<lambda>listen_addr.
     andthen (must env ''set_nonblocking'' (Set_nonblocking std_socket)) (\<lambda>_.
     andthen (must env ''udp socket from_std'' (Udp_from_std std_socket)) (\<lambda>socket.
     andthen (must env ''failed to bind quiche acceptor'' (Quiche_acceptor_new socket (fst paths) (snd paths))) (\<lambda>acceptor.
     pret \<lparr>tv_acceptor = Quiche_acceptor acceptor,
       tv_teardown = [Endpoint_close acceptor (H3_code H3_NO_ERROR) ''svr shutdown'', Endpoint_wait_idle acceptor],
       tv_addr = listen_addr\<rparr>))))))"

text \<open>\<open>get_test_cred\<close> under its lock, and the loop that opens the listener; both panic where the benchmark returns an error.\<close>

definition test_store_cred :: "('h, 'e, 'w) setup_env \<Rightarrow> ('h, 'e, 'w, 'h) setup_proc" where
  "test_store_cred env w =
     (case get_test_cred_internal (se_cred env) w of
        (Return h, w') \<Rightarrow> ([], Return (Ok h), w')
      | (Panic m, w') \<Rightarrow> ([], Panic m, w'))"

definition get_test_cred :: "('h, 'e, 'w) setup_env \<Rightarrow> ('h, 'e, 'w, 'h) setup_proc" where
  "get_test_cred env = (if se_windows env then test_store_cred env else file_cred env ''msquic'')"

definition test_listener_loop ::
  "('h, 'e, 'w) setup_env \<Rightarrow> 'h \<Rightarrow> 'h \<Rightarrow> string list \<Rightarrow> 'h \<Rightarrow> ('h, 'e, 'w, 'h) setup_proc" where
  "test_listener_loop env reg config alpn addr w =
     (let c = Listener_new reg config alpn addr in
      case listener_loop (se_lib env c) (se_status env) (se_in_use env) 0 w of
        (Return l, n, w') \<Rightarrow> (replicate n c, Return (Ok l), w')
      | (Panic m, n, w') \<Rightarrow> (replicate n c, Panic m, w'))"

definition run_test_msquic_server :: "('h, 'e, 'w) setup_env \<Rightarrow> 'h \<Rightarrow> ('h, 'e, 'w, 'h test_server) setup_proc" where
  "run_test_msquic_server env in_addr =
     andthen (get_test_cred env) (\<lambda>cred.
     andthen (must env ''Registration::new'' (Registration_new ''testapp_server'')) (\<lambda>reg.
     andthen (must env ''open_configuration''
       (Open_configuration reg [''h3''] \<lparr>ms_bidi = 10, ms_unidi = 10, ms_idle_ms = 1000\<rparr>)) (\<lambda>config.
     andthen (must env ''load_credential'' (Load_server_credential config cred)) (\<lambda>_.
     andthen (test_listener_loop env reg config [''h3''] in_addr) (\<lambda>l.
     andthen (must env ''get_local_addr'' (Listener_addr l)) (\<lambda>a.
     andthen (expecting ''as_socket'' (presult (case se_socket env a of None \<Rightarrow> Err () | Some s \<Rightarrow> Ok s))) (\<lambda>local_addr.
     pret \<lparr>tv_acceptor = Msquic_acceptor l,
       tv_teardown = [Acceptor_shutdown l, Reg_shutdown reg, Drop_acceptor l, Reg_wait_idle reg, Drop_config config, Drop_reg reg],
       tv_addr = local_addr\<rparr>)))))))"

definition run_test_server_over :: "('h, 'e, 'w) setup_env \<Rightarrow> Transport \<Rightarrow> 'h \<Rightarrow> ('h, 'e, 'w, 'h test_server) setup_proc" where
  "run_test_server_over env t in_addr =
     (case t of
        S2nQuic \<Rightarrow> run_test_s2n_server env in_addr
      | Quiche \<Rightarrow> run_test_quiche_server env in_addr
      | Msquic \<Rightarrow> run_test_msquic_server env in_addr
      | _ \<Rightarrow> run_test_quinn_hello_server env in_addr)"

text \<open>
  \<open>join acceptor\<close> is the handle of \<open>run_test_server\<close>, awaited: a panic of the serving task, its error, or its end.
\<close>

definition await_server where
  "await_server join acceptor w =
     (case join acceptor w of
        (Panic m, w') \<Rightarrow> ([Serve acceptor], Panic ''cannot join'', w')
      | (Return (Err e), w') \<Rightarrow> ([Serve acceptor], Panic ''tonic server failed'', w')
      | (Return (Ok u), w') \<Rightarrow> ([Serve acceptor], Return (Ok ()), w'))"

definition server_task ::
  "('h, 'e, 'w) setup_env \<Rightarrow> ('h acceptor \<Rightarrow> 'w \<Rightarrow> ('e + unit) outcome \<times> 'w) \<Rightarrow> 'h test_server \<Rightarrow> ('h, 'e, 'w, unit) setup_proc" where
  "server_task env join srv =
     andthen (await_server join (tv_acceptor srv)) (\<lambda>_. in_order (map (do_call env) (tv_teardown srv)))"

text \<open>
  The axum servers of the tests: \<open>start_axum_server\<close> keeps its endpoint and closes it at the end of a test, \<open>start_server\<close> of
  \<open>cancel_reset.rs\<close> and \<open>start_ok_server\<close> of \<open>goaway_reconnect.rs\<close> give theirs to the acceptor. The task of each unwraps the result of the serving.
\<close>

definition start_axum_server :: "('h, 'e, 'w) setup_env \<Rightarrow> 'h \<Rightarrow> ('h, 'e, 'w, 'h \<times> 'h) setup_proc" where
  "start_axum_server env any_port =
     andthen (make_quinn_server_endpoint env any_port) (\<lambda>endpoint.
     andthen (must env ''local_addr'' (Local_addr endpoint)) (\<lambda>listen_addr. pret (endpoint, listen_addr)))"

definition start_server :: "('h, 'e, 'w) setup_env \<Rightarrow> 'h \<Rightarrow> ('h, 'e, 'w, 'h test_server) setup_proc" where
  "start_server env any_port =
     andthen (make_quinn_server_endpoint env any_port) (\<lambda>ep.
     andthen (must env ''local_addr'' (Local_addr ep)) (\<lambda>listen_addr.
     pret \<lparr>tv_acceptor = Quinn_acceptor ep, tv_teardown = [], tv_addr = listen_addr\<rparr>))"

definition start_ok_server :: "('h, 'e, 'w) setup_env \<Rightarrow> 'h \<Rightarrow> ('h, 'e, 'w, 'h test_server) setup_proc" where
  "start_ok_server env any_port =
     andthen (make_quinn_server_endpoint env any_port) (\<lambda>ep.
     andthen (must env ''local_addr'' (Local_addr ep)) (\<lambda>listen_addr.
     pret \<lparr>tv_acceptor = Quinn_acceptor ep, tv_teardown = [], tv_addr = listen_addr\<rparr>))"

text \<open>
  The server of the documentation: it serves for ever, and only when the serving has ended without an error is the endpoint awaited.
\<close>

definition doc_run_server :: "('h, 'e, 'w) setup_env \<Rightarrow> 'h \<Rightarrow> ('h, 'e, 'w, unit) setup_proc" where
  "doc_run_server env endpoint =
     andthen (try_call env (Serve (Quinn_acceptor endpoint))) (\<lambda>_.
     andthen (do_call env (Endpoint_wait_idle endpoint)) (\<lambda>_. pret ()))"

section \<open>Clients\<close>

text \<open>
  A client that was set up: its channel and what its task does; a result that is unwrapped carries the text of its panic.
\<close>

record 'h test_client =
  tc_channel :: "'h channel"
  tc_stop :: "('h libcall \<times> string option) list"

definition run_quinn_client :: "('h, 'e, 'w) setup_env \<Rightarrow> uri \<Rightarrow> ('h, 'e, 'w, 'h test_client) setup_proc" where
  "run_quinn_client env u =
     andthen (make_test_quinn_client_endpoint env) (\<lambda>client_endpoint.
     pret \<lparr>tc_channel = Quinn_channel u ''localhost'' client_endpoint,
       tc_stop = [(Token_cancelled, None), (Endpoint_close client_endpoint (Var_code 0) ''client close'', None)]\<rparr>)"

text \<open>The host of the URI is the server name; a URI without one is a panic.\<close>

definition run_s2n_client :: "('h, 'e, 'w) setup_env \<Rightarrow> (uri \<Rightarrow> string option) \<Rightarrow> uri \<Rightarrow> ('h, 'e, 'w, 'h test_client) setup_proc" where
  "run_s2n_client env host u =
     andthen (make_test_s2n_client_endpoint env) (\<lambda>s2n_ep.
     andthen (expecting ''uri.host()'' (presult (case host u of None \<Rightarrow> Err () | Some h \<Rightarrow> Ok h))) (\<lambda>name.
     pret \<lparr>tc_channel = S2n_channel u name s2n_ep, 
       tc_stop = [(Token_cancelled, None), (Endpoint_wait_idle s2n_ep, Some ''wait_idle'')]\<rparr>))"

definition run_quiche_client :: "uri \<Rightarrow> ('h, 'e, 'w, 'h test_client) setup_proc" where
  "run_quiche_client u = pret \<lparr>tc_channel = Quiche_channel u ''localhost'' False, tc_stop = [(Token_cancelled, None)]\<rparr>"

definition run_msquic_client :: "('h, 'e, 'w) setup_env \<Rightarrow> uri \<Rightarrow> ('h, 'e, 'w, 'h test_client) setup_proc" where
  "run_msquic_client env u =
     andthen (make_test_msquic_client_parts env) (\<lambda>parts.
     pret \<lparr>tc_channel = Msquic_channel (snd parts) (fst parts) u,
       tc_stop = [(Token_cancelled, None), (Reg_shutdown (fst parts), None), (Reg_wait_idle (fst parts), None), (Drop_reg (fst parts), None)]\<rparr>)"

definition stop_step :: "('h, 'e, 'w) setup_env \<Rightarrow> 'h libcall \<times> string option \<Rightarrow> ('h, 'e, 'w, unit) setup_proc" where
  "stop_step env s = (case s of (c, None) \<Rightarrow> do_call env c | (c, Some msg) \<Rightarrow> andthen (must env msg c) (\<lambda>_. pret ()))"

definition client_task :: "('h, 'e, 'w) setup_env \<Rightarrow> 'h test_client \<Rightarrow> ('h, 'e, 'w, unit) setup_proc" where
  "client_task env c = in_order (map (stop_step env) (tc_stop c))"

section \<open>Results\<close>

lemma pret_ok: "pret x w = (cs, Return (Ok y), w') \<longleftrightarrow> cs = [] \<and> y = x \<and> w' = w"
  by (auto simp: pret_def)

lemma test_server_recipe:
  assumes "run_test_server_over env t in_addr w = (cs, Return (Ok srv), w')"
  shows "teardown_recipe ''svr shutdown'' (Serve (tv_acceptor srv)) (tv_teardown srv)"
  using assms
  by (cases t)
    (auto simp: run_test_server_over_def run_test_quinn_hello_server_def run_test_s2n_server_def run_test_quiche_server_def
      run_test_msquic_server_def teardown_recipe_def pret_ok elim!: andthen_okE)

text \<open>
  A test server is torn down exactly when it ended well. Whatever transport it was set up for, its task makes the calls of the
  recipe of that transport after the serving has ended, in their order, and ends; when the serving task has panicked
  or returned an error, it panics at once and none of them is made.
\<close>

theorem test_server_teardown:
  assumes "run_test_server_over env t in_addr w = (cs, Return (Ok srv), w1)"
  shows "case fst (join (tv_acceptor srv) w2) of
      Return (Ok u) \<Rightarrow> (\<exists>post w'. server_task env join srv w2 = (Serve (tv_acceptor srv) # post, Return (Ok ()), w') \<and>
        teardown_recipe ''svr shutdown'' (Serve (tv_acceptor srv)) post)
    | _ \<Rightarrow> (\<exists>m w'. server_task env join srv w2 = ([Serve (tv_acceptor srv)], Panic m, w'))"
proof -
  obtain r w3 where j: "join (tv_acceptor srv) w2 = (r, w3)" by fastforce
  obtain w' where t: "in_order (map (do_call env) (tv_teardown srv)) w3 = (tv_teardown srv, Return (Ok ()), w')"
    using in_order_performs [of "se_lib env" "tv_teardown srv" w3] by blast
  from test_server_recipe [OF assms] j t show ?thesis
    by (auto simp: server_task_def await_server_def andthen_def split: outcome.splits sum.splits)
qed

theorem test_server_teardown_witness:
  "\<exists>cs srv w1 w'. run_test_server_over sample_setup Quinn 7 0 = (cs, Return (Ok srv), w1) \<and>
     server_task sample_setup (\<lambda>a w. (Return (Ok ()), w)) srv 9 =
       ([Serve (Quinn_acceptor 5), Endpoint_close 5 (Var_code 0) ''svr shutdown'', Endpoint_wait_idle 5], Return (Ok ()), w')"
proof -
  obtain cs srv w1 where r: "run_test_server_over sample_setup Quinn 7 0 = (cs, Return (Ok srv), w1)"
    and a: "tv_acceptor srv = Quinn_acceptor 5"
    by (auto simp: run_test_server_over_def run_test_quinn_hello_server_def make_quinn_server_endpoint_def
        make_rustls_server_config_def test_cert_rustls_def proc_defs sample_setup_def is_serve_def)
  from test_server_teardown [OF r, of "\<lambda>a w. (Return (Ok ()), w)" 9] r show ?thesis
    by (auto simp: a teardown_recipe_def)
qed

end
