(* ===== verification/Stages.thy ===== *)
theory Stages
  imports TestSetup
begin

text \<open>
  The tests of the client from their first line to their last: the server and the client that \<open>buffered_reconnect.rs\<close>, \<open>uri_boundary.rs\<close>,
  \<open>cert_error.rs\<close>, \<open>cancel_reset.rs\<close> and \<open>goaway_reconnect.rs\<close> set up around their requests, and how they end. The requests and the assertions on
  them are one call, \<open>Scenario\<close>; what they do is in theories \<open>ClientScenarios\<close>, \<open>GoawayTest\<close>, \<open>StreamErrors\<close> and \<open>UploadTests\<close>.
\<close>

section \<open>Calls\<close>

text \<open>
  A scenario is played with a client of a channel, buffered (\<open>H3Channel\<close>) or not (\<open>H3Connection\<close>), for a base URI, over the connector itself or one of the
  test connectors around it. \<open>Join_server None\<close> awaits the server, \<open>Join_server (Some n)\<close> for at most \<open>n\<close> seconds.
\<close>

datatype wrapper = Plain | Fail_once | Counting

datatype 'h scall =
    Lib "'h libcall"
  | Sleep_secs nat
  | Goaway_server 'h
  | Scenario wrapper bool uri "'h channel"
  | Cancel_token
  | Join_server "nat option"

text \<open>
  \<open>sg_uri\<close> parses a URI, \<open>sg_addr\<close> prints an address and \<open>sg_port\<close> its port, \<open>sg_wait\<close> sleeps, spawns, cancels and joins, and \<open>sg_play\<close> plays a scenario.
\<close>

record ('h, 'e, 'w) stage =
  sg_env :: "('h, 'e, 'w) setup_env"
  sg_uri :: "string \<Rightarrow> uri option"
  sg_addr :: "'h \<Rightarrow> string"
  sg_port :: "'h \<Rightarrow> string"
  sg_wait :: "'h scall \<Rightarrow> 'w \<Rightarrow> ('e + unit) \<times> 'w"
  sg_play :: "'h scall \<Rightarrow> 'w \<Rightarrow> ('e + unit) outcome \<times> 'w"

type_synonym ('h, 'e, 'w, 'a) stage_proc = "('h scall, 'w, 'e, 'a) proc"

definition lifted :: "('h, 'e, 'w, 'a) setup_proc \<Rightarrow> ('h, 'e, 'w, 'a) stage_proc" where
  "lifted m w = (case m w of (cs, r, w') \<Rightarrow> (map Lib cs, r, w'))"

definition parsed :: "('h, 'e, 'w) stage \<Rightarrow> string \<Rightarrow> ('h, 'e, 'w, uri) stage_proc" where
  "parsed st s = (case sg_uri st s of None \<Rightarrow> ppanic ''parse'' | Some u \<Rightarrow> pret u)"

definition assert_that :: "bool \<Rightarrow> string \<Rightarrow> ('h, 'e, 'w, unit) stage_proc" where
  "assert_that b msg = (if b then pret () else ppanic msg)"

section \<open>Ends\<close>

definition cancel_and_join :: "('h, 'e, 'w) stage \<Rightarrow> ('h, 'e, 'w, unit) stage_proc" where
  "cancel_and_join st =
     andthen (perform (sg_wait st) Cancel_token) (\<lambda>_. expecting ''unwrap'' (invoke (sg_wait st) (Join_server None)))"

text \<open>\<open>TestServer::shutdown\<close> of \<open>cancel_reset.rs\<close> and \<open>OkServer::shutdown\<close> of \<open>goaway_reconnect.rs\<close>; the result of the join is dropped.\<close>

definition TestServer_shutdown :: "('h, 'e, 'w) stage \<Rightarrow> ('h, 'e, 'w, unit) stage_proc" where
  "TestServer_shutdown st = andthen (perform (sg_wait st) Cancel_token) (\<lambda>_. perform (sg_wait st) (Join_server (Some 2)))"

definition OkServer_shutdown :: "('h, 'e, 'w) stage \<Rightarrow> ('h, 'e, 'w, unit) stage_proc" where
  "OkServer_shutdown st = andthen (perform (sg_wait st) Cancel_token) (\<lambda>_. perform (sg_wait st) (Join_server (Some 2)))"

definition close_client :: "('h, 'e, 'w) stage \<Rightarrow> 'h \<Rightarrow> ('h, 'e, 'w, unit) stage_proc" where
  "close_client st ep = lifted (do_call (sg_env st) (Endpoint_close ep (Var_code 0) ''client close''))"

definition idle_client :: "('h, 'e, 'w) stage \<Rightarrow> 'h \<Rightarrow> ('h, 'e, 'w, unit) stage_proc" where
  "idle_client st ep = lifted (do_call (sg_env st) (Endpoint_wait_idle ep))"

section \<open>Tests against the greeter\<close>

definition hello_server :: "('h, 'e, 'w) stage \<Rightarrow> 'h \<Rightarrow> ('h, 'e, 'w, 'h) stage_proc" where
  "hello_server st any_port =
     andthen (lifted (run_test_quinn_hello_server (sg_env st) any_port)) (\<lambda>srv. pret (tv_addr srv))"

definition localhost_uri :: "('h, 'e, 'w) stage \<Rightarrow> 'h \<Rightarrow> ('h, 'e, 'w, uri) stage_proc" where
  "localhost_uri st listen_addr = parsed st (''https://localhost:'' @ sg_port st listen_addr)"

definition transient_failure_stage :: "('h, 'e, 'w) stage \<Rightarrow> bool \<Rightarrow> 'h \<Rightarrow> ('h, 'e, 'w, unit) stage_proc" where
  "transient_failure_stage st buffered any_port =
     andthen (hello_server st any_port) (\<lambda>listen_addr.
     andthen (perform (sg_wait st) (Sleep_secs 1)) (\<lambda>_.
     andthen (localhost_uri st listen_addr) (\<lambda>u.
     andthen (lifted (make_test_quinn_client_endpoint (sg_env st))) (\<lambda>client_endpoint.
     andthen (calling (sg_play st) (Scenario Fail_once buffered u (Quinn_channel u ''localhost'' client_endpoint))) (\<lambda>_.
     andthen (close_client st client_endpoint) (\<lambda>_.
     cancel_and_join st))))))"

definition quinn_buffered_channel_survives_transient_failure :: "('h, 'e, 'w) stage \<Rightarrow> 'h \<Rightarrow> ('h, 'e, 'w, unit) stage_proc" where
  "quinn_buffered_channel_survives_transient_failure st = transient_failure_stage st True"

definition quinn_non_buffered_survives_transient_failure :: "('h, 'e, 'w) stage \<Rightarrow> 'h \<Rightarrow> ('h, 'e, 'w, unit) stage_proc" where
  "quinn_non_buffered_survives_transient_failure st = transient_failure_stage st False"

text \<open>The test of certificates does not wait for its server, and its client verifies them.\<close>

definition quinn_cert_error_no_panic :: "('h, 'e, 'w) stage \<Rightarrow> 'h \<Rightarrow> ('h, 'e, 'w, unit) stage_proc" where
  "quinn_cert_error_no_panic st any_port =
     andthen (hello_server st any_port) (\<lambda>listen_addr.
     andthen (lifted (make_strict_quinn_client_endpoint (sg_env st))) (\<lambda>strict_client_endpoint.
     andthen (localhost_uri st listen_addr) (\<lambda>u.
     andthen (calling (sg_play st) (Scenario Plain True u (Quinn_channel u ''localhost'' strict_client_endpoint))) (\<lambda>_.
     andthen (close_client st strict_client_endpoint) (\<lambda>_.
     cancel_and_join st)))))"

text \<open>
  The tests of \<open>uri_boundary.rs\<close>, whose clients are made by \<open>make_client\<close> and never closed. \<open>tested port\<close> is the text of the URI that is tested,
  \<open>is_base\<close> says whether it is the base URI; \<open>check\<close> are the assertions on it.
\<close>

definition uri_stage ::
  "('h, 'e, 'w) stage \<Rightarrow> (string \<Rightarrow> string) \<Rightarrow> bool \<Rightarrow> (uri \<Rightarrow> ('h, 'e, 'w, unit) stage_proc) \<Rightarrow> 'h \<Rightarrow> ('h, 'e, 'w, unit) stage_proc" where
  "uri_stage st tested is_base check any_port =
     andthen (hello_server st any_port) (\<lambda>listen_addr.
     andthen (perform (sg_wait st) (Sleep_secs 1)) (\<lambda>_.
     andthen (localhost_uri st listen_addr) (\<lambda>server_uri.
     andthen (parsed st (tested (sg_port st listen_addr))) (\<lambda>u.
     andthen (check u) (\<lambda>_.
     andthen (lifted (make_test_quinn_client_endpoint (sg_env st))) (\<lambda>client_endpoint.
     andthen (calling (sg_play st)
       (Scenario Plain False (if is_base then u else server_uri) (Quinn_channel server_uri ''localhost'' client_endpoint))) (\<lambda>_.
     cancel_and_join st)))))))"

definition quinn_base_uri_missing_scheme_no_panic :: "('h, 'e, 'w) stage \<Rightarrow> 'h \<Rightarrow> ('h, 'e, 'w, unit) stage_proc" where
  "quinn_base_uri_missing_scheme_no_panic st =
     uri_stage st (\<lambda>port. ''localhost:'' @ port) True (\<lambda>base_uri.
       andthen (assert_that (uri_scheme base_uri = None) ''test setup: base must lack scheme'') (\<lambda>_.
       assert_that (uri_authority base_uri \<noteq> None) ''test setup: base should carry an authority''))"

definition quinn_base_uri_missing_authority_no_panic :: "('h, 'e, 'w) stage \<Rightarrow> 'h \<Rightarrow> ('h, 'e, 'w, unit) stage_proc" where
  "quinn_base_uri_missing_authority_no_panic st =
     uri_stage st (\<lambda>port. ''/some/path'') True (\<lambda>base_uri.
       assert_that (uri_authority base_uri = None) ''test setup: base must lack authority'')"

text \<open>
  Here the client is made before the URI of the request is parsed.
\<close>

definition quinn_request_uri_missing_path_defaults_to_root :: "('h, 'e, 'w) stage \<Rightarrow> 'h \<Rightarrow> ('h, 'e, 'w, unit) stage_proc" where
  "quinn_request_uri_missing_path_defaults_to_root st any_port =
     andthen (hello_server st any_port) (\<lambda>listen_addr.
     andthen (perform (sg_wait st) (Sleep_secs 1)) (\<lambda>_.
     andthen (localhost_uri st listen_addr) (\<lambda>server_uri.
     andthen (lifted (make_test_quinn_client_endpoint (sg_env st))) (\<lambda>client_endpoint.
     andthen (parsed st (''localhost:'' @ sg_port st listen_addr)) (\<lambda>req_uri.
     andthen (assert_that (uri_path_and_query req_uri = None) ''test setup: request URI must lack path_and_query'') (\<lambda>_.
     andthen (calling (sg_play st) (Scenario Plain False server_uri (Quinn_channel server_uri ''localhost'' client_endpoint))) (\<lambda>_.
     cancel_and_join st)))))))"

section \<open>Tests against the axum servers\<close>

text \<open>The macros \<open>make_client\<close> of \<open>cancel_reset.rs\<close> and \<open>make_counting_client\<close> of \<open>goaway_reconnect.rs\<close>.\<close>

definition make_upload_client :: "('h, 'e, 'w) stage \<Rightarrow> 'h \<Rightarrow> ('h, 'e, 'w, 'h \<times> 'h scall) stage_proc" where
  "make_upload_client st listen_addr =
     andthen (parsed st (''https://'' @ sg_addr st listen_addr)) (\<lambda>u.
     andthen (lifted (make_test_quinn_client_endpoint (sg_env st))) (\<lambda>client_endpoint.
     pret (client_endpoint, Scenario Plain False u (Quinn_channel u ''localhost'' client_endpoint))))"

definition make_counting_client :: "('h, 'e, 'w) stage \<Rightarrow> 'h \<Rightarrow> ('h, 'e, 'w, 'h \<times> 'h scall) stage_proc" where
  "make_counting_client st listen_addr =
     andthen (parsed st (''https://'' @ sg_addr st listen_addr)) (\<lambda>u.
     andthen (lifted (make_test_quinn_client_endpoint (sg_env st))) (\<lambda>client_endpoint.
     pret (client_endpoint, Scenario Counting False u (Quinn_channel u ''localhost'' client_endpoint))))"

text \<open>The three tests of \<open>cancel_reset.rs\<close> differ in the scenario only.\<close>

definition upload_stage :: "('h, 'e, 'w) stage \<Rightarrow> 'h \<Rightarrow> ('h, 'e, 'w, unit) stage_proc" where
  "upload_stage st any_port =
     andthen (lifted (start_server (sg_env st) any_port)) (\<lambda>server.
     andthen (perform (sg_wait st) (Sleep_secs 1)) (\<lambda>_.
     andthen (make_upload_client st (tv_addr server)) (\<lambda>(client_endpoint, scenario).
     andthen (calling (sg_play st) scenario) (\<lambda>_.
     andthen (idle_client st client_endpoint) (\<lambda>_.
     TestServer_shutdown st)))))"

definition body_error_stage :: "('h, 'e, 'w) stage \<Rightarrow> 'h \<Rightarrow> ('h, 'e, 'w, unit) stage_proc" where
  "body_error_stage st = upload_stage st"

definition cancel_stage :: "('h, 'e, 'w) stage \<Rightarrow> 'h \<Rightarrow> ('h, 'e, 'w, unit) stage_proc" where
  "cancel_stage st = upload_stage st"

definition normal_upload_stage :: "('h, 'e, 'w) stage \<Rightarrow> 'h \<Rightarrow> ('h, 'e, 'w, unit) stage_proc" where
  "normal_upload_stage st = upload_stage st"

definition quinn_stream_error_does_not_reconnect :: "('h, 'e, 'w) stage \<Rightarrow> 'h \<Rightarrow> ('h, 'e, 'w, unit) stage_proc" where
  "quinn_stream_error_does_not_reconnect st any_port =
     andthen (lifted (start_ok_server (sg_env st) any_port)) (\<lambda>server.
     andthen (perform (sg_wait st) (Sleep_secs 1)) (\<lambda>_.
     andthen (make_counting_client st (tv_addr server)) (\<lambda>(client_endpoint, scenario).
     andthen (calling (sg_play st) scenario) (\<lambda>_.
     andthen (close_client st client_endpoint) (\<lambda>_.
     OkServer_shutdown st)))))"

text \<open>The GOAWAY test spawns its server itself, and drops the result of joining it.\<close>

definition goaway_stage :: "('h, 'e, 'w) stage \<Rightarrow> 'h \<Rightarrow> ('h, 'e, 'w, unit) stage_proc" where
  "goaway_stage st any_port =
     andthen (lifted (make_quinn_server_endpoint (sg_env st) any_port)) (\<lambda>endpoint.
     andthen (lifted (must (sg_env st) ''local_addr'' (Local_addr endpoint))) (\<lambda>listen_addr.
     andthen (perform (sg_wait st) (Goaway_server endpoint)) (\<lambda>_.
     andthen (localhost_uri st listen_addr) (\<lambda>u.
     andthen (lifted (make_test_quinn_client_endpoint (sg_env st))) (\<lambda>client_endpoint.
     andthen (calling (sg_play st) (Scenario Counting False u (Quinn_channel u ''localhost'' client_endpoint))) (\<lambda>_.
     andthen (close_client st client_endpoint) (\<lambda>_.
     andthen (perform (sg_wait st) Cancel_token) (\<lambda>_.
     perform (sg_wait st) (Join_server None)))))))))"

section \<open>What every test does\<close>

text \<open>
  The calls that belong to the test rather than to its set-up, the endpoint of the client of a scenario, and the four ways a test ends.
\<close>

fun is_scenario :: "'h scall \<Rightarrow> bool" where
  "is_scenario (Scenario wr buffered u ch) = True"
| "is_scenario _ = False"

fun staging :: "'h scall \<Rightarrow> bool" where
  "staging (Scenario wr buffered u ch) = True"
| "staging Cancel_token = True"
| "staging (Join_server t) = True"
| "staging _ = False"

fun close_call :: "'h scall \<Rightarrow> 'h scall list" where
  "close_call (Scenario wr buffered u (Quinn_channel v name ep)) = [Lib (Endpoint_close ep (Var_code 0) ''client close'')]"
| "close_call _ = []"

fun idle_call :: "'h scall \<Rightarrow> 'h scall list" where
  "idle_call (Scenario wr buffered u (Quinn_channel v name ep)) = [Lib (Endpoint_wait_idle ep)]"
| "idle_call _ = []"

text \<open>
  \<open>framed st ending m\<close>: a run of \<open>m\<close> has either failed in its set-up, and then has neither played nor cancelled nor joined anything; or it has played one
  scenario after its set-up. If that has panicked, nothing has followed it. Otherwise exactly the calls of \<open>ending\<close> have followed, in order, and the
  test has passed, unless an unwrapped join has failed.
\<close>

definition join_fails :: "('h, 'e, 'w) stage \<Rightarrow> bool" where
  "join_fails st \<longleftrightarrow> (\<exists>w. isl (fst (sg_wait st (Join_server None) w)))"

definition framed_run :: "('h, 'e, 'w) stage \<Rightarrow> ('h scall \<Rightarrow> 'h scall list) \<Rightarrow> 'h scall list \<Rightarrow> ('e + unit) outcome \<Rightarrow> bool" where
  "framed_run st ending cs out \<longleftrightarrow>
     (\<forall>c \<in> set cs. \<not> staging c) \<and> out \<noteq> Return (Ok ()) \<or>
     (\<exists>pre c post w. cs = pre @ c # post \<and> is_scenario c \<and> (\<forall>d \<in> set pre. \<not> staging d) \<and>
        (if fst (sg_play st c w) = Return (Ok ())
         then post = ending c \<and> (out = Return (Ok ()) \<or> join_fails st \<and> out = Panic ''unwrap'')
         else post = [] \<and> out = fst (sg_play st c w)))"

definition framed :: "('h, 'e, 'w) stage \<Rightarrow> ('h scall \<Rightarrow> 'h scall list) \<Rightarrow> ('h, 'e, 'w, unit) stage_proc \<Rightarrow> bool" where
  "framed st ending m \<longleftrightarrow> (\<forall>w cs out w'. m w = (cs, out, w') \<longrightarrow> framed_run st ending cs out)"

definition closes :: "('h, 'e, 'w) stage \<Rightarrow> 'h scall list \<Rightarrow> ('h, 'e, 'w, unit) stage_proc \<Rightarrow> bool" where
  "closes st post m \<longleftrightarrow> (\<forall>w. \<exists>r w'. m w = (post, r, w') \<and> (r = Return (Ok ()) \<or> join_fails st \<and> r = Panic ''unwrap''))"

lemma closes_perform: "closes st [c] (perform lib c)"
  by (simp add: closes_def perform_def split: prod.split)

lemma closes_andthen: "closes st post m \<Longrightarrow> closes st (c # post) (andthen (perform lib c) (\<lambda>_. m))"
  unfolding closes_def
proof (intro allI)
  fix w assume m: "\<forall>w. \<exists>r w'. m w = (post, r, w') \<and> (r = Return (Ok ()) \<or> join_fails st \<and> r = Panic ''unwrap'')"
  obtain x w1 where "lib c w = (x, w1)" by fastforce
  with m [rule_format, of w1] show "\<exists>r w'. andthen (perform lib c) (\<lambda>_. m) w = (c # post, r, w') \<and>
     (r = Return (Ok ()) \<or> join_fails st \<and> r = Panic ''unwrap'')"
    by (auto simp: andthen_def perform_def)
qed

lemma closes_join: "closes st [Join_server None] (expecting ''unwrap'' (invoke (sg_wait st) (Join_server None)))"
  unfolding closes_def join_fails_def
proof
  fix w
  show "\<exists>r w'. expecting ''unwrap'' (invoke (sg_wait st) (Join_server None)) w = ([Join_server None], r, w') \<and>
     (r = Return (Ok ()) \<or> (\<exists>w. isl (fst (sg_wait st (Join_server None) w))) \<and> r = Panic ''unwrap'')"
    by (cases "sg_wait st (Join_server None) w"; cases "fst (sg_wait st (Join_server None) w)")
      (auto simp: expecting_def invoke_def intro!: exI [of _ w])
qed

text \<open>A call of the library alone, lifted, is a call like the others.\<close>

definition through :: "('h libcall \<Rightarrow> 'w \<Rightarrow> ('e + 'h) \<times> 'w) \<Rightarrow> 'h scall \<Rightarrow> 'w \<Rightarrow> ('e + unit) \<times> 'w" where
  "through lib c w = (case c of Lib l \<Rightarrow> (case lib l w of (r, w') \<Rightarrow> (Ok (), w')) | _ \<Rightarrow> (Ok (), w))"

lemma lifted_perform: "lifted (perform lib l) = perform (through lib) (Lib l)"
  by (auto simp: lifted_def perform_def through_def fun_eq_iff split: prod.splits)

lemma close_ends: "closes st post m \<Longrightarrow>
    closes st (Lib (Endpoint_close ep (Var_code 0) ''client close'') # post) (andthen (close_client st ep) (\<lambda>_. m))"
  "closes st post m \<Longrightarrow> closes st (Lib (Endpoint_wait_idle ep) # post) (andthen (idle_client st ep) (\<lambda>_. m))"
  by (simp_all add: close_client_def idle_client_def lifted_perform closes_andthen)

lemma server_ends: "closes st [Cancel_token, Join_server None] (cancel_and_join st)"
  "closes st [Cancel_token, Join_server None] (andthen (perform (sg_wait st) Cancel_token) (\<lambda>_. perform (sg_wait st) (Join_server None)))"
  "closes st [Cancel_token, Join_server (Some 2)] (TestServer_shutdown st)"
  "closes st [Cancel_token, Join_server (Some 2)] (OkServer_shutdown st)"
  by (simp_all add: cancel_and_join_def TestServer_shutdown_def OkServer_shutdown_def closes_andthen closes_join closes_perform)

lemma framed_run_played:
  assumes "is_scenario c" "if fst (sg_play st c w) = Return (Ok ())
     then post = ending c \<and> (out = Return (Ok ()) \<or> join_fails st \<and> out = Panic ''unwrap'')
     else post = [] \<and> out = fst (sg_play st c w)"
  shows "framed_run st ending (c # post) out"
  unfolding framed_run_def using assms
  by (intro disjI2 exI [of _ "[]"] exI [of _ c] exI [of _ post] exI [of _ w]) simp

lemma framed_play:
  assumes "is_scenario c" "closes st (ending c) m"
  shows "framed st ending (andthen (calling (sg_play st) c) (\<lambda>_. m))"
  unfolding framed_def
proof (intro allI impI)
  fix w cs out w'
  assume a: "andthen (calling (sg_play st) c) (\<lambda>_. m) w = (cs, out, w')"
  obtain r w1 where p: "sg_play st c w = (r, w1)" by fastforce
  obtain r2 w2 where m: "m w1 = (ending c, r2, w2)" "r2 = Return (Ok ()) \<or> join_fails st \<and> r2 = Panic ''unwrap''"
    using assms(2) unfolding closes_def by blast
  have "cs = (if r = Return (Ok ()) then c # ending c else [c])" "out = (if r = Return (Ok ()) then r2 else r)"
    using a p m(1) by (auto simp: andthen_def calling_def split: outcome.splits sum.splits)
  with p m(2) framed_run_played [OF assms(1), of st w _ ending out] show "framed_run st ending cs out" by (auto split: if_splits)
qed

lemma framed_run_prefix:
  assumes q: "\<forall>c \<in> set cs1. \<not> staging c" and f: "framed_run st ending cs2 out"
  shows "framed_run st ending (cs1 @ cs2) out"
proof (cases "(\<forall>c \<in> set cs2. \<not> staging c) \<and> out \<noteq> Return (Ok ())")
  case True
  with q show ?thesis unfolding framed_run_def by auto
next
  case False
  with f obtain pre c post w where *: "cs2 = pre @ c # post" "is_scenario c" "\<forall>d \<in> set pre. \<not> staging d"
    "if fst (sg_play st c w) = Return (Ok ())
     then post = ending c \<and> (out = Return (Ok ()) \<or> join_fails st \<and> out = Panic ''unwrap'')
     else post = [] \<and> out = fst (sg_play st c w)" unfolding framed_run_def by blast
  have "cs1 @ cs2 = (cs1 @ pre) @ c # post" "\<forall>d \<in> set (cs1 @ pre). \<not> staging d" using q * by auto
  with * show ?thesis unfolding framed_run_def by blast
qed

lemma framed_andthen:
  assumes "avoids staging m" "\<And>x. framed st ending (f x)"
  shows "framed st ending (andthen m f)"
  unfolding framed_def
proof (intro allI impI)
  fix w cs out w'
  assume a: "andthen m f w = (cs, out, w')"
  obtain cs1 r w1 where r: "m w = (cs1, r, w1)" by (metis prod_cases3)
  have q: "\<forall>c \<in> set cs1. \<not> staging c" using assms(1) r unfolding avoids_def by (metis fst_conv)
  show "framed_run st ending cs out"
  proof (cases "\<exists>x. r = Return (Ok x)")
    case True
    then obtain x where x: "r = Return (Ok x)" ..
    obtain cs2 where c2: "f x w1 = (cs2, out, w')" "cs = cs1 @ cs2" using a r x by (auto simp: andthen_def split: prod.splits)
    have "framed_run st ending cs2 out" using assms(2) [of x] c2(1) unfolding framed_def by blast
    with framed_run_prefix [OF q] c2(2) show ?thesis by simp
  next
    case False
    with a r q show ?thesis by (auto simp: andthen_def framed_run_def split: outcome.splits sum.splits)
  qed
qed

lemma quiet_parts [simp]:
  "avoids staging (lifted m)" "avoids staging (parsed st s)" "avoids staging (assert_that b msg)" "avoids staging (localhost_uri st a)"
  by (auto simp: avoids_def lifted_def parsed_def assert_that_def localhost_uri_def proc_defs split: prod.splits option.splits)

lemma quiet_server [simp]: "avoids staging (hello_server st a)"
  unfolding hello_server_def by (rule avoids_andthen) simp_all

text \<open>
  Every test cleans up in its order if and only if its scenario has passed. A test that fails in its set-up has neither cancelled nor joined its server; after a scenario that
  panicked nothing is called, and the server is left to the end of the runtime; after one that passed, the client is closed or awaited where the test does so,
  then the token is cancelled and only then is the server joined. The tests of \<open>uri_boundary.rs\<close> do not close their client.
\<close>

theorem tests_end_in_order:
  "framed st (\<lambda>c. close_call c @ [Cancel_token, Join_server None]) (quinn_buffered_channel_survives_transient_failure st a) \<and>
   framed st (\<lambda>c. close_call c @ [Cancel_token, Join_server None]) (quinn_non_buffered_survives_transient_failure st a) \<and>
   framed st (\<lambda>c. close_call c @ [Cancel_token, Join_server None]) (quinn_cert_error_no_panic st a) \<and>
   framed st (\<lambda>c. [Cancel_token, Join_server None]) (quinn_base_uri_missing_scheme_no_panic st a) \<and>
   framed st (\<lambda>c. [Cancel_token, Join_server None]) (quinn_base_uri_missing_authority_no_panic st a) \<and>
   framed st (\<lambda>c. [Cancel_token, Join_server None]) (quinn_request_uri_missing_path_defaults_to_root st a) \<and>
   framed st (\<lambda>c. idle_call c @ [Cancel_token, Join_server (Some 2)]) (body_error_stage st a) \<and>
   framed st (\<lambda>c. idle_call c @ [Cancel_token, Join_server (Some 2)]) (cancel_stage st a) \<and>
   framed st (\<lambda>c. idle_call c @ [Cancel_token, Join_server (Some 2)]) (normal_upload_stage st a) \<and>
   framed st (\<lambda>c. close_call c @ [Cancel_token, Join_server (Some 2)]) (quinn_stream_error_does_not_reconnect st a) \<and>
   framed st (\<lambda>c. close_call c @ [Cancel_token, Join_server None]) (goaway_stage st a)"
proof (intro conjI)
  note parts = framed_andthen framed_play close_ends server_ends avoids_andthen andthen_pret
  show "framed st (\<lambda>c. close_call c @ [Cancel_token, Join_server None]) (quinn_buffered_channel_survives_transient_failure st a)"
    "framed st (\<lambda>c. close_call c @ [Cancel_token, Join_server None]) (quinn_non_buffered_survives_transient_failure st a)"
    unfolding quinn_buffered_channel_survives_transient_failure_def quinn_non_buffered_survives_transient_failure_def transient_failure_stage_def
    by (simp_all add: parts)
  show "framed st (\<lambda>c. close_call c @ [Cancel_token, Join_server None]) (quinn_cert_error_no_panic st a)"
    unfolding quinn_cert_error_no_panic_def by (simp add: parts)
  show "framed st (\<lambda>c. [Cancel_token, Join_server None]) (quinn_base_uri_missing_scheme_no_panic st a)"
    "framed st (\<lambda>c. [Cancel_token, Join_server None]) (quinn_base_uri_missing_authority_no_panic st a)"
    "framed st (\<lambda>c. [Cancel_token, Join_server None]) (quinn_request_uri_missing_path_defaults_to_root st a)"
    unfolding quinn_base_uri_missing_scheme_no_panic_def quinn_base_uri_missing_authority_no_panic_def
      quinn_request_uri_missing_path_defaults_to_root_def uri_stage_def
    by (simp_all add: parts)
  have "framed st (\<lambda>c. idle_call c @ [Cancel_token, Join_server (Some 2)]) (upload_stage st a)"
    unfolding upload_stage_def make_upload_client_def andthen_assoc by (simp add: parts)
  then show "framed st (\<lambda>c. idle_call c @ [Cancel_token, Join_server (Some 2)]) (body_error_stage st a)"
    "framed st (\<lambda>c. idle_call c @ [Cancel_token, Join_server (Some 2)]) (cancel_stage st a)"
    "framed st (\<lambda>c. idle_call c @ [Cancel_token, Join_server (Some 2)]) (normal_upload_stage st a)"
    by (simp_all add: body_error_stage_def cancel_stage_def normal_upload_stage_def)
  show "framed st (\<lambda>c. close_call c @ [Cancel_token, Join_server (Some 2)]) (quinn_stream_error_does_not_reconnect st a)"
    unfolding quinn_stream_error_does_not_reconnect_def make_counting_client_def andthen_assoc by (simp add: parts)
  show "framed st (\<lambda>c. close_call c @ [Cancel_token, Join_server None]) (goaway_stage st a)"
    unfolding goaway_stage_def by (simp add: parts)
qed

end
