(* ===== verification/Greeter.thy ===== *)
theory Greeter
  imports H3Prelude
begin

text \<open>
  \<open>HelloWorldService\<close> of \<open>tonic-h3-tests/src/lib.rs\<close>: the four kinds of gRPC methods. The unary and the server
  streaming methods answer at once; the other two read a stream of requests, which may be pending or fail at any
  message.
\<close>

section \<open>Messages\<close>

record HelloRequest =
  rq_name :: string

record HelloReply =
  rp_message :: string

section \<open>The methods\<close>

definition say_hello :: "HelloRequest \<Rightarrow> 'st + HelloReply" where
  "say_hello req = Ok \<lparr>rp_message = ''hello '' @ rq_name req\<rparr>"

definition say_hello_server_stream :: "HelloRequest \<Rightarrow> 'st + ('st + HelloReply) list" where
  "say_hello_server_stream req =
     (let name = rq_name req in
      Ok [Ok \<lparr>rp_message = ''hello '' @ name @ '' 1''\<rparr>, Ok \<lparr>rp_message = ''hello '' @ name @ '' 2''\<rparr>,
          Ok \<lparr>rp_message = ''hello '' @ name @ '' 3''\<rparr>])"

text \<open>\<open>names.join(", ")\<close>.\<close>

fun join_names :: "string list \<Rightarrow> string" where
  "join_names [] = []"
| "join_names [n] = n"
| "join_names (n # m # ns) = n @ '', '' @ join_names (m # ns)"

text \<open>
  The two reading methods, suspended at \<open>stream.message().await\<close> with what they have collected. \<open>message\<close> polls the
  stream; its error leaves the method through the question mark operator.
\<close>

partial_function (option) client_stream_poll ::
  "('s \<Rightarrow> ('st + HelloRequest option) poll \<times> 's) \<Rightarrow> 's \<Rightarrow> string list \<Rightarrow>
   (('st + HelloReply) poll \<times> 's \<times> string list) option" where
  "client_stream_poll message stream names =
     (case message stream of
        (Pending, s') \<Rightarrow> Some (Pending, s', names)
      | (Ready (Err status), s') \<Rightarrow> Some (Ready (Err status), s', names)
      | (Ready (Ok (Some request)), s') \<Rightarrow> client_stream_poll message s' (names @ [rq_name request])
      | (Ready (Ok None), s') \<Rightarrow> Some (Ready (Ok \<lparr>rp_message = ''hello '' @ join_names names\<rparr>), s', names))"

partial_function (option) bidi_stream_poll ::
  "('s \<Rightarrow> ('st + HelloRequest option) poll \<times> 's) \<Rightarrow> 's \<Rightarrow> ('st + HelloReply) list \<Rightarrow>
   (('st + ('st + HelloReply) list) poll \<times> 's \<times> ('st + HelloReply) list) option" where
  "bidi_stream_poll message stream replies =
     (case message stream of
        (Pending, s') \<Rightarrow> Some (Pending, s', replies)
      | (Ready (Err status), s') \<Rightarrow> Some (Ready (Err status), s', replies)
      | (Ready (Ok (Some request)), s') \<Rightarrow>
          bidi_stream_poll message s' (replies @ [Ok \<lparr>rp_message = ''hello '' @ rq_name request\<rparr>])
      | (Ready (Ok None), s') \<Rightarrow> Some (Ready (Ok replies), s', replies))"

definition say_hello_client_stream where
  "say_hello_client_stream message stream = client_stream_poll message stream []"

definition say_hello_bidi_stream where
  "say_hello_bidi_stream message stream = bidi_stream_poll message stream []"

section \<open>Reading a stream of messages\<close>

text \<open>
  What a stream of messages promises: it yields its messages in order, and reports its end when none is left. \<open>m\<close> bounds the messages
  that can still be read without waiting.
\<close>

definition stream_ok :: "('s \<Rightarrow> ('st + 'q option) poll \<times> 's) \<Rightarrow> ('s \<Rightarrow> 'q list) \<Rightarrow> bool" where
  "stream_ok message msgs \<longleftrightarrow>
     (\<forall>s. case message s of
        (Pending, s') \<Rightarrow> msgs s' = msgs s
      | (Ready (Ok (Some q)), s') \<Rightarrow> msgs s = q # msgs s'
      | (Ready (Ok None), s') \<Rightarrow> msgs s = []
      | (Ready (Err _), s') \<Rightarrow> True)"

text \<open>A method that is polled until it is ready.\<close>

inductive polled :: "('s \<Rightarrow> 'a \<Rightarrow> ('r poll \<times> 's \<times> 'a) option) \<Rightarrow> 's \<Rightarrow> 'a \<Rightarrow> 's \<Rightarrow> 'a \<Rightarrow> bool" for poll s0 acc0 where
  polled_nil: "polled poll s0 acc0 s0 acc0"
| polled_step: "polled poll s0 acc0 s acc \<Longrightarrow> poll s acc = Some (Pending, s', acc') \<Longrightarrow> polled poll s0 acc0 s' acc'"

text \<open>
  The contract of a method that reads its requests to the end: a poll resumes with what was collected (\<open>'a\<close>), adds
  each message with \<open>add\<close> and ends with \<open>fin\<close> or with the error of the stream.
\<close>

locale stream_method =
  fixes message :: "'s \<Rightarrow> ('st + 'q option) poll \<times> 's"
    and poll :: "'s \<Rightarrow> 'a \<Rightarrow> (('st + 'r) poll \<times> 's \<times> 'a) option"
    and add :: "'a \<Rightarrow> 'q \<Rightarrow> 'a"
    and fin :: "'a \<Rightarrow> 'r"
  assumes poll_unfold: "poll s acc =
     (case message s of
        (Pending, s') \<Rightarrow> Some (Pending, s', acc)
      | (Ready (Err e), s') \<Rightarrow> Some (Ready (Err e), s', acc)
      | (Ready (Ok (Some q)), s') \<Rightarrow> poll s' (add acc q)
      | (Ready (Ok None), s') \<Rightarrow> Some (Ready (Ok (fin acc)), s', acc))"
begin

text \<open>Every message the stream had is accounted for in what the method has collected.\<close>

lemma poll_accounts:
  assumes ok: "stream_ok message msgs"
  shows "poll s acc = Some (r, s', acc') \<Longrightarrow>
    (r = Pending \<longrightarrow> foldl add acc' (msgs s') = foldl add acc (msgs s)) \<and>
    (\<forall>v. r = Ready (Ok v) \<longrightarrow> v = fin (foldl add acc (msgs s)))"
proof (induction "length (msgs s)" arbitrary: s acc rule: less_induct)
  case less
  obtain x t where m: "message s = (x, t)" by fastforce
  note law = ok [unfolded stream_ok_def, rule_format, of s, unfolded m, simplified]
  show ?case
  proof (cases "\<exists>q. x = Ready (Ok (Some q))")
    case True
    then obtain q where x: "x = Ready (Ok (Some q))" ..
    with law have "msgs s = q # msgs t" by simp
    with less(1) [of t "add acc q"] less(2) m x show ?thesis by (simp add: poll_unfold [of s])
  next
    case False
    with law less(2) m show ?thesis
      by (auto simp: poll_unfold [of s] split: poll.splits sum.splits option.splits)
  qed
qed

lemma polled_accounts:
  assumes "stream_ok message msgs" "polled poll s acc s' acc'"
  shows "foldl add acc' (msgs s') = foldl add acc (msgs s)"
  using assms(2,1) by (induction rule: polled.induct) (auto dest: poll_accounts)

lemma reply_complete:
  assumes "stream_ok message msgs" "polled poll s acc s' acc'" "poll s' acc' = Some (Ready (Ok v), t, acc'')"
  shows "v = fin (foldl add acc (msgs s))"
  using poll_accounts [OF assms(1,3)] polled_accounts [OF assms(1,2)] by simp

lemma poll_returns:
  assumes "stream_ok message msgs"
  shows "poll s acc \<noteq> None"
proof (induction "length (msgs s)" arbitrary: s acc rule: less_induct)
  case less
  obtain x t where m: "message s = (x, t)" by fastforce
  have "msgs s = q # msgs t" if "x = Ready (Ok (Some q))" for q
    using assms [unfolded stream_ok_def, rule_format, of s] m that by simp
  with less [of t] m show ?case
    by (auto simp: poll_unfold [of s] split: poll.splits sum.splits option.splits)
qed

end

interpretation gc: stream_method message "client_stream_poll message" "\<lambda>names q. names @ [rq_name q]"
  "\<lambda>names. \<lparr>rp_message = ''hello '' @ join_names names\<rparr>"
  for message :: "'s \<Rightarrow> ('st + HelloRequest option) poll \<times> 's"
  by unfold_locales (rule client_stream_poll.simps)

interpretation gb: stream_method message "bidi_stream_poll message"
  "\<lambda>replies q. replies @ [Ok \<lparr>rp_message = ''hello '' @ rq_name q\<rparr>]" "\<lambda>replies. replies"
  for message :: "'s \<Rightarrow> ('st + HelloRequest option) poll \<times> 's"
  by unfold_locales (rule bidi_stream_poll.simps)

section \<open>Properties\<close>

lemma foldl_append_map: "foldl (\<lambda>xs q. xs @ [f q]) acc qs = acc @ map f qs"
  by (induction qs arbitrary: acc) simp_all

text \<open>The client streaming method greets every name of the stream, in order, and its polls end.\<close>

lemma client_stream_greets_all:
  assumes "stream_ok message msgs" "polled (client_stream_poll message) s [] s' names"
    and "client_stream_poll message s' names = Some (Ready (Ok reply), t, ns)"
  shows "reply = \<lparr>rp_message = ''hello '' @ join_names (map rq_name (msgs s))\<rparr>"
  using gc.reply_complete [OF assms] by (simp add: foldl_append_map)

text \<open>
  The bidirectional method answers each request as the unary method does. However its stream of requests is
  scheduled, every poll of it comes to an end, and the list of replies it ends with is the reply of \<open>say_hello\<close> to each
  message of the stream, in order.
\<close>

theorem bidi_stream_answers_each:
  assumes "stream_ok message msgs" "polled (bidi_stream_poll message) s [] s' replies"
  shows "\<exists>r t rs. bidi_stream_poll message s' replies = Some (r, t, rs) \<and>
    (\<forall>v. r = Ready (Ok v) \<longrightarrow> v = map say_hello (msgs s))"
proof -
  obtain r t rs where p: "bidi_stream_poll message s' replies = Some (r, t, rs)"
    using gb.poll_returns [OF assms(1), of s' replies] by (cases "bidi_stream_poll message s' replies") auto
  have "v = map say_hello (msgs s)" if "r = Ready (Ok v)" for v
    using gb.reply_complete [OF assms p [unfolded that]]
    by (simp add: foldl_append_map say_hello_def [abs_def])
  with p show ?thesis by blast
qed

fun list_message :: "(string + HelloRequest) poll list \<Rightarrow> (string + HelloRequest option) poll \<times> (string + HelloRequest) poll list" where
  "list_message [] = (Ready (Ok None), [])"
| "list_message (Pending # ps) = (Pending, ps)"
| "list_message (Ready (Ok q) # ps) = (Ready (Ok (Some q)), ps)"
| "list_message (Ready (Err e) # ps) = (Ready (Err e), ps)"

fun list_messages :: "(string + HelloRequest) poll list \<Rightarrow> HelloRequest list" where
  "list_messages [] = []"
| "list_messages (Ready (Ok q) # ps) = q # list_messages ps"
| "list_messages (_ # ps) = list_messages ps"

lemma list_stream_ok: "stream_ok list_message list_messages"
  unfolding stream_ok_def
proof
  fix s show "case list_message s of (Pending, s') \<Rightarrow> list_messages s' = list_messages s
      | (Ready (Ok (Some q)), s') \<Rightarrow> list_messages s = q # list_messages s'
      | (Ready (Ok None), s') \<Rightarrow> list_messages s = [] | (Ready (Err _), s') \<Rightarrow> True"
    by (cases s rule: list_message.cases) simp_all
qed

theorem bidi_stream_answers_each_witness:
  "\<exists>t rs. bidi_stream_poll list_message [Ready (Ok \<lparr>rq_name = ''b''\<rparr>)] [Ok \<lparr>rp_message = ''hello a''\<rparr>] =
     Some (Ready (Ok (map say_hello [\<lparr>rq_name = ''a''\<rparr>, \<lparr>rq_name = ''b''\<rparr>])), t, rs)"
proof -
  let ?s = "[Ready (Ok \<lparr>rq_name = ''a''\<rparr>), Pending, Ready (Ok \<lparr>rq_name = ''b''\<rparr>)] :: (string + HelloRequest) poll list"
  let ?t = "[Ready (Ok \<lparr>rq_name = ''b''\<rparr>)] :: (string + HelloRequest) poll list"
  let ?rs = "[Ok \<lparr>rp_message = ''hello a''\<rparr>]"
  have "polled (bidi_stream_poll list_message) ?s [] ?t ?rs"
    by (rule polled_step [OF polled_nil]) (simp add: bidi_stream_poll.simps)
  from bidi_stream_answers_each [OF list_stream_ok this] obtain r t rs where
    p: "bidi_stream_poll list_message ?t ?rs = Some (r, t, rs)"
    and v: "\<forall>v. r = Ready (Ok v) \<longrightarrow> v = map say_hello (list_messages ?s)" by blast
  from p obtain v where r: "r = Ready (Ok v)" by (auto simp: bidi_stream_poll.simps)
  with v have "v = map say_hello [\<lparr>rq_name = ''a''\<rparr>, \<lparr>rq_name = ''b''\<rparr>]" by simp
  with p r show ?thesis by blast
qed

end
