(* ===== verification/TestRuns.thy ===== *)
theory TestRuns
  imports Greeter Procedures
begin

text \<open>
  The integration tests that run a server and greet it from clients: \<open>h3_test\<close> of \<open>tonic-h3-tests/src/mix.rs\<close>, \<open>reconnect_test\<close>
  of \<open>reconnect.rs\<close>, \<open>quinn_multi_address_failover\<close> of \<open>failover.rs\<close> and \<open>axum_test\<close> of \<open>axum.rs\<close>. They are procedures whose calls are those of the test harness; what the
  service answers is theory \<open>Greeter\<close>.
\<close>

section \<open>The harness\<close>

text \<open>
  Tasks are named by the token that stops them. \<open>Start_server t a\<close> binds a server to the address \<open>a\<close>, \<open>Start_client t\<close> makes a client, with
  its background task where it has one, \<open>Join t\<close> awaits the task of \<open>t\<close>.
\<close>

datatype backend = B_quinn | B_s2n | B_msquic | B_quiche

datatype tcall =
    Start_server string string
  | Start_client backend string
  | Sleep_secs nat
  | Say_hello string
  | Server_stream string
  | Client_stream "string list"
  | Bidi_stream "string list"
  | Lookup_host string
  | Http_get
  | Close_endpoint string
  | Drop_client
  | Reg_stop
  | Wait_idle backend
  | Ctrl_c
  | Cancel string
  | Join string

datatype treply = T_unit | T_addr string | T_addrs "string list" | T_reply HelloReply | T_stream "(string + HelloReply) list"

type_synonym ('w, 'a) run = "(tcall, 'w, string, 'a) proc"

type_synonym 'w harness = "tcall \<Rightarrow> 'w \<Rightarrow> (string + treply) \<times> 'w"

definition asserting :: "bool \<Rightarrow> string \<Rightarrow> ('w, unit) run" where
  "asserting b msg = (if b then pret () else ppanic msg)"

abbreviation unwrapped :: "'w harness \<Rightarrow> tcall \<Rightarrow> ('w, treply) run" where
  "unwrapped lib c \<equiv> expecting ''unwrap'' (invoke lib c)"

text \<open>\<open>while let Some(reply) = stream.message().await.unwrap() { count += 1; }\<close>\<close>

fun count_messages :: "(string + HelloReply) list \<Rightarrow> nat \<Rightarrow> ('w, nat) run" where
  "count_messages [] count = pret count"
| "count_messages (Ok reply # rest) count = count_messages rest (count + 1)"
| "count_messages (Err status # rest) count = ppanic ''unwrap''"

fun stream_of :: "treply \<Rightarrow> (string + HelloReply) list" where
  "stream_of (T_stream rs) = rs"
| "stream_of _ = []"

fun message_of :: "treply \<Rightarrow> string" where
  "message_of (T_reply r) = rp_message r"
| "message_of _ = []"

fun addr_of :: "treply \<Rightarrow> string" where
  "addr_of (T_addr a) = a"
| "addr_of _ = []"

fun addrs_of :: "treply \<Rightarrow> string list" where
  "addrs_of (T_addrs as) = as"
| "addrs_of _ = []"

section \<open>\<open>mix.rs\<close>\<close>

definition quinn_block :: "'w harness \<Rightarrow> ('w, unit) run" where
  "quinn_block lib =
     andthen (unwrapped lib (Start_client B_quinn '''')) (\<lambda>_.
     andthen (unwrapped lib (Say_hello ''Tonic'')) (\<lambda>_.
     andthen (unwrapped lib (Say_hello ''Tonic2'')) (\<lambda>_.
     andthen (unwrapped lib (Server_stream ''StreamTonic'')) (\<lambda>response.
     andthen (count_messages (stream_of response) 0) (\<lambda>count.
     andthen (asserting (count = 3) ''count == 3'') (\<lambda>_.
     andthen (unwrapped lib (Client_stream [''Client1'', ''Client2''])) (\<lambda>response.
     andthen (asserting (sublist ''Client1'' (message_of response)) ''message contains Client1'') (\<lambda>_.
     andthen (unwrapped lib (Bidi_stream [''Bidi1'', ''Bidi2''])) (\<lambda>response.
     andthen (count_messages (stream_of response) 0) (\<lambda>count.
     andthen (asserting (count = 2) ''count == 2'') (\<lambda>_.
     perform lib Drop_client)))))))))))"

definition s2n_block :: "'w harness \<Rightarrow> ('w, unit) run" where
  "s2n_block lib =
     andthen (unwrapped lib (Start_client B_s2n '''')) (\<lambda>_.
     andthen (unwrapped lib (Say_hello ''Tonic-S2n'')) (\<lambda>_.
     perform lib Drop_client))"

definition msquic_block :: "'w harness \<Rightarrow> ('w, unit) run" where
  "msquic_block lib =
     andthen (unwrapped lib (Start_client B_msquic '''')) (\<lambda>_.
     andthen (unwrapped lib (Say_hello ''Tonic-MsQuic'')) (\<lambda>_.
     andthen (perform lib Reg_stop) (\<lambda>_.
     perform lib Drop_client)))"

definition quiche_block :: "'w harness \<Rightarrow> ('w, unit) run" where
  "quiche_block lib =
     andthen (unwrapped lib (Start_client B_quiche ''client_token'')) (\<lambda>_.
     andthen (unwrapped lib (Say_hello ''Tonic-Quiche'')) (\<lambda>_.
     andthen (perform lib (Cancel ''client_token'')) (\<lambda>_.
     andthen (unwrapped lib (Join ''client_token'')) (\<lambda>_.
     perform lib Drop_client))))"

definition h3_test :: "'w harness \<Rightarrow> ('w, unit) run" where
  "h3_test lib =
     andthen (unwrapped lib (Start_server ''token'' ''127.0.0.1:0'')) (\<lambda>listen_addr.
     andthen (perform lib (Sleep_secs 1)) (\<lambda>_.
     andthen (quinn_block lib) (\<lambda>_.
     andthen (perform lib (Wait_idle B_quinn)) (\<lambda>_.
     andthen (s2n_block lib) (\<lambda>_.
     andthen (unwrapped lib (Wait_idle B_s2n)) (\<lambda>_.
     andthen (msquic_block lib) (\<lambda>_.
     andthen (perform lib (Wait_idle B_msquic)) (\<lambda>_.
     andthen (quiche_block lib) (\<lambda>_.
     andthen (perform lib (Cancel ''token'')) (\<lambda>_.
     andthen (unwrapped lib (Join ''token'')) (\<lambda>_. pret ())))))))))))"

section \<open>\<open>reconnect.rs\<close>\<close>

definition reconnect_test :: "'w harness \<Rightarrow> (string \<Rightarrow> nat) \<Rightarrow> backend \<Rightarrow> ('w, unit) run" where
  "reconnect_test lib port b =
     andthen (unwrapped lib (Start_server ''token'' ''127.0.0.1:0'')) (\<lambda>s.
     let listen_addr = addr_of s in
     andthen (perform lib (Sleep_secs 1)) (\<lambda>_.
     andthen (unwrapped lib (Start_client b ''client_token'')) (\<lambda>_.
     andthen (unwrapped lib (Say_hello ''Tonic'')) (\<lambda>_.
     andthen (perform lib (Cancel ''token'')) (\<lambda>_.
     andthen (unwrapped lib (Join ''token'')) (\<lambda>_.
     andthen (perform lib (Sleep_secs 3)) (\<lambda>_.
     andthen (unwrapped lib (Start_server ''token2'' listen_addr)) (\<lambda>s2.
     andthen (asserting (port (addr_of s2) = port listen_addr) ''listen_addr2.port() == listen_addr.port()'') (\<lambda>_.
     andthen (perform lib (Sleep_secs 1)) (\<lambda>_.
     andthen (unwrapped lib (Say_hello ''Tonic2'')) (\<lambda>_.
     andthen (perform lib (Cancel ''client_token'')) (\<lambda>_.
     andthen (perform lib Drop_client) (\<lambda>_.
     andthen (unwrapped lib (Join ''client_token'')) (\<lambda>_.
     andthen (perform lib (Cancel ''token2'')) (\<lambda>_.
     andthen (unwrapped lib (Join ''token2'')) (\<lambda>_. pret ()))))))))))))))))"

section \<open>\<open>failover.rs\<close> and \<open>axum.rs\<close>\<close>

text \<open>
  The failover test greets a server on the loopback address by the name \<open>localhost\<close>, unless that name has only one address or nothing but the loopback address.
  \<open>host port\<close> is the name with the port of the server, \<open>loopback\<close> tells whether the IP of an address is 127.0.0.1.
\<close>

definition exercises_failover :: "(string \<Rightarrow> bool) \<Rightarrow> string list \<Rightarrow> bool" where
  "exercises_failover loopback resolved \<longleftrightarrow> 2 \<le> length resolved \<and> list_ex (\<lambda>a. \<not> loopback a) resolved"

definition quinn_multi_address_failover ::
  "'w harness \<Rightarrow> (string \<Rightarrow> nat) \<Rightarrow> (nat \<Rightarrow> string) \<Rightarrow> (string \<Rightarrow> bool) \<Rightarrow> ('w, unit) run" where
  "quinn_multi_address_failover lib port host loopback =
     andthen (unwrapped lib (Start_server ''token'' ''127.0.0.1:0'')) (\<lambda>s.
     andthen (perform lib (Sleep_secs 1)) (\<lambda>_.
     andthen (expecting ''lookup_host localhost failed'' (invoke lib (Lookup_host (host (port (addr_of s)))))) (\<lambda>r.
     if \<not> exercises_failover loopback (addrs_of r)
     then
       andthen (perform lib (Cancel ''token'')) (\<lambda>_.
       andthen (unwrapped lib (Join ''token'')) (\<lambda>_. pret ()))
     else
       andthen (unwrapped lib (Start_client B_quinn '''')) (\<lambda>_.
       andthen (expecting ''expected failover to a healthy address to succeed'' (invoke lib (Say_hello ''Failover''))) (\<lambda>_.
       andthen (perform lib (Close_endpoint ''client close'')) (\<lambda>_.
       andthen (perform lib (Cancel ''token'')) (\<lambda>_.
       andthen (unwrapped lib (Join ''token'')) (\<lambda>_. pret ()))))))))"

text \<open>
  The client part, which \<open>test_client\<close> runs against external servers as well: \<open>Http_get\<close> sends the request and collects the body of the response.
\<close>

definition test_client :: "'w harness \<Rightarrow> ('w, unit) run" where
  "test_client lib =
     andthen (unwrapped lib (Start_client B_quinn '''')) (\<lambda>_.
     andthen (unwrapped lib Http_get) (\<lambda>data.
     perform lib Drop_client))"

definition axum_test :: "'w harness \<Rightarrow> ('w, unit) run" where
  "axum_test lib =
     andthen (unwrapped lib (Start_server ''token'' ''127.0.0.1:0'')) (\<lambda>listen_addr.
     andthen (test_client lib) (\<lambda>_.
     andthen (perform lib (Cancel ''token'')) (\<lambda>_.
     andthen (unwrapped lib (Join ''token'')) (\<lambda>_.
     andthen (perform lib (Close_endpoint ''test complete'')) (\<lambda>_. pret ())))))"

section \<open>The examples\<close>

text \<open>
  \<open>examples/server.rs\<close> serves until it is interrupted; \<open>examples/client.rs\<close> greets once; \<open>examples/mp-client.rs\<close> greets from two
  tasks that share the channel, whose calls are taken one after the other; both make their call, and \<open>join_all\<close> panics when one of the tasks has.
\<close>

definition example_server :: "'w harness \<Rightarrow> ('w, unit) run" where
  "example_server lib =
     andthen (unwrapped lib (Start_server ''token'' ''127.0.0.1:5047'')) (\<lambda>listen_addr.
     andthen (expecting ''failed to listen for event'' (invoke lib Ctrl_c)) (\<lambda>_.
     andthen (perform lib (Cancel ''token'')) (\<lambda>_.
     andthen (unwrapped lib (Join ''token'')) (\<lambda>_. pret ()))))"

definition example_client :: "'w harness \<Rightarrow> ('w, unit) run" where
  "example_client lib =
     andthen (unwrapped lib (Start_client B_quinn '''')) (\<lambda>_.
     andthen (unwrapped lib (Say_hello ''Tonic'')) (\<lambda>_. pret ()))"

text \<open>The client of the documentation returns the error of its call.\<close>

definition doc_run_client :: "'w harness \<Rightarrow> ('w, unit) run" where
  "doc_run_client lib =
     andthen (perform lib (Start_client B_quinn '''')) (\<lambda>_.
     andthen (invoke lib (Say_hello ''Tonic'')) (\<lambda>response. pret ()))"

definition example_mp_client :: "'w harness \<Rightarrow> ('w, unit) run" where
  "example_mp_client lib =
     andthen (unwrapped lib (Start_client B_quinn '''')) (\<lambda>_.
     andthen (captured (invoke lib (Say_hello ''Tonic''))) (\<lambda>task1.
     andthen (captured (invoke lib (Say_hello ''Tonic''))) (\<lambda>task2.
     asserting (\<not> isl task1 \<and> \<not> isl task2) ''task panicked'')))"

section \<open>Staging\<close>

text \<open>
  The monitor of a run: which tokens were cancelled and which server is running. A task is only awaited after it was told to stop, and a server is
  only started when none is running.
\<close>

type_synonym stage = "string set \<times> string option"

definition stage_after :: "tcall \<Rightarrow> stage \<Rightarrow> stage option" where
  "stage_after c st =
     (case st of (stopped, running) \<Rightarrow>
        (case c of
           Start_server t a \<Rightarrow> if running = None then Some (stopped, Some t) else None
         | Cancel t \<Rightarrow> Some (insert t stopped, running)
         | Join t \<Rightarrow> if t \<in> stopped then Some (stopped, if running = Some t then None else running) else None
         | _ \<Rightarrow> Some st))"

fun staged :: "stage \<Rightarrow> tcall list \<Rightarrow> bool" where
  "staged st [] = True"
| "staged st (c # cs) = (case stage_after c st of None \<Rightarrow> False | Some st' \<Rightarrow> staged st' cs)"

definition runs_staged :: "stage \<Rightarrow> ('w, 'a) run \<Rightarrow> bool" where
  "runs_staged st m \<longleftrightarrow> (\<forall>w. staged st (fst (m w)))"

lemma fst_andthen_unwrapped:
  "fst (andthen (expecting msg (invoke lib c)) f w) = c # (case lib c w of (Ok x, w1) \<Rightarrow> fst (f x w1) | (Err e, w1) \<Rightarrow> [])"
  by (simp add: proc_defs split: prod.splits sum.splits)

lemma fst_andthen_perform: "fst (andthen (perform lib c) f w) = c # fst (f () (snd (lib c w)))"
  by (simp add: proc_defs split: prod.splits)

lemma runs_staged_calls:
  "stage_after c st \<noteq> None \<Longrightarrow> (\<And>x. runs_staged (the (stage_after c st)) (f x)) \<Longrightarrow>
   runs_staged st (andthen (expecting msg (invoke lib c)) f)"
  "stage_after c st \<noteq> None \<Longrightarrow> runs_staged (the (stage_after c st)) (g ()) \<Longrightarrow> runs_staged st (andthen (perform lib c) g)"
  "stage_after c st \<noteq> None \<Longrightarrow> runs_staged st (perform lib c)"
  by (auto simp: runs_staged_def perform_def fst_andthen_unwrapped fst_andthen_perform split: prod.splits sum.splits)

lemma runs_staged_quiet:
  "(\<And>x. runs_staged st (f x)) \<Longrightarrow> runs_staged st (andthen (asserting b msg) f)"
  "(\<And>x. runs_staged st (g x)) \<Longrightarrow> runs_staged st (andthen (count_messages rs n) g)"
  "runs_staged st (pret v)"
proof -
  show "runs_staged st (andthen (asserting b msg) f)" if "\<And>x. runs_staged st (f x)"
    using that by (simp add: runs_staged_def asserting_def proc_defs split: prod.splits)
  show "runs_staged st (andthen (count_messages rs n) g)" if "\<And>x. runs_staged st (g x)"
    using that by (induction rs n rule: count_messages.induct) (simp_all add: runs_staged_def proc_defs split: prod.splits)
qed (simp add: runs_staged_def pret_def)

text \<open>
  The tests never wait for a task they have not stopped. In every run of \<open>h3_test\<close>, of \<open>reconnect_test\<close>, of the failover test, of \<open>axum_test\<close> and of the example server, also one that panics half-way, a task is
  awaited only after its token was cancelled, and a server is started only when no other is running.
\<close>

theorem tests_are_staged:
  "staged ({}, None) (fst (h3_test lib w)) \<and> staged ({}, None) (fst (reconnect_test lib port b w)) \<and>
   staged ({}, None) (fst (quinn_multi_address_failover lib port host loopback w)) \<and>
   staged ({}, None) (fst (axum_test lib w)) \<and> staged ({}, None) (fst (example_server lib w))"
proof -
  have "runs_staged ({}, None) (h3_test lib)"
    unfolding h3_test_def quinn_block_def s2n_block_def msquic_block_def quiche_block_def andthen_assoc
    by (simp add: runs_staged_calls runs_staged_quiet stage_after_def)
  moreover have "runs_staged ({}, None) (reconnect_test lib port b)"
    unfolding reconnect_test_def Let_def
    by (simp add: runs_staged_calls runs_staged_quiet stage_after_def)
  moreover have "runs_staged ({}, None) (quinn_multi_address_failover lib port host loopback)"
    unfolding quinn_multi_address_failover_def
    by (simp add: runs_staged_calls runs_staged_quiet stage_after_def)
  moreover have "runs_staged ({}, None) (axum_test lib)"
    unfolding axum_test_def test_client_def andthen_assoc
    by (simp add: runs_staged_calls runs_staged_quiet stage_after_def)
  moreover have "runs_staged ({}, None) (example_server lib)"
    unfolding example_server_def
    by (simp add: runs_staged_calls runs_staged_quiet stage_after_def)
  ultimately show ?thesis unfolding runs_staged_def by blast
qed

section \<open>The greetings\<close>

text \<open>
  What is relied on of the generated code and the transport: a call brings the answer of the service back, read from a stream of the given
  requests in whatever portions they arrive, and everything else works.
\<close>

definition arrives :: "(string + HelloRequest) poll list \<Rightarrow> string list \<Rightarrow> bool" where
  "arrives s names \<longleftrightarrow> list_messages s = map (\<lambda>n. \<lparr>rq_name = n\<rparr>) names"

definition greets_stream :: "string list \<Rightarrow> HelloReply \<Rightarrow> bool" where
  "greets_stream names r \<longleftrightarrow>
     (\<exists>s s' acc t acc'. arrives s names \<and> polled (client_stream_poll list_message) s [] s' acc \<and>
        client_stream_poll list_message s' acc = Some (Ready (Ok r), t, acc'))"

definition answers_stream :: "string list \<Rightarrow> (string + HelloReply) list \<Rightarrow> bool" where
  "answers_stream names rs \<longleftrightarrow>
     (\<exists>s s' acc t acc'. arrives s names \<and> polled (bidi_stream_poll list_message) s [] s' acc \<and>
        bidi_stream_poll list_message s' acc = Some (Ready (Ok rs), t, acc'))"

fun answer_ok :: "tcall \<Rightarrow> treply \<Rightarrow> bool" where
  "answer_ok (Say_hello n) r \<longleftrightarrow> (\<exists>v. (say_hello \<lparr>rq_name = n\<rparr> :: string + HelloReply) = Ok v \<and> r = T_reply v)"
| "answer_ok (Server_stream n) r \<longleftrightarrow> (\<exists>rs. (say_hello_server_stream \<lparr>rq_name = n\<rparr> :: string + _) = Ok rs \<and> r = T_stream rs)"
| "answer_ok (Client_stream ns) r \<longleftrightarrow> (\<exists>v. greets_stream ns v \<and> r = T_reply v)"
| "answer_ok (Bidi_stream ns) r \<longleftrightarrow> (\<exists>rs. answers_stream ns rs \<and> r = T_stream rs)"
| "answer_ok _ r \<longleftrightarrow> True"

definition delivers :: "'w harness \<Rightarrow> bool" where
  "delivers lib \<longleftrightarrow> (\<forall>c w. \<exists>r w'. lib c w = (Ok r, w') \<and> answer_ok c r)"

lemma greets_all:
  assumes "greets_stream names r"
  shows "rp_message r = ''hello '' @ join_names names"
proof -
  from assms obtain s s' acc t acc' where a: "list_messages s = map (\<lambda>n. \<lparr>rq_name = n\<rparr>) names"
    and p: "polled (client_stream_poll list_message) s [] s' acc"
    and q: "client_stream_poll list_message s' acc = Some (Ready (Ok r), t, acc')"
    unfolding greets_stream_def arrives_def by blast
  from client_stream_greets_all [OF list_stream_ok p q] a show ?thesis by (simp add: comp_def)
qed

lemma answers_all:
  assumes "answers_stream names rs"
  shows "rs = map (\<lambda>n. Ok \<lparr>rp_message = ''hello '' @ n\<rparr>) names"
proof -
  from assms obtain s s' acc t acc' where a: "list_messages s = map (\<lambda>n. \<lparr>rq_name = n\<rparr>) names"
    and p: "polled (bidi_stream_poll list_message) s [] s' acc"
    and q: "bidi_stream_poll list_message s' acc = Some (Ready (Ok rs), t, acc')"
    unfolding answers_stream_def arrives_def by blast
  from gb.reply_complete [OF list_stream_ok p q] a show ?thesis by (simp add: foldl_append_map comp_def)
qed

definition succeeds :: "('w, 'a) run \<Rightarrow> bool" where
  "succeeds m \<longleftrightarrow> (\<forall>w. \<exists>cs x w'. m w = (cs, Return (Ok x), w'))"

lemma succeeds_call:
  assumes "delivers lib" "\<And>r. answer_ok c r \<Longrightarrow> succeeds (f r)"
  shows "succeeds (andthen (unwrapped lib c) f)"
  unfolding succeeds_def
proof
  fix w
  obtain r w1 where 1: "lib c w = (Ok r, w1)" "answer_ok c r" using assms(1) unfolding delivers_def by blast
  obtain cs y w2 where "f r w1 = (cs, Return (Ok y), w2)" using assms(2) [OF 1(2)] unfolding succeeds_def by blast
  with 1 show "\<exists>cs x w'. andthen (unwrapped lib c) f w = (cs, Return (Ok x), w')" by (simp add: proc_defs)
qed

lemma succeeds_perform: "succeeds (f ()) \<Longrightarrow> succeeds (andthen (perform lib c) f)"
  unfolding succeeds_def
proof
  fix w
  assume s: "\<forall>w. \<exists>cs x w'. f () w = (cs, Return (Ok x), w')"
  obtain r w1 where 1: "lib c w = (r, w1)" by fastforce
  obtain cs y w2 where "f () w1 = (cs, Return (Ok y), w2)" using s by blast
  with 1 show "\<exists>cs x w'. andthen (perform lib c) f w = (cs, Return (Ok x), w')" by (simp add: proc_defs)
qed

lemma succeeds_quiet: "succeeds (pret x)" "b \<Longrightarrow> succeeds (f ()) \<Longrightarrow> succeeds (andthen (asserting b msg) f)"
  by (simp_all add: succeeds_def asserting_def, simp add: pret_def)

lemma count_messages_oks: "list_all (\<lambda>r. \<exists>v. r = Ok v) rs \<Longrightarrow> count_messages rs n = pret (n + length rs)"
  by (induction rs n rule: count_messages.induct) auto

lemma three_messages: "answer_ok (Server_stream n) r \<Longrightarrow> count_messages (stream_of r) 0 = pret 3"
  by (auto simp: say_hello_server_stream_def Let_def numeral_3_eq_3)

lemma two_messages:
  assumes "answer_ok (Bidi_stream [n, m]) r"
  shows "count_messages (stream_of r) 0 = pret 2"
proof -
  from assms obtain rs where rs: "answers_stream [n, m] rs" "r = T_stream rs" by auto
  from answers_all [OF rs(1)] rs(2) show ?thesis by (simp add: numeral_2_eq_2)
qed

lemma succeeds_counts:
  "answer_ok (Server_stream n) r \<Longrightarrow> succeeds (f 3) \<Longrightarrow> succeeds (andthen (count_messages (stream_of r) 0) f)"
  "answer_ok (Bidi_stream [n, m]) r \<Longrightarrow> succeeds (f 2) \<Longrightarrow> succeeds (andthen (count_messages (stream_of r) 0) f)"
  by (simp_all only: three_messages two_messages andthen_pret)

lemma first_is_greeted:
  assumes "answer_ok (Client_stream [n, m]) r"
  shows "sublist n (message_of r)"
proof -
  from assms obtain v where v: "greets_stream [n, m] v" "r = T_reply v" by auto
  from greets_all [OF v(1)] v(2) have "message_of r = ''hello '' @ n @ '', '' @ m" by simp
  then show ?thesis unfolding sublist_def by blast
qed

text \<open>
  The greetings of \<open>h3_test\<close> are answered as its assertions expect. When the transport brings the answers of the service back, with the
  requests of a stream arriving in any portions, the test passes: the server stream has three messages, the
  greeting of a client stream names its first client, and the bidirectional stream has one reply for each of its two requests.
\<close>

theorem h3_test_passes:
  assumes "delivers lib"
  shows "\<exists>cs w'. h3_test lib w = (cs, Return (Ok ()), w')"
proof -
  have "succeeds (h3_test lib)"
    unfolding h3_test_def quinn_block_def s2n_block_def msquic_block_def quiche_block_def andthen_assoc
    by ((rule succeeds_call [OF assms] succeeds_perform succeeds_quiet refl | erule succeeds_counts first_is_greeted)+)
  then show ?thesis unfolding succeeds_def by auto
qed

text \<open>A harness whose streams arrive at once.\<close>

fun sample_answer :: "tcall \<Rightarrow> treply" where
  "sample_answer (Say_hello n) = T_reply \<lparr>rp_message = ''hello '' @ n\<rparr>"
| "sample_answer (Server_stream n) = T_stream
     [Ok \<lparr>rp_message = ''hello '' @ n @ '' 1''\<rparr>, Ok \<lparr>rp_message = ''hello '' @ n @ '' 2''\<rparr>, Ok \<lparr>rp_message = ''hello '' @ n @ '' 3''\<rparr>]"
| "sample_answer (Client_stream ns) = T_reply \<lparr>rp_message = ''hello '' @ join_names ns\<rparr>"
| "sample_answer (Bidi_stream ns) = T_stream (map (\<lambda>n. Ok \<lparr>rp_message = ''hello '' @ n\<rparr>) ns)"
| "sample_answer _ = T_unit"

definition sample_harness :: "nat harness" where
  "sample_harness c w = (Ok (sample_answer c), w + 1)"

lemma at_once:
  "client_stream_poll list_message (map (\<lambda>n. Ready (Ok \<lparr>rq_name = n\<rparr>)) ns) acc =
     Some (Ready (Ok \<lparr>rp_message = ''hello '' @ join_names (acc @ ns)\<rparr>), [], acc @ ns)"
  "bidi_stream_poll list_message (map (\<lambda>n. Ready (Ok \<lparr>rq_name = n\<rparr>)) ns) bcc =
     Some (Ready (Ok (bcc @ map (\<lambda>n. Ok \<lparr>rp_message = ''hello '' @ n\<rparr>) ns)), [], bcc @ map (\<lambda>n. Ok \<lparr>rp_message = ''hello '' @ n\<rparr>) ns)"
  by (induction ns arbitrary: acc bcc) (simp_all add: client_stream_poll.simps bidi_stream_poll.simps)

lemma sample_delivers: "delivers sample_harness"
proof -
  have a: "arrives (map (\<lambda>n. Ready (Ok \<lparr>rq_name = n\<rparr>)) ns) ns" for ns
    unfolding arrives_def by (induction ns) simp_all
  have "greets_stream ns \<lparr>rp_message = ''hello '' @ join_names ns\<rparr>" for ns
    unfolding greets_stream_def using a [of ns] at_once(1) [of ns "[]"] polled_nil by fastforce
  moreover have "answers_stream ns (map (\<lambda>n. Ok \<lparr>rp_message = ''hello '' @ n\<rparr>) ns)" for ns
    unfolding answers_stream_def using a [of ns] at_once(2) [of ns "[]"] polled_nil by fastforce
  ultimately have "answer_ok c (sample_answer c)" for c
    by (cases c) (simp_all add: say_hello_def say_hello_server_stream_def Let_def)
  then show ?thesis by (simp add: delivers_def sample_harness_def)
qed

theorem h3_test_passes_witness: "\<exists>cs w'. h3_test sample_harness 0 = (cs, Return (Ok ()), w')"
  using h3_test_passes [OF sample_delivers, of 0] .

end
