(* ===== verification/Spec2Isabelle.thy ===== *)
theory Spec2Isabelle
  imports Serve Connect S2nStream Uploads DriverTask Channel Exchange GoawayTest UploadTests AxumTests
    GoawayServer CertFiles MetricsTests Cli BenchClient DotnetTests Stages TestRuns
begin

text \<open>
  This is a verification library for the tonic-h3 workspace: gRPC (tonic) and HTTP services (axum)
  over HTTP/3, on four QUIC libraries. The program is a set of futures: values that are polled,
  suspend and may be dropped at any suspension point. Most of its difficulty is in what a drop
  leaves behind, in errors that must not be lost, and in connections that end while requests are
  still using them. The development models these as state machines with explicit suspension points
  and proves what holds at every one of them.

  \<^bold>\<open>The parts and how they interact.\<close> A client sends requests through a tower service: \<open>H3Channel\<close>
  (a buffer in front) or \<open>H3Connection\<close>, both over \<open>RequestSender\<close>. \<open>RequestSender\<close> connects with one
  of four connectors, caches the connection, sees in \<open>poll_ready\<close> that it has ended and replaces it.
  Each request is a future made by \<open>send_request_inner\<close>; it sends its body with
  \<open>send_h3_client_body\<close>, behind a guard that resets the stream when it is dropped, and reads the
  response through \<open>H3IncomingClient\<close>. A server runs \<open>serve_inner\<close> over one of four acceptors, with a
  task per connection and per request; the request body arrives through \<open>H3IncomingServer\<close>, the
  response body leaves through \<open>send_h3_server_body\<close>, behind the same guard.

  \<^bold>\<open>Theories and sources.\<close>
  \<^item> \<open>H3Prelude\<close>: \<open>Poll\<close>, \<open>Result\<close>, panics as \<open>outcome\<close>, errors, shared flags (\<open>Arc<AtomicBool>\<close>) as
    cells of a store, URIs, reachability and the locale \<open>invariant_system\<close>. Beside the cells the store has \<open>net\<close>, the
    state that the libraries, the tasks and the peers share; every operation of a library takes and returns it, and the
    transition systems let it change at any moment.
  \<^item> \<open>SendGuard\<close>: \<open>h3-util/src/send_guard.rs\<close>. \<open>BodySend\<close>: the send half of an h3 stream, its
    documented behaviour (\<open>send_half_ok\<close>, \<open>body_ok\<close>) and the locale of body senders.
  \<^item> \<open>ClientBody\<close>, \<open>ServerBody\<close>: \<open>send_h3_client_body\<close> of \<open>client_body.rs\<close> and \<open>send_h3_server_body\<close> of
    \<open>server_body.rs\<close>. A value of \<open>client_body_fut\<close> is the future at one suspension point; a step
    function moves it, \<open>client_body_poll\<close> is one poll and \<open>client_body_drop\<close> the drop.
  \<^item> \<open>IncomingBody\<close>, \<open>ClientIncoming\<close>, \<open>ServerIncoming\<close>: \<open>H3IncomingClient\<close> and \<open>H3IncomingServer\<close>; the
    second component of a poll tells whether the task woke itself.
  \<^item> \<open>SendRequest\<close>, \<open>RequestSender\<close>, \<open>ConnLifecycle\<close>: \<open>client_conn.rs\<close>. \<open>SendRequest\<close> has
    \<open>is_connection_closing\<close> and the request future, \<open>RequestSender\<close> has \<open>poll_ready\<close>, \<open>call\<close> and
    \<open>retire_connection\<close> with an abstract connection machine, and \<open>ConnLifecycle\<close> the transition
    system of a sender with its requests in flight. \<open>DriverTask\<close> composes the sender with the driver tasks it has
    spawned and the one-shot channels between them. \<open>Exchange\<close> runs a request future, the response body it returns and the upload it
    has handed to the executor beside each other, with the cancellation channel between them.
  \<^item> \<open>Client\<close>: \<open>executor.rs\<close> and \<open>client.rs\<close> (\<open>H3Connection\<close>, \<open>H3Client::send\<close>), over the locale of tower
    services. \<open>Channel\<close>: \<open>H3Channel\<close> and \<open>ResponseFuture\<close>, a channel with its clones, futures and worker. \<open>Connect\<close>: \<open>dns_resolve\<close> and the connectors of \<open>quinn\<close>, \<open>s2n\<close>,
    \<open>quiche_h3\<close> and \<open>msquic\<close>.
  \<^item> \<open>Accept\<close>: the acceptors of the same four. \<open>Serve\<close>: \<open>server.rs\<close>, \<open>axum-h3/src/lib.rs\<close> and
    \<open>tonic-h3/src/server.rs\<close>.
  \<^item> \<open>S2nStream\<close>: \<open>s2n/s2n_quic_h3/s2n_quic.rs\<close>, the adapter of s2n-quic streams to h3.
  \<^item> \<open>Cli\<close>: the command lines of \<open>tests/bench/src/lib.rs\<close>, the options as declared and the values made of them. \<open>Bench\<close>, \<open>MetricsTests\<close>: \<open>load.rs\<close>, \<open>metrics.rs\<close> with its unit tests and \<open>lib.rs\<close> of \<open>tests/bench/src\<close>. \<open>Procedures\<close>, \<open>BenchServer\<close>,
    \<open>BenchClient\<close>: straight-line code over library calls, recorded in the order they are made, and with it \<open>server.rs\<close>, \<open>client.rs\<close>, \<open>tls.rs\<close> and the
    two programs of the benchmark. \<open>CertFiles\<close>: the certificate files of \<open>cert_gen.rs\<close> and \<open>tls.rs\<close> over a file system that may fail.
  \<^item> The code of \<open>tonic-h3-tests/src\<close> that the scenarios are made of. \<open>Connectors\<close>: \<open>CountConnect\<close> and \<open>FailOnce\<close>, wrappers of
    an arbitrary connector, with a locale that carries every property of the inner connector over. \<open>Uploads\<close>: the request
    bodies that fail or never end, and the handlers of \<open>cancel_reset.rs\<close> and \<open>goaway_reconnect.rs\<close> that read a body and
    report its end. \<open>GoawayServer\<close>: the server that sends a GOAWAY on its first connection. \<open>Greeter\<close>:
    \<open>HelloWorldService\<close>. \<open>TestServer\<close>: certificate lookup and listener of the msquic servers, also of \<open>tests/bench/src/server.rs\<close>.
  \<^item> The scenarios themselves. \<open>Awaiting\<close>: a send of a client awaited, under any scheduling of the tasks and peers around it, with locales for
    sends that keep a phase of the client. \<open>ClientScenarios\<close>: \<open>uri_boundary.rs\<close>, \<open>cert_error.rs\<close> and \<open>buffered_reconnect.rs\<close>; \<open>GoawayProbe\<close>, \<open>GoawayTest\<close> and
    \<open>StreamErrors\<close>: the two tests of \<open>goaway_reconnect.rs\<close>; \<open>UploadTests\<close>: those of \<open>cancel_reset.rs\<close>; \<open>AxumTests\<close>: \<open>axum.rs\<close>. \<open>TestSetup\<close>: the
    servers and background clients of \<open>tonic-h3-tests/src/lib.rs\<close>; \<open>Stages\<close>: what the tests of the client set up around their requests and how they end; \<open>TestRuns\<close>: \<open>mix.rs\<close>, \<open>reconnect.rs\<close>, \<open>failover.rs\<close>
    and the examples, as runs over a harness of calls; \<open>DotnetTests\<close>: \<open>dotnet.rs\<close>, over an operating system that runs its commands.
  \<^item> This theory: the properties of a body from its sender to its reader.

  \<^bold>\<open>What the theorems show.\<close>
  \<^item> Bodies: a FIN on a stream means that the whole body was sent; every interruption and every
    failure resets the stream with the code the source names; a clean end at the reader means that
    all was read; hence transfers are all or nothing, from end to end. One poll of a sender ends. A complete body
    arrives as it was sent, and one that fails is never reported as complete. Dropping a response cancels both directions, and no upload is left behind.
  \<^item> Connections: \<open>poll_ready\<close> fails no assertion and never returns an error in any reachable state;
    it implements a machine of four states; an error of the connection makes it reconnect, an error
    of a stream does not, and a request of a retired connection cannot disturb its successor; a
    failed attempt is reported by exactly one call. The end of a driver task is never missed; a buffered channel is never
    bricked; and what the tests count on one run (connection attempts after an error, the request that a transient failure
    costs) holds in every reachable state.
  \<^item> Scenarios: the assertions of the regression tests hold for every scheduling of the sends, given peers that behave as the test arranges it: sends to a
    healthy peer succeed, an incomplete base URI is always a clean error, a GOAWAY costs one failed request and one new connection, errors of a stream never
    cost a connection, a connector that fails once costs one request.
  \<^item> Services, connectors, acceptors and the server loop: every call is answered, failover tries every
    address (with the exceptions the theorems state), no accepted connection is lost or duplicated.
  \<^item> The adapter: bytes leave in order, flushing ends, FIN comes after the last byte, error codes
    keep their value and their scope, and which codes panic.
  \<^item> The benchmark and the test servers: what the totals of a run account for, which connection is told to go away, what a
    streaming method answers, how often a listener is tried; every server that has served is torn down by the recipe of its transport, also after a failure,
    servers and clients agree on the protocol, and certificate and key files belong together. A command line is read back as it was meant, and what is
    read is within the bounds that the load generator relies on. Every test cancels its server before it joins it, if and only if its scenario has passed.

  \<^bold>\<open>Code outside the repository\<close> is a parameter: h3, the QUIC libraries, tower's buffer, tokio's
  \<open>JoinSet\<close> and channels, timers, name resolution, the histogram, clap, the operating system. A record holds its operations (\<open>body_ops\<close>, \<open>recv_ops\<close>,
  \<open>conn_ops\<close> and so on) and a predicate on that record (\<open>ops_ok\<close>, \<open>recv_ok\<close>, \<open>serve_ok\<close>, \<open>oneshot_ok\<close>, \<open>buffer_ok\<close>) states what its
  documentation promises; theorems name the predicate as a hypothesis and their witnesses
  instantiate it with concrete functions. That h3's stream sends a FIN when it is dropped open, the
  reason for the guard, is part of \<open>send_half_ok\<close>.

  \<^bold>\<open>Loops and numbers.\<close> A loop inside a poll that depends on a library (the body senders, the accept
  loops, the flush loop, the server loop) is a \<open>partial_function\<close> into options, in which not returning
  is \<open>None\<close>, with a theorem that it returns; the other loops are structural recursion or have a measure, and no fuel is
  used. Error codes, counters and lengths that can wrap around or panic are words of their width.

  \<^bold>\<open>Not modelled.\<close> Debug and Display implementations and log lines, since nothing depends on them
  (except the Display texts that \<open>is_connection_closing\<close> reads and the summary of a benchmark); type aliases, re-exports and build scripts; what clap does with
  a command line other than options with values, and its messages (clap is a parameter); what the processes do that \<open>dotnet.rs\<close> starts; the test functions that only hand a server to a
  scenario. Servers and endpoints that a scenario starts first are parameters of the scenario, since theories \<open>TestSetup\<close>, \<open>Serve\<close> and \<open>GoawayServer\<close> have them. The memory
  model of the atomics is sequential consistency: the flags are monotone and read only in
  \<open>poll_ready\<close>. A panic ends the task it happens in and is a value of the model.
\<close>

section \<open>A body from end to end\<close>

text \<open>
  C1: uploads are all or nothing. If the server reads a request body to a clean end through
  \<open>H3IncomingServer\<close>, then it has read exactly the bytes and the trailers of the body that the
  client handed to \<open>send_h3_client_body\<close>, however the client's sender was scheduled, cancelled
  or dropped: an interrupted upload cannot be mistaken for a complete one.
\<close>

theorem upload_all_or_nothing:
  assumes "ops_ok ops status sent frames" "status w \<noteq> Send_fin" "sent w = []"
    and "(client_body_moves ops)\<^sup>*\<^sup>* (send_h3_client_body w bd cancel) f"
    and "recv_ok rops rbytes rtrailers rfin"
    and "carries status sent rbytes rtrailers rfin (client_body_drop ops f) r"
    and "reads (server_poll_frame rops) (H3IncomingServer_new r) fs j"
    and "server_poll_frame rops j = (Ready None, k, j')"
  shows "body_bytes fs = body_bytes (frames bd) \<and> body_trailers fs = body_trailers (frames bd) \<and>
    client_body_outcome f = Some (Ok ())"
proof -
  have i: "server_incoming_inv rops rbytes rtrailers rfin (H3IncomingServer_new r)"
    using assms(5) by (simp add: server_incoming_inv_def H3IncomingServer_new_def)
  have r: "is_s (H3IncomingServer_new r) = r" by (simp add: H3IncomingServer_new_def)
  from si.clean_end_is_complete [OF assms(7) i assms(8)]
  have e: "body_bytes fs = rbytes r" "body_trailers fs = rtrailers r" "rfin r" unfolding r by simp_all
  with assms(6) have "status (client_body_drop ops f) = Send_fin"
    "rbytes r = body_bytes (sent (client_body_drop ops f))"
    "rtrailers r = body_trailers (sent (client_body_drop ops f))" by (simp_all add: carries_def)
  with e cb.never_truncated [OF client_body_reach [OF assms(1-4)]] show ?thesis by simp
qed

theorem upload_all_or_nothing_witness:
  "\<exists>f j j'. (client_body_moves sample_client_ops)\<^sup>*\<^sup>* (sample_client [Ready (Ok (FData [1, 2])), Ready (Ok (FTrailers 9))] False) f \<and>
     reads (server_poll_frame sample_recv_ops)
       (H3IncomingServer_new \<lparr>sr_chunks = [[1, 2]], sr_trailers = [9], sr_fin = True, sr_stopped = None\<rparr>)
       [FData [1, 2], FTrailers 9] j \<and>
     server_poll_frame sample_recv_ops j = (Ready None, False, j') \<and> client_body_outcome f = Some (Ok ())"
proof -
  let ?b = "[Ready (Ok (FData [1, 2])), Ready (Ok (FTrailers 9))] :: sample_body"
  let ?r = "\<lparr>sr_chunks = [[1, 2]], sr_trailers = [9], sr_fin = True, sr_stopped = None\<rparr>"
  let ?f = "CB_done (Send_fin, [FData [1, 2], FTrailers 9]) (Ok ())"
  let ?i = "H3IncomingServer_new ?r"
  let ?j = "?i\<lparr>is_s := ?r\<lparr>sr_chunks := []\<rparr>\<rparr>"
  let ?l = "?j\<lparr>is_s := ?r\<lparr>sr_chunks := [], sr_trailers := []\<rparr>, is_data_done := True\<rparr>"
  note d = server_poll_frame_def H3IncomingServer_new_def sample_recv_ops_def buf_bytes_def
  have "client_body_poll sample_client_ops (sample_client ?b False) = Some (Ready (Ok ()), ?f)"
    by (simp add: sample_client_defs)
  from conjunct1 [OF client_body_poll_moves [OF this]]
  have m: "(client_body_moves sample_client_ops)\<^sup>*\<^sup>* (sample_client ?b False) ?f" by simp
  have c: "carries fst snd (\<lambda>r. concat (sr_chunks r)) sr_trailers sr_fin (client_body_drop sample_client_ops ?f) ?r"
    by (simp add: carries_def)
  have r1: "reads (server_poll_frame sample_recv_ops) ?i ([] @ [FData [1, 2]]) ?j"
    by (rule reads_frame [where k = False, OF reads_nil]) (simp add: d)
  have r2: "reads (server_poll_frame sample_recv_ops) ?i ([] @ [FData [1, 2]]) (?j\<lparr>is_data_done := True\<rparr>)"
    by (rule reads_pending [where k = True, OF r1]) (simp add: d)
  have "reads (server_poll_frame sample_recv_ops) ?i (([] @ [FData [1, 2]]) @ [FTrailers 9]) ?l"
    by (rule reads_frame [where k = False, OF r2]) (simp add: d)
  then have rd: "reads (server_poll_frame sample_recv_ops) ?i [FData [1, 2], FTrailers 9] ?l" by simp
  have e: "server_poll_frame sample_recv_ops ?l = (Ready None, False, ?l\<lparr>is_finished := True\<rparr>)"
    by (simp add: d)
  from upload_all_or_nothing [OF sample_client_ops_ok _ _ m sample_recv_ok c rd e] m rd e show ?thesis
    by (intro exI [of _ ?f] exI [of _ ?l] exI [of _ "?l\<lparr>is_finished := True\<rparr>"]) simp
qed

text \<open>
  C2: downloads are all or nothing. If the client reads a response body to a clean end through
  \<open>H3IncomingClient\<close>, and the task of the server had sent the head of a response, then the client has
  read exactly the bytes and the trailers of that response, at whatever moment the task of the
  server completed, failed or was dropped.
\<close>

theorem download_all_or_nothing:
  assumes "serve_ok sops status sent frames" "serve_run sops rs (Some (rh, b)) f" "serve_drop sops f = Some w"
    and "recv_ok rops rbytes rtrailers rfin" "carries status sent rbytes rtrailers rfin w r"
    and "reads (client_poll_frame rops) (H3IncomingClient_new r tx) fs j"
    and "client_poll_frame rops j = (Ready None, k, j')"
  shows "body_bytes fs = body_bytes (frames b) \<and> body_trailers fs = body_trailers (frames b)"
proof -
  have i: "client_incoming_inv rops rbytes rtrailers rfin (H3IncomingClient_new r tx)"
    using assms(4) by (simp add: client_incoming_inv_def H3IncomingClient_new_def)
  have r: "ic_s (H3IncomingClient_new r tx) = r" by (simp add: H3IncomingClient_new_def)
  from ci.clean_end_is_complete [OF assms(6) i assms(7)]
  have e: "body_bytes fs = rbytes r" "body_trailers fs = rtrailers r" "rfin r" unfolding r by simp_all
  with assms(5) have c: "status w = Send_fin" "rbytes r = body_bytes (sent w)" "rtrailers r = body_trailers (sent w)"
    by (simp_all add: carries_def)
  from serve_run_complete [OF assms(2,1,3) c(1)] c e show ?thesis by simp
qed

theorem download_all_or_nothing_witness:
  "\<exists>f w j j'. serve_run sample_serve () (Some (200, sample_response)) f \<and> serve_drop sample_serve f = Some w \<and>
     reads (client_poll_frame sample_recv_ops)
       (H3IncomingClient_new \<lparr>sr_chunks = [[1], [2]], sr_trailers = [], sr_fin = True, sr_stopped = None\<rparr> (Some (0 :: nat)))
       [FData [1], FData [2]] j \<and>
     client_poll_frame sample_recv_ops j = (Ready None, False, j') \<and>
     body_bytes [FData [1], FData [2 :: 8 word] :: nat frame] = body_bytes (sample_frames sample_response)"
proof -
  let ?d = "SR_done (Some (Send_fin, [FData [1, 2]])) (Ok ())"
  let ?r = "\<lparr>sr_chunks = [[1], [2]], sr_trailers = [], sr_fin = True, sr_stopped = None\<rparr>"
  let ?i = "H3IncomingClient_new ?r (Some (0 :: nat))"
  let ?j = "\<lambda>ds. ?i\<lparr>ic_s := ?r\<lparr>sr_chunks := ds\<rparr>\<rparr>"
  let ?l = "?j []\<lparr>ic_data_done := True\<rparr>"
  note s = client_poll_frame_def H3IncomingClient_new_def sample_recv_ops_def buf_bytes_def
  have c: "carries fst snd (\<lambda>r. concat (sr_chunks r)) sr_trailers sr_fin (Send_fin, [FData [1, 2]]) ?r"
    by (simp add: carries_def)
  have r1: "reads (client_poll_frame sample_recv_ops) ?i ([] @ [FData [1]]) (?j [[2]])"
    by (rule reads_frame [where k = False, OF reads_nil]) (simp add: s)
  have r2: "reads (client_poll_frame sample_recv_ops) ?i (([] @ [FData [1]]) @ [FData [2]]) (?j [])"
    by (rule reads_frame [where k = False, OF r1]) (simp add: s)
  have "reads (client_poll_frame sample_recv_ops) ?i (([] @ [FData [1]]) @ [FData [2]]) ?l"
    by (rule reads_pending [where k = True, OF r2]) (simp add: s)
  then have rd: "reads (client_poll_frame sample_recv_ops) ?i [FData [1], FData [2]] ?l" by simp
  have e: "client_poll_frame sample_recv_ops ?l = (Ready None, False, ?l\<lparr>ic_finished := True\<rparr>)"
    by (simp add: s)
  have d: "serve_drop sample_serve ?d = Some (Send_fin, [FData [1, 2]])" by simp
  from download_all_or_nothing [OF sample_serve_ok sample_serve_run d sample_recv_ok c rd e] sample_serve_run d rd e
  show ?thesis by blast
qed

end
